(* ===== verification/Prelude.thy ===== *)
theory Prelude
  imports Main "HOL-Library.Word" "HOL-Library.Char_ord" "HOL-Library.List_Lexorder"
begin

text \<open>
  The prelude of the TokenWeasel development: the collections of facts the component theories
  extend, the machine integers of the source (\<open>i64\<close> values are \<open>int\<close> with the saturating and
  checked operations written out, atomics and sequence numbers are words), the small pieces of the
  Rust standard library the crates call (\<open>Iterator::find_map\<close>, \<open>min_by_key\<close>, \<open>position\<close>,
  \<open>VecDeque::remove\<close>), and the generic lemmas on lists, maps and options the components share.
\<close>

named_theorems machine_int \<open>saturating and checked 64-bit arithmetic\<close>

section \<open>Signed 64-bit integers\<close>

definition i64_max :: int where
  "i64_max = 9223372036854775807"

definition i64_min :: int where
  "i64_min = -9223372036854775808"

definition in_i64 :: "int \<Rightarrow> bool" where
  "in_i64 x \<longleftrightarrow> i64_min \<le> x \<and> x \<le> i64_max"

text \<open>\<open>i64::saturating_add\<close> and \<open>i64::saturating_sub\<close>: the exact result clamped to the range.\<close>

definition sat64 :: "int \<Rightarrow> int" where
  "sat64 x = max i64_min (min i64_max x)"

definition saturating_add :: "int \<Rightarrow> int \<Rightarrow> int" where
  "saturating_add a b = sat64 (a + b)"

definition saturating_sub :: "int \<Rightarrow> int \<Rightarrow> int" where
  "saturating_sub a b = sat64 (a - b)"

text \<open>\<open>i64::checked_mul\<close>, \<open>i64::checked_sub\<close>: \<open>None\<close> when the exact result leaves the range.\<close>

definition checked64 :: "int \<Rightarrow> int option" where
  "checked64 x = (if in_i64 x then Some x else None)"

definition checked_mul :: "int \<Rightarrow> int \<Rightarrow> int option" where
  "checked_mul a b = checked64 (a * b)"

definition checked_sub :: "int \<Rightarrow> int \<Rightarrow> int option" where
  "checked_sub a b = checked64 (a - b)"

lemmas i64_defs [machine_int] =
  i64_max_def i64_min_def in_i64_def sat64_def saturating_add_def saturating_sub_def
  checked64_def checked_mul_def checked_sub_def

lemma in_i64_sat64 [simp]: "in_i64 (sat64 x)"
  by (simp add: machine_int)

lemma sat64_id: "in_i64 x \<Longrightarrow> sat64 x = x"
  by (simp add: machine_int)

lemma sat64_mono: "x \<le> y \<Longrightarrow> sat64 x \<le> sat64 y"
  by (simp add: machine_int)

lemma saturating_add_nonneg: "0 \<le> a \<Longrightarrow> 0 \<le> b \<Longrightarrow> 0 \<le> saturating_add a b"
  by (simp add: machine_int)

lemma saturating_add_ge: "in_i64 a \<Longrightarrow> 0 \<le> b \<Longrightarrow> a \<le> saturating_add a b"
  by (simp add: machine_int)

lemma saturating_add_in: "in_i64 (saturating_add a b)"
  by (simp add: saturating_add_def)

lemma checked64_Some_iff: "checked64 x = Some y \<longleftrightarrow> in_i64 x \<and> y = x"
  by (auto simp: checked64_def)

text \<open>Indices that fit 32 bits survive the cast to \<open>u32\<close> and back.\<close>

lemma unat_of_nat_32: "i < 2 ^ 32 \<Longrightarrow> unat (of_nat i :: 32 word) = i"
  by (simp add: unat_of_nat take_bit_nat_eq_self)

lemma of_nat_32_inj:
  "i < 2 ^ 32 \<Longrightarrow> j < 2 ^ 32 \<Longrightarrow> (of_nat i :: 32 word) = of_nat j \<longleftrightarrow> i = j"
  by (metis unat_of_nat_32)

section \<open>Iterators\<close>

text \<open>\<open>Iterator::find_map\<close>: the first \<open>Some\<close> a function yields along a list.\<close>

fun find_map :: "('a \<Rightarrow> 'b option) \<Rightarrow> 'a list \<Rightarrow> 'b option" where
  "find_map f [] = None"
| "find_map f (x # xs) = (case f x of Some y \<Rightarrow> Some y | None \<Rightarrow> find_map f xs)"

lemma find_map_Some: "find_map f xs = Some y \<Longrightarrow> \<exists>x \<in> set xs. f x = Some y"
  by (induction xs) (auto split: option.splits)

lemma find_map_None: "find_map f xs = None \<longleftrightarrow> (\<forall>x \<in> set xs. f x = None)"
  by (induction xs) (auto split: option.splits)

lemma find_map_cong [fundef_cong]:
  "xs = ys \<Longrightarrow> (\<And>x. x \<in> set ys \<Longrightarrow> f x = g x) \<Longrightarrow> find_map f xs = find_map g ys"
proof (induction ys arbitrary: xs)
  case (Cons y ys)
  then show ?case by (auto split: option.splits)
qed simp

lemma find_SomeD: "find P xs = Some x \<Longrightarrow> x \<in> set xs \<and> P x"
  by (induction xs) (auto split: if_splits)

text \<open>\<open>Iterator::position\<close>: the index of the first element satisfying a predicate.\<close>

fun position :: "('a \<Rightarrow> bool) \<Rightarrow> 'a list \<Rightarrow> nat option" where
  "position P [] = None"
| "position P (x # xs) = (if P x then Some 0 else map_option Suc (position P xs))"

lemma position_Some:
  "position P xs = Some i \<Longrightarrow> i < length xs \<and> P (xs ! i) \<and> (\<forall>j < i. \<not> P (xs ! j))"
proof (induction xs arbitrary: i)
  case (Cons x xs)
  show ?case
  proof (cases "P x")
    case True
    with Cons.prems show ?thesis by simp
  next
    case False
    with Cons.prems obtain k where k: "position P xs = Some k" "i = Suc k" by auto
    from Cons.IH [OF k(1)] k(2) False show ?thesis by (auto simp: nth_Cons split: nat.splits)
  qed
qed simp

lemma position_None: "position P xs = None \<longleftrightarrow> (\<forall>x \<in> set xs. \<not> P x)"
  by (induction xs) auto

lemma position_append:
  "\<forall>x \<in> set xs. \<not> P x \<Longrightarrow> P y \<Longrightarrow> position P (xs @ y # ys) = Some (length xs)"
  by (induction xs) auto

text \<open>
  \<open>VecDeque::remove\<close> at an index: \<open>None\<close> out of range.
\<close>

fun remove_at :: "nat \<Rightarrow> 'a list \<Rightarrow> ('a \<times> 'a list) option" where
  "remove_at i [] = None"
| "remove_at 0 (x # xs) = Some (x, xs)"
| "remove_at (Suc i) (x # xs) =
     (case remove_at i xs of None \<Rightarrow> None | Some (y, ys) \<Rightarrow> Some (y, x # ys))"

lemma remove_at_nth:
  "i < length xs \<Longrightarrow> remove_at i xs = Some (xs ! i, take i xs @ drop (Suc i) xs)"
  by (induction i xs rule: remove_at.induct) auto

lemma remove_at_beyond: "length xs \<le> i \<Longrightarrow> remove_at i xs = None"
  by (induction i xs rule: remove_at.induct) auto

lemma remove_at_Some:
  assumes "remove_at i xs = Some (y, ys)"
  shows "i < length xs" and "y = xs ! i" and "ys = take i xs @ drop (Suc i) xs"
    and "length xs = Suc (length ys)" and "set xs = insert y (set ys)"
proof -
  show i: "i < length xs"
    using assms remove_at_beyond [of xs i] by (cases "i < length xs") auto
  then show y: "y = xs ! i" and ys: "ys = take i xs @ drop (Suc i) xs"
    using assms remove_at_nth [of i xs] by auto
  show "length xs = Suc (length ys)" using i ys by auto
  have "xs = take i xs @ xs ! i # drop (Suc i) xs" using i by (rule id_take_nth_drop)
  then have "set xs = set (take i xs @ xs ! i # drop (Suc i) xs)" by metis
  then show "set xs = insert y (set ys)" using y ys by auto
qed

text \<open>
  \<open>Iterator::min_by_key\<close> over \<open>enumerate\<close>: the index of the first element whose key is minimal.
\<close>

fun min_index_by :: "('a \<Rightarrow> 'k::linorder) \<Rightarrow> 'a list \<Rightarrow> nat option" where
  "min_index_by f [] = None"
| "min_index_by f (x # xs) =
     (case min_index_by f xs of
        None \<Rightarrow> Some 0
      | Some i \<Rightarrow> if f (xs ! i) < f x then Some (Suc i) else Some 0)"

lemma min_index_by_None [simp]: "min_index_by f xs = None \<longleftrightarrow> xs = []"
  by (cases xs) (auto split: option.splits)

lemma min_index_by_Some:
  "min_index_by f xs = Some i \<Longrightarrow>
     i < length xs \<and> (\<forall>j < length xs. f (xs ! i) \<le> f (xs ! j)) \<and> (\<forall>j < i. f (xs ! i) < f (xs ! j))"
proof (induction xs arbitrary: i)
  case (Cons x xs)
  show ?case
  proof (cases "min_index_by f xs")
    case None
    with Cons.prems show ?thesis by auto
  next
    case (Some k)
    note IH = Cons.IH [OF Some]
    show ?thesis
    proof (cases "f (xs ! k) < f x")
      case True
      with Cons.prems Some have i: "i = Suc k" by simp
      show ?thesis unfolding i
        using IH True by (auto simp: nth_Cons split: nat.splits intro: less_imp_le)
    next
      case False
      with Cons.prems Some have i: "i = 0" by simp
      have "f x \<le> f ((x # xs) ! j)" if "j < length (x # xs)" for j
      proof (cases j)
        case 0
        then show ?thesis by simp
      next
        case (Suc l)
        with that IH have "f (xs ! k) \<le> f (xs ! l)" by simp
        with False Suc show ?thesis by simp
      qed
      then show ?thesis using i by simp
    qed
  qed
qed simp

lemma length_remove1_Suc: "x \<in> set xs \<Longrightarrow> length xs = Suc (length (remove1 x xs))"
  by (induction xs) auto

section \<open>Folds over chunks\<close>

text \<open>
  An accumulator that is fed byte chunks refines a view of the whole byte sequence when every push
  keeps the relation between the bytes fed so far and its state. What it then holds depends on the
  concatenation of the chunks alone, never on where they were cut.
\<close>

locale chunk_fed =
  fixes init :: 's
    and push :: "'s \<Rightarrow> 'b list \<Rightarrow> 's"
    and rep :: "'b list \<Rightarrow> 's \<Rightarrow> bool"
  assumes rep_init: "rep [] init"
    and rep_push: "rep bs s \<Longrightarrow> rep (bs @ c) (push s c)"
begin

lemma rep_foldl: "rep bs s \<Longrightarrow> rep (bs @ concat cs) (foldl push s cs)"
proof (induction cs arbitrary: bs s)
  case (Cons c cs)
  from Cons.IH [OF rep_push [OF Cons.prems]] show ?case by simp
qed simp

lemma rep_run: "rep (concat cs) (foldl push init cs)"
  using rep_foldl [OF rep_init, of cs] by simp

end

section \<open>Systems driven by events\<close>

text \<open>
  A component as a machine: an event either cannot happen (\<open>None\<close>), panics (\<open>Some (Inl p)\<close>) or
  leads to a new state. A run stops at the first panic.
\<close>

fun run_events :: "('e \<Rightarrow> 's \<Rightarrow> ('p + 's) option) \<Rightarrow> 'e list \<Rightarrow> 's \<Rightarrow> ('p + 's) option" where
  "run_events exec [] s = Some (Inr s)"
| "run_events exec (e # es) s =
     (case exec e s of
        None \<Rightarrow> None
      | Some (Inl p) \<Rightarrow> Some (Inl p)
      | Some (Inr t) \<Rightarrow> run_events exec es t)"

lemma run_events_append:
  "run_events exec (es @ fs) s =
     (case run_events exec es s of
        None \<Rightarrow> None | Some (Inl p) \<Rightarrow> Some (Inl p) | Some (Inr t) \<Rightarrow> run_events exec fs t)"
  by (induction es arbitrary: s) (auto split: option.splits sum.splits)

lemma run_events_snocD:
  assumes "run_events exec (es @ [e]) s = Some (Inr t)"
  obtains u where "run_events exec es s = Some (Inr u)" "exec e u = Some (Inr t)"
  using assms by (auto simp: run_events_append split: option.splits sum.splits)

text \<open>
  The contract of such a component: an invariant every event keeps and under which no event panics.
  Whatever the events, a run then neither panics nor leaves the invariant.
\<close>

locale guarded_system =
  fixes exec :: "'e \<Rightarrow> 's \<Rightarrow> ('p + 's) option"
    and inv :: "'s \<Rightarrow> bool"
  assumes exec_inv: "inv s \<Longrightarrow> exec e s = Some (Inr t) \<Longrightarrow> inv t"
    and exec_safe: "inv s \<Longrightarrow> exec e s \<noteq> Some (Inl p)"
begin

lemma run_inv: "inv s \<Longrightarrow> run_events exec es s = Some (Inr t) \<Longrightarrow> inv t"
  by (induction es arbitrary: s) (auto split: option.splits sum.splits dest: exec_inv)

lemma run_safe: "inv s \<Longrightarrow> run_events exec es s \<noteq> Some (Inl p)"
  by (induction es arbitrary: s) (auto split: option.splits sum.splits dest: exec_inv exec_safe)

end

text \<open>A component whose operations always return: a function instead of a relation.\<close>

locale total_system =
  fixes step :: "'s \<Rightarrow> 'e \<Rightarrow> 's"
    and inv :: "'s \<Rightarrow> bool"
  assumes step_inv: "inv s \<Longrightarrow> inv (step s e)"
begin

lemma fold_inv: "inv s \<Longrightarrow> inv (foldl step s es)"
  by (induction es arbitrary: s) (auto intro: step_inv)

end

sublocale total_system \<subseteq> guarded_system "\<lambda>e s. Some (Inr (step s e))" inv
  by unfold_locales (auto intro: step_inv)

section \<open>Results\<close>

text \<open>\<open>Result::map\<close> and the \<open>?\<close> operator on the sum type that carries an error on its left.\<close>

definition bind_result :: "'e + 'a \<Rightarrow> ('a \<Rightarrow> 'e + 'b) \<Rightarrow> 'e + 'b" where
  "bind_result r f = (case r of Inl e \<Rightarrow> Inl e | Inr x \<Rightarrow> f x)"

definition map_err :: "('e \<Rightarrow> 'f) \<Rightarrow> 'e + 'a \<Rightarrow> 'f + 'a" where
  "map_err g r = (case r of Inl e \<Rightarrow> Inl (g e) | Inr x \<Rightarrow> Inr x)"

lemma bind_result_simps [simp]:
  "bind_result (Inl e) f = Inl e"
  "bind_result (Inr x) f = f x"
  by (simp_all add: bind_result_def)

lemma map_err_simps [simp]:
  "map_err g (Inl e) = Inl (g e)"
  "map_err g (Inr x) = Inr x"
  by (simp_all add: map_err_def)

lemma bind_result_Inr: "bind_result r f = Inr y \<longleftrightarrow> (\<exists>x. r = Inr x \<and> f x = Inr y)"
  by (cases r) simp_all

lemma map_err_Inr [simp]: "map_err g r = Inr y \<longleftrightarrow> r = Inr y"
  by (cases r) simp_all

end
