(* ===== verification/Strings.thy ===== *)
theory Strings
  imports Prelude
begin

text \<open>
  The operations of \<open>str\<close>, \<open>String\<close> and byte slices the crates use. A Rust string is its sequence
  of UTF-8 bytes, a value of type \<open>string\<close>; a byte slice has the same type. Unicode white space is
  spelled out in its UTF-8 encoding, and \<open>String::from_utf8_lossy\<close> replaces every maximal invalid
  subpart by U+FFFD, as the standard library documents it.
\<close>

section \<open>Prefixes, suffixes, substrings\<close>

definition byte :: "char \<Rightarrow> nat" where
  "byte c = of_char c"

definition starts_with :: "string \<Rightarrow> string \<Rightarrow> bool" where
  "starts_with s p \<longleftrightarrow> take (length p) s = p"

definition ends_with :: "string \<Rightarrow> string \<Rightarrow> bool" where
  "ends_with s p \<longleftrightarrow> drop (length s - length p) s = p"

fun contains_str :: "string \<Rightarrow> string \<Rightarrow> bool" where
  "contains_str [] p \<longleftrightarrow> p = []"
| "contains_str (c # s) p \<longleftrightarrow> starts_with (c # s) p \<or> contains_str s p"

definition strip_prefix :: "string \<Rightarrow> string \<Rightarrow> string option" where
  "strip_prefix p s = (if starts_with s p then Some (drop (length p) s) else None)"

lemma starts_with_append [simp]: "starts_with (p @ s) p"
  by (simp add: starts_with_def)

lemma starts_with_iff: "starts_with s p \<longleftrightarrow> (\<exists>r. s = p @ r)"
proof
  assume "starts_with s p"
  then have "s = p @ drop (length p) s"
    by (metis append_take_drop_id starts_with_def)
  then show "\<exists>r. s = p @ r" ..
qed auto

lemma ends_with_append [simp]: "ends_with (s @ p) p"
  by (simp add: ends_with_def)

lemma strip_prefix_Some: "strip_prefix p s = Some r \<longleftrightarrow> s = p @ r"
  by (auto simp: strip_prefix_def starts_with_iff)

text \<open>
  \<open>split_once\<close> on a one-byte pattern, and \<open>split\<close>: the fields between the separators, so that a
  text without separator is one field.
\<close>

fun split_once :: "char \<Rightarrow> string \<Rightarrow> (string \<times> string) option" where
  "split_once c [] = None"
| "split_once c (x # xs) =
     (if x = c then Some ([], xs)
      else map_option (\<lambda>(a, b). (x # a, b)) (split_once c xs))"

fun split_on :: "char \<Rightarrow> string \<Rightarrow> string list" where
  "split_on c [] = [[]]"
| "split_on c (x # xs) =
     (if x = c then [] # split_on c xs
      else (case split_on c xs of [] \<Rightarrow> [[x]] | f # fs \<Rightarrow> (x # f) # fs))"

lemma split_once_Some: "split_once c s = Some (a, b) \<longleftrightarrow> s = a @ c # b \<and> c \<notin> set a"
proof (induction s arbitrary: a)
  case (Cons x s)
  then show ?case by (cases a) auto
qed simp

lemma split_on_ne [simp]: "split_on c s \<noteq> []"
  by (induction s) (auto split: list.splits)

section \<open>Case\<close>

definition to_ascii_lower :: "char \<Rightarrow> char" where
  "to_ascii_lower c = (if 65 \<le> byte c \<and> byte c \<le> 90 then char_of (byte c + 32) else c)"

definition to_ascii_lowercase :: "string \<Rightarrow> string" where
  "to_ascii_lowercase s = map to_ascii_lower s"

definition eq_ignore_ascii_case :: "string \<Rightarrow> string \<Rightarrow> bool" where
  "eq_ignore_ascii_case a b \<longleftrightarrow> to_ascii_lowercase a = to_ascii_lowercase b"

text \<open>\<open>u8::is_ascii_whitespace\<close>: space, tab, line feed, form feed and carriage return.\<close>

definition is_ascii_whitespace :: "char \<Rightarrow> bool" where
  "is_ascii_whitespace c \<longleftrightarrow> byte c \<in> {32, 9, 10, 12, 13}"

section \<open>Trimming\<close>

text \<open>
  The length in bytes of the white-space scalar value a text starts with, \<open>0\<close> when it starts with
  none: U+0009 to U+000D, U+0020, U+0085, U+00A0, U+1680, U+2000 to U+200A, U+2028, U+2029, U+202F,
  U+205F and U+3000.
\<close>

fun ws_len :: "nat list \<Rightarrow> nat" where
  "ws_len (a # b # c # s) =
     (if a = 32 \<or> 9 \<le> a \<and> a \<le> 13 then 1
      else if a = 194 \<and> (b = 133 \<or> b = 160) then 2
      else if a = 225 \<and> b = 154 \<and> c = 128
              \<or> a = 226 \<and> b = 128 \<and> (128 \<le> c \<and> c \<le> 138 \<or> c = 168 \<or> c = 169 \<or> c = 175)
              \<or> a = 226 \<and> b = 129 \<and> c = 159
              \<or> a = 227 \<and> b = 128 \<and> c = 128 then 3
      else 0)"
| "ws_len [a, b] =
     (if a = 32 \<or> 9 \<le> a \<and> a \<le> 13 then 1
      else if a = 194 \<and> (b = 133 \<or> b = 160) then 2 else 0)"
| "ws_len [a] = (if a = 32 \<or> 9 \<le> a \<and> a \<le> 13 then 1 else 0)"
| "ws_len [] = 0"

text \<open>The same for the white-space scalar a text ends with, on the reversed text.\<close>

fun ws_len_rev :: "nat list \<Rightarrow> nat" where
  "ws_len_rev (a # b # c # s) =
     (if ws_len [a] = 1 then 1 else if ws_len [b, a] = 2 then 2
      else if ws_len [c, b, a] = 3 then 3 else 0)"
| "ws_len_rev [a, b] = (if ws_len [a] = 1 then 1 else if ws_len [b, a] = 2 then 2 else 0)"
| "ws_len_rev [a] = (if ws_len [a] = 1 then 1 else 0)"
| "ws_len_rev [] = 0"

text \<open>Dropping matches from the front for as long as there are any.\<close>

function drop_matches :: "(nat list \<Rightarrow> nat) \<Rightarrow> string \<Rightarrow> string" where
  "drop_matches len s =
     (if len (map byte s) = 0 \<or> s = [] then s
      else drop_matches len (drop (len (map byte s)) s))"
  by pat_completeness auto
termination
  by (relation "measure (length \<circ> snd)") auto

declare drop_matches.simps [simp del]

lemma drop_matches_code [simp]:
  "drop_matches len [] = []"
  "drop_matches len (c # s) =
     (if len (map byte (c # s)) = 0 then c # s
      else drop_matches len (drop (len (map byte (c # s)) - 1) s))"
  by (subst drop_matches.simps; simp add: drop_Cons')+

definition trim_start :: "string \<Rightarrow> string" where
  "trim_start s = drop_matches ws_len s"

definition trim_end :: "string \<Rightarrow> string" where
  "trim_end s = rev (drop_matches ws_len_rev (rev s))"

definition trim :: "string \<Rightarrow> string" where
  "trim s = trim_end (trim_start s)"

text \<open>\<open>trim_start_matches\<close> and \<open>trim_end_matches\<close> with a set of one-byte characters.\<close>

definition trim_start_matches :: "char set \<Rightarrow> string \<Rightarrow> string" where
  "trim_start_matches cs s = dropWhile (\<lambda>c. c \<in> cs) s"

definition trim_end_matches :: "char set \<Rightarrow> string \<Rightarrow> string" where
  "trim_end_matches cs s = rev (dropWhile (\<lambda>c. c \<in> cs) (rev s))"

lemma drop_matches_suffix: "\<exists>p. s = p @ drop_matches len s"
proof (induction len s rule: drop_matches.induct)
  case (1 len s)
  show ?case
  proof (cases "len (map byte s) = 0 \<or> s = []")
    case True
    then show ?thesis by (subst drop_matches.simps) auto
  next
    case False
    with 1 obtain p where "drop (len (map byte s)) s = p @ drop_matches len (drop (len (map byte s)) s)"
      by blast
    then have "s = (take (len (map byte s)) s @ p) @ drop_matches len (drop (len (map byte s)) s)"
      by (metis append.assoc append_take_drop_id)
    moreover have "drop_matches len s = drop_matches len (drop (len (map byte s)) s)"
      using False by (subst drop_matches.simps) simp
    ultimately show ?thesis by metis
  qed
qed

lemma drop_matches_done: "drop_matches len s = [] \<or> len (map byte (drop_matches len s)) = 0"
proof (induction len s rule: drop_matches.induct)
  case (1 len s)
  then show ?case by (subst (1 2) drop_matches.simps) auto
qed

section \<open>UTF-8\<close>

definition utf8_cont :: "nat \<Rightarrow> bool" where
  "utf8_cont b \<longleftrightarrow> 128 \<le> b \<and> b < 192"

text \<open>\<open>str::chars().count()\<close>: the bytes that are not continuation bytes.\<close>

definition chars_count :: "string \<Rightarrow> nat" where
  "chars_count s = length (filter (\<lambda>c. \<not> utf8_cont (byte c)) s)"

text \<open>
  One step of the decoder: whether the text starts with a scalar value, and the length of that
  scalar value or of the maximal invalid subpart it starts with. A byte past the end reads as 0.
\<close>

definition at_or_0 :: "nat list \<Rightarrow> nat \<Rightarrow> nat" where
  "at_or_0 bs i = (if i < length bs then bs ! i else 0)"

definition utf8_step :: "nat list \<Rightarrow> bool \<times> nat" where
  "utf8_step bs =
     (let a = at_or_0 bs 0; b = at_or_0 bs 1; c = at_or_0 bs 2; d = at_or_0 bs 3
      in if a < 128 then (True, 1)
         else if 194 \<le> a \<and> a \<le> 223 then (if utf8_cont b then (True, 2) else (False, 1))
         else if 224 \<le> a \<and> a \<le> 239 then
           (if (a = 224 \<and> 160 \<le> b \<and> b \<le> 191) \<or> (225 \<le> a \<and> a \<le> 236 \<and> utf8_cont b)
               \<or> (a = 237 \<and> 128 \<le> b \<and> b \<le> 159) \<or> (238 \<le> a \<and> utf8_cont b)
            then (if utf8_cont c then (True, 3) else (False, 2)) else (False, 1))
         else if 240 \<le> a \<and> a \<le> 244 then
           (if (a = 240 \<and> 144 \<le> b \<and> b \<le> 191) \<or> (241 \<le> a \<and> a \<le> 243 \<and> utf8_cont b)
               \<or> (a = 244 \<and> 128 \<le> b \<and> b \<le> 143)
            then (if utf8_cont c then (if utf8_cont d then (True, 4) else (False, 3)) else (False, 2))
            else (False, 1))
         else (False, 1))"

definition replacement_character :: string where
  "replacement_character = [CHR 0xEF, CHR 0xBF, CHR 0xBD]"

lemma utf8_step_pos: "0 < snd (utf8_step bs)"
  by (simp add: utf8_step_def Let_def)

function from_utf8_lossy :: "string \<Rightarrow> string" where
  "from_utf8_lossy s =
     (if s = [] then []
      else (case utf8_step (map byte s) of (valid, n) \<Rightarrow>
              (if valid then take n s else replacement_character) @ from_utf8_lossy (drop n s)))"
  by pat_completeness auto
termination
proof (relation "measure length", goal_cases)
  case (2 s valid n)
  then have "0 < n" using utf8_step_pos [of "map byte s"] by (metis snd_conv)
  with 2 show ?case by simp
qed simp

declare from_utf8_lossy.simps [simp del]

text \<open>Pure ASCII text decodes to itself.\<close>

lemma from_utf8_lossy_ascii:
  "\<forall>c \<in> set s. byte c < 128 \<Longrightarrow> from_utf8_lossy s = s"
proof (induction s)
  case Nil
  show ?case by (subst from_utf8_lossy.simps) simp
next
  case (Cons c s)
  have "utf8_step (map byte (c # s)) = (True, 1)"
    using Cons.prems by (simp add: utf8_step_def Let_def at_or_0_def)
  with Cons show ?case by (subst from_utf8_lossy.simps) simp
qed

section \<open>Numbers as text\<close>

text \<open>\<open>Display\<close> of an integer: decimal digits, most significant first, after a minus sign if negative.\<close>

function show_nat :: "nat \<Rightarrow> string" where
  "show_nat n = (if n < 10 then [char_of (48 + n)] else show_nat (n div 10) @ [char_of (48 + n mod 10)])"
  by auto
termination
  by (relation "measure id") auto

declare show_nat.simps [simp del]

definition show_int :: "int \<Rightarrow> string" where
  "show_int i = (if i < 0 then CHR ''-'' # show_nat (nat (- i)) else show_nat (nat i))"

text \<open>\<open>str::parse::<u64>\<close> and its kin accept what \<open>Display\<close> prints: reading the digits gives the number back.\<close>

definition is_ascii_digit :: "char \<Rightarrow> bool" where
  "is_ascii_digit c \<longleftrightarrow> 48 \<le> byte c \<and> byte c \<le> 57"

definition digits_value :: "string \<Rightarrow> nat" where
  "digits_value s = foldl (\<lambda>n c. 10 * n + (byte c - 48)) 0 s"

lemma byte_digit [simp]: "d < 10 \<Longrightarrow> byte (char_of (48 + d)) = 48 + d"
  by (simp add: byte_def)

lemma digits_value_show_nat: "digits_value (show_nat n) = n"
proof (induction n rule: show_nat.induct)
  case (1 n)
  show ?case
  proof (cases "n < 10")
    case True
    then show ?thesis by (subst show_nat.simps) (simp add: digits_value_def)
  next
    case False
    then have "digits_value (show_nat n) = 10 * digits_value (show_nat (n div 10)) + n mod 10"
      by (subst show_nat.simps) (simp add: digits_value_def)
    with 1 [OF False] show ?thesis by simp
  qed
qed

lemma show_nat_digits: "\<forall>c \<in> set (show_nat n). is_ascii_digit c"
proof (induction n rule: show_nat.induct)
  case (1 n)
  then show ?case by (subst show_nat.simps) (auto simp: is_ascii_digit_def)
qed

lemma show_nat_not_Nil: "show_nat n \<noteq> []"
  by (subst show_nat.simps) simp

lemma show_int_inj: "show_int a = show_int b \<longleftrightarrow> a = b"
proof
  assume eq: "show_int a = show_int b"
  have minus: "show_nat n \<noteq> CHR ''-'' # s" for n s
    using show_nat_digits [of n] by (auto simp: is_ascii_digit_def byte_def)
  show "a = b"
  proof (cases "a < 0"; cases "b < 0")
    assume "a < 0" "b < 0"
    with eq have "show_nat (nat (- a)) = show_nat (nat (- b))" by (simp add: show_int_def)
    then have "nat (- a) = nat (- b)" by (metis digits_value_show_nat)
    with \<open>a < 0\<close> \<open>b < 0\<close> show ?thesis by simp
  next
    assume "\<not> a < 0" "\<not> b < 0"
    with eq have "show_nat (nat a) = show_nat (nat b)" by (simp add: show_int_def)
    then have "nat a = nat b" by (metis digits_value_show_nat)
    with \<open>\<not> a < 0\<close> \<open>\<not> b < 0\<close> show ?thesis by simp
  qed (use eq minus minus [symmetric] in \<open>simp_all add: show_int_def\<close>)
qed simp

end
