(* ===== verification/F64.thy ===== *)
theory F64
  imports Prelude Complex_Main "HOL-Library.Log_Nat"
begin

text \<open>
  The \<open>f64\<close> arithmetic the crates use, as IEEE 754 binary64 with the default rounding: a value is a
  NaN, an infinity or a rational, and every operation on finite values computes the exact rational
  result and rounds it to the nearest representable value, ties to even, overflowing to an infinity.
  The sign of a zero is not represented: no operation of the source tells the two zeros apart.
\<close>

section \<open>Rounding\<close>

datatype f64 = NaN | Inf bool \<comment> \<open>\<open>Inf True\<close> is negative\<close> | Fin rat

definition ilog2 :: "rat \<Rightarrow> int" where
  "ilog2 x = (let (a, b) = quotient_of x; e = bitlen a - bitlen b in if 2 powi e \<le> x then e else e - 1)"

text \<open>Round to the nearest integer, ties to even.\<close>

definition rne :: "rat \<Rightarrow> int" where
  "rne x = (let n = \<lfloor>x\<rfloor>; d = x - of_int n in
     if d < 1 / 2 then n else if 1 / 2 < d then n + 1 else if even n then n else n + 1)"

text \<open>The distance of neighbouring values around a positive \<open>x\<close>: 53 bits, subnormals below.\<close>

definition quantum :: "rat \<Rightarrow> rat" where
  "quantum x = 2 powi (max (ilog2 x - 52) (-1074))"

definition round_abs :: "rat \<Rightarrow> rat" where
  "round_abs x = (if x = 0 then 0 else of_int (rne (x / quantum x)) * quantum x)"

definition round64 :: "rat \<Rightarrow> f64" where
  "round64 x = (let m = round_abs \<bar>x\<bar> in
     if 2 powi 1024 \<le> m then Inf (x < 0) else Fin (if x < 0 then - m else m))"

section \<open>Operations\<close>

definition is_finite :: "f64 \<Rightarrow> bool" where
  "is_finite v = (case v of Fin _ \<Rightarrow> True | _ \<Rightarrow> False)"

fun f_neg :: "f64 \<Rightarrow> bool" where
  "f_neg NaN = False"
| "f_neg (Inf s) = s"
| "f_neg (Fin x) = (x < 0)"

fun f_lt :: "f64 \<Rightarrow> f64 \<Rightarrow> bool" where
  "f_lt (Fin x) (Fin y) = (x < y)"
| "f_lt (Inf s) (Fin y) = s"
| "f_lt (Fin x) (Inf s) = (\<not> s)"
| "f_lt (Inf s) (Inf t) = (s \<and> \<not> t)"
| "f_lt _ _ = False"

fun f_eq :: "f64 \<Rightarrow> f64 \<Rightarrow> bool" where
  "f_eq (Fin x) (Fin y) = (x = y)"
| "f_eq (Inf s) (Inf t) = (s = t)"
| "f_eq _ _ = False"

definition f_le :: "f64 \<Rightarrow> f64 \<Rightarrow> bool" where
  "f_le a b \<longleftrightarrow> f_lt a b \<or> f_eq a b"

fun f_add :: "f64 \<Rightarrow> f64 \<Rightarrow> f64" where
  "f_add (Fin x) (Fin y) = round64 (x + y)"
| "f_add (Inf s) (Fin y) = Inf s"
| "f_add (Fin x) (Inf s) = Inf s"
| "f_add (Inf s) (Inf t) = (if s = t then Inf s else NaN)"
| "f_add _ _ = NaN"

fun f_mul :: "f64 \<Rightarrow> f64 \<Rightarrow> f64" where
  "f_mul (Fin x) (Fin y) = round64 (x * y)"
| "f_mul (Inf s) (Fin y) = (if y = 0 then NaN else Inf (s \<noteq> (y < 0)))"
| "f_mul (Fin x) (Inf s) = (if x = 0 then NaN else Inf (s \<noteq> (x < 0)))"
| "f_mul (Inf s) (Inf t) = Inf (s \<noteq> t)"
| "f_mul _ _ = NaN"

fun f_div :: "f64 \<Rightarrow> f64 \<Rightarrow> f64" where
  "f_div (Fin x) (Fin y) = (if y = 0 then (if x = 0 then NaN else Inf (x < 0)) else round64 (x / y))"
| "f_div (Inf s) (Fin y) = Inf (s \<noteq> (y < 0))"
| "f_div (Fin x) (Inf s) = Fin 0"
| "f_div _ _ = NaN"

text \<open>\<open>n as f64\<close>, \<open>f64::ceil\<close> and the saturating \<open>x as u32\<close>.\<close>

definition f_of_int :: "int \<Rightarrow> f64" where
  "f_of_int n = round64 (of_int n)"

fun f_ceil :: "f64 \<Rightarrow> f64" where
  "f_ceil (Fin x) = Fin (of_int \<lceil>x\<rceil>)"
| "f_ceil v = v"

fun f_as_u32 :: "f64 \<Rightarrow> 32 word" where
  "f_as_u32 NaN = 0"
| "f_as_u32 (Inf s) = (if s then 0 else -1)"
| "f_as_u32 (Fin x) = (if x < 0 then 0 else if 4294967295 \<le> x then -1 else word_of_int \<lfloor>x\<rfloor>)"

section \<open>Rounding is monotone and exact on representable values\<close>

lemma quotient_of_pos: "0 < x \<Longrightarrow> quotient_of x = (a, b) \<Longrightarrow> 0 < a \<and> 0 < b \<and> x = of_int a / of_int b"
  using quotient_of_div [of x a b] quotient_of_denom_pos [of x a b]
  by (auto simp: zero_less_divide_iff)

lemma powi_2_pos [simp]: "0 < (2::rat) powi e"
  by (simp add: zero_less_power_int)

lemma powi_2_le_iff: "(2::rat) powi e \<le> 2 powi f \<longleftrightarrow> e \<le> f"
  using power_int_increasing [of e f "2::rat"] power_int_strict_increasing [of f e "2::rat"]
  by (meson not_le one_le_numeral one_less_numeral_iff semiring_norm(76))

lemma bitlen_bounds_rat:
  assumes "0 < n"
  shows "2 powi (bitlen n - 1) \<le> (of_int n :: rat)" and "(of_int n :: rat) < 2 powi bitlen n"
proof -
  have l: "1 \<le> bitlen n" using assms bitlen_eq_zero_iff [of n] bitlen_nonneg [of n] by linarith
  from bitlen_bounds [OF assms]
  have "of_int (2 ^ nat (bitlen n - 1)) \<le> (of_int n :: rat)" "(of_int n :: rat) < of_int (2 ^ nat (bitlen n))"
    by (simp_all only: of_int_le_iff of_int_less_iff)
  then show "2 powi (bitlen n - 1) \<le> (of_int n :: rat)" "(of_int n :: rat) < 2 powi bitlen n"
    using l by (simp_all add: power_int_def)
qed

lemma ilog2_bounds:
  assumes "0 < x"
  shows "2 powi ilog2 x \<le> x" and "x < 2 powi (ilog2 x + 1)"
proof -
  obtain a b where q: "quotient_of x = (a, b)" by (cases "quotient_of x")
  from quotient_of_pos [OF assms q] have a: "0 < a" and b: "0 < b" and x: "x = of_int a / of_int b" by auto
  let ?e = "bitlen a - bitlen b"
  note ba = bitlen_bounds_rat [OF a] and bb = bitlen_bounds_rat [OF b]
  have b': "0 < (of_int b :: rat)" using b by simp
  have "2 powi (?e - 1) = 2 powi (bitlen a - 1) / (2 powi bitlen b :: rat)"
    by (simp add: power_int_diff [symmetric] algebra_simps)
  also have "\<dots> \<le> of_int a / of_int b"
    using a ba(1) bb(2) b' by (intro frac_le) auto
  finally have lo: "2 powi (?e - 1) \<le> x" using x by simp
  have "x < 2 powi bitlen a / of_int b"
    unfolding x using ba(2) b' by (rule divide_strict_right_mono)
  also have "\<dots> \<le> 2 powi bitlen a / (2 powi (bitlen b - 1))"
    using bb(1) b' by (intro divide_left_mono) auto
  also have "\<dots> = 2 powi (?e + 1)"
    by (simp add: power_int_diff [symmetric] algebra_simps)
  finally have hi: "x < 2 powi (?e + 1)" .
  show "2 powi ilog2 x \<le> x" "x < 2 powi (ilog2 x + 1)"
    using lo hi by (auto simp: ilog2_def q Let_def not_le)
qed

lemma ilog2_mono: "0 < x \<Longrightarrow> x \<le> y \<Longrightarrow> ilog2 x \<le> ilog2 y"
proof -
  assume "0 < x" "x \<le> y"
  with ilog2_bounds [of x] ilog2_bounds [of y] have "(2::rat) powi ilog2 x < 2 powi (ilog2 y + 1)" by linarith
  then have "\<not> ilog2 y + 1 \<le> ilog2 x" by (simp add: powi_2_le_iff [symmetric] not_le)
  then show ?thesis by simp
qed

lemma rne_mono:
  assumes "x \<le> y"
  shows "rne x \<le> rne y"
proof (cases "\<lfloor>x\<rfloor> = \<lfloor>y\<rfloor>")
  case True
  with assms show ?thesis by (auto simp: rne_def Let_def)
next
  case False
  with assms have "\<lfloor>x\<rfloor> + 1 \<le> \<lfloor>y\<rfloor>" using floor_mono [OF assms] by simp
  then show ?thesis by (auto simp: rne_def Let_def)
qed

lemma rne_of_int [simp]: "rne (of_int n) = n"
  by (simp add: rne_def)

lemma quantum_pos [simp]: "0 < quantum x"
  by (simp add: quantum_def)

text \<open>A multiple of the quantum of \<open>x\<close> bounds the rounded value on the side it bounds \<open>x\<close>.\<close>

lemma round_abs_le_grid:
  assumes "g = of_int n * quantum x" "x \<le> g" "0 < x"
  shows "round_abs x \<le> g"
proof -
  have "x / quantum x \<le> of_int n" using assms(1,2) by (simp add: pos_divide_le_eq)
  from rne_mono [OF this] have "of_int (rne (x / quantum x)) \<le> (of_int n :: rat)" by simp
  then show ?thesis using assms(1,3) by (simp add: round_abs_def mult_right_mono less_imp_le)
qed

lemma round_abs_ge_grid:
  assumes "g = of_int n * quantum x" "g \<le> x" "0 < x"
  shows "g \<le> round_abs x"
proof -
  have "of_int n \<le> x / quantum x" using assms(1,2) by (simp add: pos_le_divide_eq)
  from rne_mono [OF this] have "(of_int n :: rat) \<le> of_int (rne (x / quantum x))" by simp
  then show ?thesis using assms(1,3) by (simp add: round_abs_def mult_right_mono less_imp_le)
qed

lemma powi_grid:
  assumes "f \<le> e"
  shows "\<exists>n. 2 powi e = of_int n * (2::rat) powi f"
proof -
  have "2 powi e = 2 powi (e - f) * (2::rat) powi f" by (simp add: power_int_add [symmetric])
  also have "2 powi (e - f) = (of_int (2 ^ nat (e - f)) :: rat)" using assms by (simp add: power_int_def)
  finally show ?thesis by blast
qed

lemma round_abs_mono:
  assumes "0 \<le> x" "x \<le> y"
  shows "round_abs x \<le> round_abs y"
proof (cases "x = 0")
  case True
  show ?thesis
  proof (cases "y = 0")
    case False
    with assms True have "0 < y" by simp
    with round_abs_ge_grid [of 0 0 y] True show ?thesis by (simp add: round_abs_def)
  qed (use True in simp)
next
  case False
  with assms have x: "0 < x" and y: "0 < y" by simp_all
  let ?ex = "max (ilog2 x - 52) (-1074)" and ?ey = "max (ilog2 y - 52) (-1074)"
  show ?thesis
  proof (cases "?ex = ?ey")
    case True
    then have "quantum x = quantum y" by (simp add: quantum_def)
    moreover from this have "rne (x / quantum x) \<le> rne (y / quantum y)"
      using assms(2) by (intro rne_mono) (simp add: divide_right_mono less_imp_le)
    ultimately show ?thesis using x y by (simp add: round_abs_def mult_right_mono)
  next
    case False
    with ilog2_mono [OF x assms(2)] have lt: "ilog2 x < ilog2 y" and ey: "?ey = ilog2 y - 52" by auto
    from lt ey have "?ex \<le> ilog2 y" "?ey \<le> ilog2 y" by auto
    then obtain m n where m: "2 powi ilog2 y = of_int m * quantum x" and n: "2 powi ilog2 y = of_int n * quantum y"
      using powi_grid unfolding quantum_def by metis
    have "x < 2 powi (ilog2 x + 1)" by (rule ilog2_bounds [OF x])
    also have "\<dots> \<le> (2::rat) powi ilog2 y" using lt by (simp add: powi_2_le_iff)
    finally have "round_abs x \<le> 2 powi ilog2 y" using round_abs_le_grid [OF m _ x] by simp
    also have "\<dots> \<le> round_abs y" by (rule round_abs_ge_grid [OF n ilog2_bounds(1) [OF y] y])
    finally show ?thesis .
  qed
qed

lemma round_abs_nonneg: "0 \<le> x \<Longrightarrow> 0 \<le> round_abs x"
  using round_abs_mono [of 0 x] by (simp add: round_abs_def)

text \<open>The representable values: an integer of at most 53 bits scaled by a power of two.\<close>

lemma round_abs_exact:
  assumes "0 \<le> k" "k < 2 ^ 53" "-1074 \<le> e"
  shows "round_abs (of_int k * 2 powi e) = of_int k * 2 powi e"
proof (cases "k = 0")
  case False
  let ?x = "of_int k * (2::rat) powi e"
  have x: "0 < ?x" using assms(1) False by simp
  have k: "(of_int k :: rat) < 2 powi 53" proof -
    have "(of_int k :: rat) < of_int (2 ^ 53)" using assms(2) by (simp only: of_int_less_iff)
    then show ?thesis by simp
  qed
  have "2 powi ilog2 ?x \<le> ?x" by (rule ilog2_bounds [OF x])
  also have "\<dots> < 2 powi 53 * 2 powi e" using k by (intro mult_strict_right_mono) auto
  also have "\<dots> = 2 powi (53 + e)" by (simp add: power_int_add)
  finally have "\<not> 53 + e \<le> ilog2 ?x" by (simp add: powi_2_le_iff [symmetric] not_le)
  then have "max (ilog2 ?x - 52) (-1074) \<le> e" using assms(3) by simp
  then obtain n where "2 powi e = of_int n * quantum ?x" using powi_grid unfolding quantum_def by metis
  then have g: "?x = of_int (k * n) * quantum ?x" by simp
  from round_abs_le_grid [OF g _ x] round_abs_ge_grid [OF g _ x] show ?thesis by simp
qed (simp add: round_abs_def)

lemma f_le_simps [simp]:
  "f_le (Fin x) (Fin y) \<longleftrightarrow> x \<le> y"
  "f_le (Fin x) (Inf s) \<longleftrightarrow> \<not> s"
  "f_le (Inf s) (Fin y) \<longleftrightarrow> s"
  "f_le (Inf s) (Inf t) \<longleftrightarrow> (s \<or> \<not> t)"
  "\<not> f_le NaN v" "\<not> f_le v NaN"
  by (auto simp: f_le_def)

lemma round64_nonneg: "0 \<le> x \<Longrightarrow> round64 x = (if 2 powi 1024 \<le> round_abs x then Inf False else Fin (round_abs x))"
  by (simp add: round64_def)

text \<open>What the clients of the arithmetic rely on, whatever the rounding function.\<close>

locale rounding =
  fixes rnd :: "rat \<Rightarrow> f64" and exact :: "rat \<Rightarrow> bool"
  assumes rnd_mono: "x \<le> y \<Longrightarrow> f_le (rnd x) (rnd y)"
    and rnd_exact: "exact x \<Longrightarrow> rnd x = Fin x"
begin

lemma rnd_ge_exact: "exact g \<Longrightarrow> g \<le> x \<Longrightarrow> f_le (Fin g) (rnd x)"
  using rnd_mono [of g x] by (simp add: rnd_exact)

lemma rnd_le_exact: "exact g \<Longrightarrow> x \<le> g \<Longrightarrow> f_le (rnd x) (Fin g)"
  using rnd_mono [of x g] by (simp add: rnd_exact)

lemma rnd_not_NaN: "rnd x \<noteq> NaN"
  using rnd_mono [of x x] by auto

end

definition representable :: "rat \<Rightarrow> bool" where
  "representable x \<longleftrightarrow> (\<exists>k e. x = of_int k * 2 powi e \<and> \<bar>k\<bar> < 2 ^ 53 \<and> -1074 \<le> e \<and> e \<le> 971)"

lemma round_abs_representable:
  assumes "representable x" "0 \<le> x"
  shows "round_abs x = x" and "x < 2 powi 1024"
proof -
  from assms(1) obtain k e where x: "x = of_int k * 2 powi e" and k: "\<bar>k\<bar> < 2 ^ 53"
    and e: "-1074 \<le> e" "e \<le> 971" unfolding representable_def by auto
  from assms(2) x have k0: "0 \<le> k" using powi_2_pos [of e] by (auto simp: zero_le_mult_iff)
  then show "round_abs x = x" using round_abs_exact [of k e] k e x by simp
  have "of_int k < (of_int (2 ^ 53) :: rat)" using k k0 by (simp only: of_int_less_iff)
  then have "x < 2 powi 53 * 2 powi e" unfolding x by (intro mult_strict_right_mono) simp_all
  also have "\<dots> = 2 powi (53 + e)" by (simp add: power_int_add)
  also have "\<dots> \<le> (2::rat) powi 1024" using e by (simp only: powi_2_le_iff)
  finally show "x < 2 powi 1024" .
qed

lemma representable_minus: "representable x \<Longrightarrow> representable (- x)"
proof -
  assume "representable x"
  then obtain k e where "x = of_int k * 2 powi e" "\<bar>k\<bar> < 2 ^ 53" "-1074 \<le> e" "e \<le> 971"
    unfolding representable_def by blast
  then have "- x = of_int (- k) * 2 powi e \<and> \<bar>- k\<bar> < 2 ^ 53 \<and> -1074 \<le> e \<and> e \<le> 971" by simp
  then show ?thesis unfolding representable_def by blast
qed

lemma round64_exact: "representable x \<Longrightarrow> round64 x = Fin x"
proof (cases "0 \<le> x")
  case True
  assume "representable x"
  from round_abs_representable [OF this True] True show ?thesis by (simp add: round64_nonneg not_le)
next
  case False
  assume "representable x"
  from round_abs_representable [OF representable_minus [OF this]] False show ?thesis
    by (simp add: round64_def Let_def not_le)
qed

lemma round64_mono: "x \<le> y \<Longrightarrow> f_le (round64 x) (round64 y)"
proof -
  assume le: "x \<le> y"
  consider "0 \<le> x" | "x < 0" "0 \<le> y" | "y < 0" using le by linarith
  then show ?thesis
  proof cases
    case 1
    with le round_abs_mono [of x y] show ?thesis by (auto simp: round64_def Let_def)
  next
    case 2
    then have "0 \<le> round_abs (- x)" "0 \<le> round_abs y" by (simp_all add: round_abs_nonneg)
    with 2 show ?thesis by (auto simp: round64_def Let_def)
  next
    case 3
    with le round_abs_mono [of "- y" "- x"] show ?thesis by (auto simp: round64_def Let_def)
  qed
qed

interpretation ieee: rounding round64 representable
  by unfold_locales (auto intro: round64_mono round64_exact)

lemma representable_int: "\<bar>n\<bar> < 2 ^ 53 \<Longrightarrow> representable (of_int n)"
  unfolding representable_def by (rule exI [of _ n], rule exI [of _ 0]) simp

lemma f_of_int_exact: "\<bar>n\<bar> < 2 ^ 53 \<Longrightarrow> f_of_int n = Fin (of_int n)"
  by (simp add: f_of_int_def round64_exact representable_int)

end
