(* ===== verification/Json.thy ===== *)
theory Json
  imports Strings F64
begin

text \<open>
  \<open>serde_json::Value\<close> as the crates use it. Numbers keep the three representations of the library
  (\<open>PosInt\<close> an unsigned, \<open>NegInt\<close> a negative signed 64-bit integer, \<open>Float\<close> a double); an object
  is a \<open>BTreeMap\<close>, here an association list that insertion keeps sorted by key. Parsing and printing
  belong to the library and are parameters wherever they occur.
\<close>

datatype number = PosInt "64 word" | NegInt "64 word" | Float f64

datatype json =
    Null
  | Bool bool
  | Number number
  | String string
  | Array "json list"
  | Object "(string \<times> json) list"

fun as_i64 :: "json \<Rightarrow> int option" where
  "as_i64 (Number (PosInt n)) = (if uint n \<le> i64_max then Some (uint n) else None)"
| "as_i64 (Number (NegInt n)) = Some (sint n)"
| "as_i64 _ = None"

fun as_str :: "json \<Rightarrow> string option" where
  "as_str (String s) = Some s"
| "as_str _ = None"

fun as_bool :: "json \<Rightarrow> bool option" where
  "as_bool (Bool b) = Some b"
| "as_bool _ = None"

fun as_array :: "json \<Rightarrow> json list option" where
  "as_array (Array a) = Some a"
| "as_array _ = None"

fun as_object :: "json \<Rightarrow> (string \<times> json) list option" where
  "as_object (Object m) = Some m"
| "as_object _ = None"

definition is_null :: "json \<Rightarrow> bool" where
  "is_null v \<longleftrightarrow> v = Null"

text \<open>\<open>Value::get\<close> with a string index: \<open>None\<close> on anything but an object.\<close>

fun jget :: "string \<Rightarrow> json \<Rightarrow> json option" where
  "jget k (Object m) = map_of m k"
| "jget k _ = None"

text \<open>\<open>BTreeMap::insert\<close>: replaces the value of a key, or adds the key at its place in the order.\<close>

fun map_insert :: "string \<Rightarrow> 'v \<Rightarrow> (string \<times> 'v) list \<Rightarrow> (string \<times> 'v) list" where
  "map_insert k v [] = [(k, v)]"
| "map_insert k v ((k', v') # m) =
     (if k = k' then (k, v) # m
      else if k < k' then (k, v) # (k', v') # m
      else (k', v') # map_insert k v m)"

definition opt_filter :: "('a \<Rightarrow> bool) \<Rightarrow> 'a option \<Rightarrow> 'a option" where
  "opt_filter P x = (case x of Some y \<Rightarrow> if P y then Some y else None | None \<Rightarrow> None)"

definition or_else :: "'a option \<Rightarrow> 'a option \<Rightarrow> 'a option" where
  "or_else x y = (case x of Some z \<Rightarrow> Some z | None \<Rightarrow> y)"

definition unwrap_or :: "'a option \<Rightarrow> 'a \<Rightarrow> 'a" where
  "unwrap_or x d = (case x of Some z \<Rightarrow> z | None \<Rightarrow> d)"

lemma opt_simps [simp]:
  "opt_filter P None = None" "opt_filter P (Some x) = (if P x then Some x else None)"
  "or_else None y = y" "or_else (Some x) y = Some x"
  "unwrap_or None d = d" "unwrap_or (Some x) d = x"
  by (simp_all add: opt_filter_def or_else_def unwrap_or_def)

lemma opt_filter_Some: "opt_filter P x = Some y \<longleftrightarrow> x = Some y \<and> P y"
  by (cases x) auto

lemma map_of_map_insert [simp]: "map_of (map_insert k v m) = (map_of m)(k \<mapsto> v)"
proof (induction m)
  case (Cons p m)
  then show ?case by (cases p) auto
qed simp

lemma keys_map_insert: "fst ` set (map_insert k v m) = insert k (fst ` set m)"
proof (induction m)
  case (Cons p m)
  then show ?case by (cases p) auto
qed simp

text \<open>An object's keys are strictly increasing, and insertion keeps them so.\<close>

definition sorted_map :: "(string \<times> 'v) list \<Rightarrow> bool" where
  "sorted_map m \<longleftrightarrow> sorted_wrt (<) (map fst m)"

lemma sorted_map_Nil [simp]: "sorted_map []"
  by (simp add: sorted_map_def)

lemma sorted_map_Cons: "sorted_map ((k, v) # m) \<longleftrightarrow> (\<forall>k' \<in> fst ` set m. k < k') \<and> sorted_map m"
  by (auto simp: sorted_map_def)

lemma sorted_map_insert: "sorted_map m \<Longrightarrow> sorted_map (map_insert k v m)"
proof (induction m)
  case Nil
  show ?case by (simp add: sorted_map_def)
next
  case (Cons p m)
  obtain k' v' where p: "p = (k', v')" by (cases p)
  from Cons.prems have le: "\<forall>k'' \<in> fst ` set m. k' < k''" and sm: "sorted_map m"
    by (simp_all add: p sorted_map_Cons)
  consider "k = k'" | "k < k'" | "k' < k" by (metis linorder_cases)
  then show ?case
  proof cases
    case 1
    with Cons.prems show ?thesis by (simp add: p sorted_map_Cons)
  next
    case 2
    with Cons.prems le show ?thesis by (auto simp: p sorted_map_Cons)
  next
    case 3
    then have "\<not> k < k'" "k \<noteq> k'" by auto
    with 3 le Cons.IH [OF sm] show ?thesis by (simp add: p sorted_map_Cons keys_map_insert)
  qed
qed

lemma as_i64_range: "as_i64 v = Some n \<Longrightarrow> in_i64 n"
proof (induction v rule: as_i64.induct)
  case (1 w)
  then show ?case by (simp add: machine_int split: if_splits)
       (use uint_ge_0 [of w] in linarith)
next
  case (2 w)
  then have n: "n = sint w" by simp
  have "- (2 ^ 63) \<le> sint w" "sint w < 2 ^ 63"
    using sint_greater_eq [of w] sint_lt [of w] by simp_all
  then show ?case unfolding n by (simp add: machine_int)
qed simp_all

end
