(* ===== verification/Provider.thy ===== *)
theory Provider
  imports Json
begin

text \<open>
  The provider dialects (\<open>crates/twl-provider/src/lib.rs\<close>): kinds, authentication headers, listing
  endpoints, and the normalization of the model listings of the upstreams.
\<close>

section \<open>Kinds\<close>

datatype provider_kind = LlamaCpp | Ollama | LmStudio | DeepSeek | OpenRouter | Vllm

datatype model_kind = Embedding

datatype provider_error = ParseError | MissingField string | WrongType string

record model_entry =
  me_id :: string
  me_raw :: json

fun model_kind_as_str :: "model_kind \<Rightarrow> string" where
  "model_kind_as_str Embedding = ''embedding''"

fun provider_name :: "provider_kind \<Rightarrow> string" where
  "provider_name LlamaCpp = ''llamacpp''"
| "provider_name Ollama = ''ollama''"
| "provider_name LmStudio = ''lmstudio''"
| "provider_name DeepSeek = ''deepseek''"
| "provider_name OpenRouter = ''openrouter''"
| "provider_name Vllm = ''vllm''"

definition auth_headers :: "string option \<Rightarrow> (string \<times> string) list" where
  "auth_headers api_key =
     (case api_key of
        Some key \<Rightarrow> if key \<noteq> [] then [(''authorization'', ''Bearer '' @ key)] else []
      | None \<Rightarrow> [])"

fun models_endpoint :: "provider_kind \<Rightarrow> string" where
  "models_endpoint LlamaCpp = ''/v1/models''"
| "models_endpoint Ollama = ''/api/tags''"
| "models_endpoint LmStudio = ''/v1/models''"
| "models_endpoint DeepSeek = ''/models''"
| "models_endpoint OpenRouter = ''/v1/models''"
| "models_endpoint Vllm = ''/v1/models''"

section \<open>Model kinds\<close>

definition kind_from_str :: "string \<Rightarrow> model_kind option" where
  "kind_from_str s = (if s = ''embedding'' \<or> s = ''embeddings'' then Some Embedding else None)"

text \<open>The text after the last arrow, if there is one: \<open>rsplit("->").next()\<close>.\<close>

fun after_last_arrow :: "string \<Rightarrow> string option" where
  "after_last_arrow (a # b # s) =
     (if a = CHR ''-'' \<and> b = CHR ''>''
      then Some (unwrap_or (after_last_arrow s) s) else after_last_arrow (b # s))"
| "after_last_arrow _ = None"

definition modality_tail :: "string \<Rightarrow> string" where
  "modality_tail m = unwrap_or (after_last_arrow m) m"

definition modality_strings :: "json \<Rightarrow> string list" where
  "modality_strings mods =
     (case as_array mods of
        Some arr \<Rightarrow> List.map_filter as_str arr
      | None \<Rightarrow> (case as_str mods of Some s \<Rightarrow> [s] | None \<Rightarrow> []))"

definition detect_model_kind :: "json \<Rightarrow> model_kind option" where
  "detect_model_kind source =
     or_else (Option.bind (Option.bind (jget ''type'' source) as_str) kind_from_str)
    (or_else (case Option.bind (jget ''capabilities'' source) as_array of
                Some caps \<Rightarrow> find_map (\<lambda>cap. Option.bind (as_str cap) kind_from_str) caps
              | None \<Rightarrow> None)
             (case jget ''architecture'' source of
                None \<Rightarrow> None
              | Some arch \<Rightarrow>
                  (case or_else (jget ''output_modalities'' arch) (jget ''modality'' arch) of
                     None \<Rightarrow> None
                   | Some mods \<Rightarrow> find_map (\<lambda>m. kind_from_str (modality_tail m)) (modality_strings mods))))"

section \<open>Listings\<close>

definition PRESERVED_FIELDS :: "string list" where
  "PRESERVED_FIELDS = [''aliases'', ''context_length'', ''created'', ''knowledge_cutoff'', ''reasoning'']"

definition copy_field :: "json \<Rightarrow> (string \<times> json) list \<Rightarrow> string \<Rightarrow> (string \<times> json) list" where
  "copy_field source m field =
     (case opt_filter (\<lambda>v. \<not> is_null v) (jget field source) of
        Some value \<Rightarrow> map_insert field value m
      | None \<Rightarrow> m)"

definition normalized_map :: "string \<Rightarrow> json \<Rightarrow> string \<Rightarrow> (string \<times> json) list" where
  "normalized_map id_text source owned_by =
     (let m1 = map_insert ''id'' (String id_text) [];
          m2 = map_insert ''object'' (String ''model'') m1;
          m3 = map_insert ''owned_by'' (String owned_by) m2;
          m4 = foldl (copy_field source) m3 PRESERVED_FIELDS;
          m5 = (if map_of m4 ''context_length'' = None
                then (case opt_filter (\<lambda>v. \<not> is_null v)
                             (Option.bind (jget ''meta'' source) (jget ''n_ctx'')) of
                        Some n_ctx \<Rightarrow> map_insert ''context_length'' n_ctx m4
                      | None \<Rightarrow> m4)
                else m4)
      in case detect_model_kind source of
           Some kind \<Rightarrow> map_insert ''type'' (String (model_kind_as_str kind)) m5
         | None \<Rightarrow> m5)"

definition normalized_model :: "string \<Rightarrow> json \<Rightarrow> string \<Rightarrow> json" where
  "normalized_model id_text source owned_by = Object (normalized_map id_text source owned_by)"

definition listing_entry :: "string \<Rightarrow> string option \<Rightarrow> json \<Rightarrow> model_entry option" where
  "listing_entry provider id_text item =
     (case id_text of
        Some s \<Rightarrow>
          if s \<noteq> []
          then (let owned_by = unwrap_or (Option.bind (jget ''owned_by'' item) as_str) provider
                in Some \<lparr>me_id = s, me_raw = normalized_model s item owned_by\<rparr>)
          else None
      | None \<Rightarrow> None)"

definition listing_array :: "string \<Rightarrow> json \<Rightarrow> provider_error + json list" where
  "listing_array field value =
     (case jget field value of
        None \<Rightarrow> Inl (MissingField field)
      | Some data \<Rightarrow> (case as_array data of None \<Rightarrow> Inl (WrongType field) | Some arr \<Rightarrow> Inr arr))"

definition parse_openai_list :: "provider_kind \<Rightarrow> json \<Rightarrow> provider_error + model_entry list" where
  "parse_openai_list self value =
     bind_result (listing_array ''data'' value) (\<lambda>arr.
       Inr (List.map_filter (\<lambda>item.
         listing_entry (provider_name self) (Option.bind (jget ''id'' item) as_str) item) arr))"

definition parse_ollama :: "provider_kind \<Rightarrow> json \<Rightarrow> provider_error + model_entry list" where
  "parse_ollama self value =
     bind_result (listing_array ''models'' value) (\<lambda>arr.
       Inr (List.map_filter (\<lambda>item.
         listing_entry (provider_name self)
           (or_else (Option.bind (jget ''name'' item) as_str) (Option.bind (jget ''model'' item) as_str))
           item) arr))"

definition parse_models ::
    "(string \<Rightarrow> json option) \<Rightarrow> provider_kind \<Rightarrow> string \<Rightarrow> provider_error + model_entry list" where
  "parse_models from_slice self body =
     (case from_slice body of
        None \<Rightarrow> Inl ParseError
      | Some value \<Rightarrow> (case self of Ollama \<Rightarrow> parse_ollama self value | _ \<Rightarrow> parse_openai_list self value))"

section \<open>Lemmas\<close>

definition listing_keys :: "string set" where
  "listing_keys = {''id'', ''object'', ''owned_by'', ''aliases'', ''context_length'', ''created'',
                   ''knowledge_cutoff'', ''reasoning'', ''type''}"

text \<open>The objects under construction: sorted, only listed keys, and the three fixed fields.\<close>

definition entry_map :: "string \<Rightarrow> string \<Rightarrow> (string \<times> json) list \<Rightarrow> bool" where
  "entry_map id_text owned_by m \<longleftrightarrow> sorted_map m \<and> fst ` set m \<subseteq> listing_keys \<and>
     map_of m ''id'' = Some (String id_text) \<and> map_of m ''object'' = Some (String ''model'') \<and>
     map_of m ''owned_by'' = Some (String owned_by)"

lemma entry_map_insert:
  assumes "entry_map i o' m" "k \<in> listing_keys - {''id'', ''object'', ''owned_by''}"
  shows "entry_map i o' (map_insert k v m)"
  using assms by (auto simp: entry_map_def sorted_map_insert keys_map_insert)

lemma entry_map_copy:
  assumes "entry_map i o' m" "set fs \<subseteq> listing_keys - {''id'', ''object'', ''owned_by''}"
  shows "entry_map i o' (foldl (copy_field source) m fs)"
  using assms
  by (induction fs arbitrary: m) (auto simp: copy_field_def entry_map_insert split: option.splits)

lemma normalized_map_entry: "entry_map i o' (normalized_map i source o')"
proof -
  have "sorted_map (map_insert ''owned_by'' (String o')
      (map_insert ''object'' (String ''model'') (map_insert ''id'' (String i) [])))"
    by (intro sorted_map_insert sorted_map_Nil)
  then have "entry_map i o' (map_insert ''owned_by'' (String o')
      (map_insert ''object'' (String ''model'') (map_insert ''id'' (String i) [])))"
    by (simp add: entry_map_def keys_map_insert listing_keys_def del: map_insert.simps)
  then have "entry_map i o' (foldl (copy_field source) (map_insert ''owned_by'' (String o')
      (map_insert ''object'' (String ''model'') (map_insert ''id'' (String i) []))) PRESERVED_FIELDS)"
    by (rule entry_map_copy) (simp add: PRESERVED_FIELDS_def listing_keys_def)
  moreover have "''context_length'' \<in> listing_keys - {''id'', ''object'', ''owned_by''}"
    "''type'' \<in> listing_keys - {''id'', ''object'', ''owned_by''}"
    by (simp_all add: listing_keys_def)
  ultimately show ?thesis
    unfolding normalized_map_def Let_def by (auto intro: entry_map_insert split: option.splits)
qed

definition entry_ok :: "model_entry \<Rightarrow> bool" where
  "entry_ok e \<longleftrightarrow> me_id e \<noteq> [] \<and>
     (\<exists>owned_by m. me_raw e = Object m \<and> entry_map (me_id e) owned_by m)"

lemma listing_entry_ok: "listing_entry p i item = Some e \<Longrightarrow> entry_ok e"
  unfolding listing_entry_def entry_ok_def normalized_model_def
  using normalized_map_entry by (fastforce simp: Let_def split: option.splits if_splits)

lemma parse_models_ok: "parse_models from_slice kind body = Inr es \<Longrightarrow> e \<in> set es \<Longrightarrow> entry_ok e"
  by (auto simp: parse_models_def parse_openai_list_def parse_ollama_def bind_result_Inr map_filter_def
        listing_entry_ok split: option.splits provider_kind.splits)

section \<open>Properties\<close>

text \<open>
  Whatever listing an upstream sends, every model the proxy takes from it has a non-empty
  identifier and a normalized object: exactly that identifier under \<open>id\<close>, \<open>object\<close> equal to
  \<open>model\<close>, an \<open>owned_by\<close> text, keys in the serialization order, and no key outside the fixed list of
  nine, so that pricing, architecture and other provider fields never reach the aggregated listing.
\<close>

theorem model_listing_normalized:
  assumes "parse_models from_slice kind body = Inr entries" "e \<in> set entries"
  shows "me_id e \<noteq> [] \<and>
    (\<exists>m owned_by. me_raw e = Object m \<and> sorted_map m \<and>
       map_of m ''id'' = Some (String (me_id e)) \<and> map_of m ''object'' = Some (String ''model'') \<and>
       map_of m ''owned_by'' = Some (String owned_by) \<and>
       fst ` set m \<subseteq> {''id'', ''object'', ''owned_by'', ''aliases'', ''context_length'', ''created'',
                      ''knowledge_cutoff'', ''reasoning'', ''type''})"
  using parse_models_ok [OF assms] unfolding entry_ok_def entry_map_def listing_keys_def by blast

text \<open>A listing of one model with a price, as OpenRouter sends it.\<close>

definition listing_demo :: json where
  "listing_demo = Object [(''data'', Array [Object [(''id'', String ''m''), (''pricing'', Number (PosInt 3))]])]"

definition listing_demo_entry :: model_entry where
  "listing_demo_entry = \<lparr>me_id = ''m'', me_raw = Object [(''id'', String ''m''), (''object'', String ''model''),
     (''owned_by'', String ''openrouter'')]\<rparr>"

theorem model_listing_normalized_witness:
  "parse_models (\<lambda>_. Some listing_demo) OpenRouter ''body'' = Inr [listing_demo_entry] \<and>
   me_id listing_demo_entry \<noteq> []"
proof -
  have "parse_models (\<lambda>_. Some listing_demo) OpenRouter ''body'' = Inr [listing_demo_entry]"
    by code_simp
  with model_listing_normalized [OF this, of listing_demo_entry] show ?thesis by simp
qed

end
