(* ===== verification/Energy.thy ===== *)
theory Energy
  imports F64 "HOL-Library.Sublist"
begin

text \<open>
  The GPU energy meter (\<open>crates/twl-backends/src/energy.rs\<close>): the locked state, \<open>EnergyMeter::new\<close>,
  \<open>begin\<close>, \<open>watts\<close> and \<open>MeterGuard::drop\<close>, whose record goes to an \<open>EnergySink\<close>. The sink is a
  locale; the accounting writer of \<open>twl-server\<close> is its instance. Time is in nanoseconds, as
  \<open>Instant\<close> has it; \<open>Duration::as_secs_f64\<close> is spelled out.
\<close>

section \<open>The meter\<close>

record meter_state =
  active_count :: nat
  busy_since :: "int option"

record energy_meter =
  em_watts :: f64
  em_state :: meter_state

datatype meter_panic = ActiveUnderflow

definition meter_new :: "f64 \<Rightarrow> energy_meter" where
  "meter_new watts = \<lparr>em_watts = watts, em_state = \<lparr>active_count = 0, busy_since = None\<rparr>\<rparr>"

definition meter_begin :: "int \<Rightarrow> energy_meter \<Rightarrow> energy_meter" where
  "meter_begin now m =
     (let st = em_state m;
          st' = (if active_count st = 0 then st\<lparr>busy_since := Some now\<rparr> else st)
      in m\<lparr>em_state := st'\<lparr>active_count := active_count st' + 1\<rparr>\<rparr>)"

text \<open>\<open>Instant::elapsed\<close> saturates at zero; \<open>as_secs_f64\<close> adds the whole seconds and the fraction.\<close>

definition elapsed_ns :: "int \<Rightarrow> int \<Rightarrow> int" where
  "elapsed_ns since now = max 0 (now - since)"

definition as_secs_f64 :: "int \<Rightarrow> f64" where
  "as_secs_f64 ns = f_add (f_of_int (ns div 1000000000))
                          (f_div (f_of_int (ns mod 1000000000)) (f_of_int 1000000000))"

text \<open>
  The critical section of \<open>MeterGuard::drop\<close>: the last guard closes the busy interval and, when the
  meter draws power, hands out its length in nanoseconds.
\<close>

definition guard_release :: "int \<Rightarrow> energy_meter \<Rightarrow> meter_panic + (energy_meter \<times> int option)" where
  "guard_release now m =
     (let st = em_state m
      in if active_count st = 0 then Inl ActiveUnderflow
         else (let st' = st\<lparr>active_count := active_count st - 1\<rparr>
               in if active_count st' = 0
                  then Inr (m\<lparr>em_state := st'\<lparr>busy_since := None\<rparr>\<rparr>,
                            (case busy_since st' of
                               None \<Rightarrow> None
                             | Some since \<Rightarrow>
                                 if f_lt (Fin 0) (em_watts m) then Some (elapsed_ns since now) else None))
                  else Inr (m\<lparr>em_state := st'\<rparr>, None)))"

text \<open>\<open>MeterGuard::drop\<close>: outside the lock, a completed interval is recorded with the sink.\<close>

definition guard_drop ::
    "(f64 \<Rightarrow> f64 \<Rightarrow> 's \<Rightarrow> 's) \<Rightarrow> int \<Rightarrow> energy_meter \<times> 's \<Rightarrow> meter_panic + (energy_meter \<times> 's)" where
  "guard_drop record_energy now ms =
     (case guard_release now (fst ms) of
        Inl p \<Rightarrow> Inl p
      | Inr (m, None) \<Rightarrow> Inr (m, snd ms)
      | Inr (m, Some ns) \<Rightarrow> Inr (m, record_energy (as_secs_f64 ns) (em_watts m) (snd ms)))"

section \<open>Runs\<close>

datatype meter_event = Begin int | Drop int

fun event_time :: "meter_event \<Rightarrow> int" where
  "event_time (Begin t) = t"
| "event_time (Drop t) = t"

text \<open>
  One meter in use: the guards its callers hold, and the list of the interval lengths it handed out.
  A guard can be dropped only by a caller that holds one.
\<close>

record meter_world =
  mw_meter :: energy_meter
  mw_out :: "int list"
  mw_guards :: nat

definition meter_start :: "f64 \<Rightarrow> meter_world" where
  "meter_start watts = \<lparr>mw_meter = meter_new watts, mw_out = [], mw_guards = 0\<rparr>"

fun meter_exec :: "meter_event \<Rightarrow> meter_world \<Rightarrow> (meter_panic + meter_world) option" where
  "meter_exec (Begin t) s =
     Some (Inr (s\<lparr>mw_meter := meter_begin t (mw_meter s), mw_guards := mw_guards s + 1\<rparr>))"
| "meter_exec (Drop t) s =
     (if mw_guards s = 0 then None
      else (case guard_release t (mw_meter s) of
              Inl p \<Rightarrow> Some (Inl p)
            | Inr (m, rec) \<Rightarrow>
                Some (Inr (s\<lparr>mw_meter := m, mw_guards := mw_guards s - 1,
                             mw_out := mw_out s @ (case rec of None \<Rightarrow> [] | Some ns \<Rightarrow> [ns])\<rparr>))))"

definition meter_inv :: "meter_world \<Rightarrow> bool" where
  "meter_inv s \<longleftrightarrow>
     active_count (em_state (mw_meter s)) = mw_guards s \<and>
     (busy_since (em_state (mw_meter s)) = None \<longleftrightarrow> mw_guards s = 0)"

interpretation meter: guarded_system meter_exec meter_inv
proof
  fix s e t
  assume "meter_inv s" "meter_exec e s = Some (Inr t)"
  then show "meter_inv t"
    by (cases e) (auto simp: meter_inv_def meter_begin_def guard_release_def Let_def split: if_splits)
next
  fix s e p
  assume "meter_inv s"
  then show "meter_exec e s \<noteq> Some (Inl p)"
    by (cases e) (auto simp: meter_inv_def guard_release_def Let_def split: if_splits)
qed

text \<open>The instants at which some request was running: more begins than drops up to then.\<close>

definition begins_upto :: "meter_event list \<Rightarrow> int \<Rightarrow> nat" where
  "begins_upto es n = length (filter (\<lambda>e. case e of Begin t \<Rightarrow> t \<le> n | _ \<Rightarrow> False) es)"

definition drops_upto :: "meter_event list \<Rightarrow> int \<Rightarrow> nat" where
  "drops_upto es n = length (filter (\<lambda>e. case e of Drop t \<Rightarrow> t \<le> n | _ \<Rightarrow> False) es)"

definition busy_instants :: "meter_event list \<Rightarrow> int set" where
  "busy_instants es = {n. drops_upto es n < begins_upto es n}"

section \<open>Lemmas\<close>

lemma meter_exec_watts: "meter_exec e s = Some (Inr t) \<Longrightarrow> em_watts (mw_meter t) = em_watts (mw_meter s)"
  by (cases e) (auto simp: meter_begin_def guard_release_def Let_def split: if_splits)

text \<open>After the last event so far every event counts.\<close>

lemma counts_after:
  assumes "\<forall>e \<in> set es. event_time e \<le> n" "run_events meter_exec es (meter_start w) = Some (Inr s)"
  shows "int (begins_upto es n) - int (drops_upto es n) = int (mw_guards s)"
  using assms
proof (induction es arbitrary: s rule: rev_induct)
  case (snoc e es)
  from snoc.prems(2) obtain u where u: "run_events meter_exec es (meter_start w) = Some (Inr u)"
    "meter_exec e u = Some (Inr s)" by (rule run_events_snocD)
  from snoc.IH [OF _ u(1)] snoc.prems(1)
  have "int (begins_upto es n) - int (drops_upto es n) = int (mw_guards u)" by simp
  with snoc.prems(1) u(2) show ?case
    by (cases e) (auto simp: begins_upto_def drops_upto_def split: if_splits sum.splits)
qed (auto simp: begins_upto_def drops_upto_def meter_start_def)

lemma counts_before:
  assumes "n < event_time e"
  shows "begins_upto (es @ [e]) n = begins_upto es n" "drops_upto (es @ [e]) n = drops_upto es n"
  using assms by (cases e; simp add: begins_upto_def drops_upto_def)+

lemma busy_before_all: "\<forall>e \<in> set es. n < event_time e \<Longrightarrow> begins_upto es n = 0"
  by (induction es) (auto simp: begins_upto_def split: meter_event.splits)

lemma finite_busy_below: "finite {n \<in> busy_instants es. n < (t :: int)}"
proof (cases "es = []")
  case False
  let ?lo = "Min (event_time ` set es)"
  have "{n \<in> busy_instants es. n < t} \<subseteq> {?lo..<t}"
  proof
    fix n assume n: "n \<in> {n \<in> busy_instants es. n < t}"
    then have "begins_upto es n \<noteq> 0" by (auto simp: busy_instants_def)
    then obtain e where "e \<in> set es" "event_time e \<le> n" using busy_before_all by (meson not_le)
    then show "n \<in> {?lo..<t}" using n False by (auto intro: order_trans [OF Min_le])
  qed
  then show ?thesis by (rule finite_subset) simp
qed (simp add: busy_instants_def begins_upto_def drops_upto_def)

text \<open>
  From the last event on, every instant is busy or none is, as a request is running or not; an event
  says nothing about the instants before it.
\<close>

lemma busy_split:
  assumes "\<forall>e \<in> set es. event_time e \<le> s" "s \<le> t"
    and "run_events meter_exec es (meter_start w) = Some (Inr v)"
  shows "{n \<in> busy_instants es. n < t} =
         {n \<in> busy_instants es. n < s} \<union> (if mw_guards v = 0 then {} else {s..<t})"
proof -
  have gap: "n \<in> busy_instants es \<longleftrightarrow> mw_guards v \<noteq> 0" if "s \<le> n" for n
  proof -
    have "\<forall>e \<in> set es. event_time e \<le> n" using assms(1) that by force
    from counts_after [OF this assms(3)] show ?thesis
      by (auto simp: busy_instants_def)
  qed
  show ?thesis
  proof (rule set_eqI)
    fix n
    show "n \<in> {n \<in> busy_instants es. n < t} \<longleftrightarrow> n \<in> {n \<in> busy_instants es. n < s} \<union>
            (if mw_guards v = 0 then {} else {s..<t})"
      using gap [of n] assms(2) by (cases "s \<le> n") auto
  qed
qed

lemma busy_before_event: "n < event_time e \<Longrightarrow> n \<in> busy_instants (es @ [e]) \<longleftrightarrow> n \<in> busy_instants es"
  using counts_before [of n e es] by (simp add: busy_instants_def)

definition open_since :: "meter_world \<Rightarrow> int \<Rightarrow> int" where
  "open_since s t = (case busy_since (em_state (mw_meter s)) of None \<Rightarrow> 0 | Some b \<Rightarrow> t - b)"

definition opened_by :: "meter_world \<Rightarrow> int \<Rightarrow> bool" where
  "opened_by s t = (case busy_since (em_state (mw_meter s)) of None \<Rightarrow> True | Some b \<Rightarrow> b \<le> t)"

lemma meter_inv_start: "meter_inv (meter_start w)"
  by (simp add: meter_inv_def meter_start_def meter_new_def)

lemmas meter_run_inv = meter.run_inv [OF meter_inv_start]

lemma meter_run_watts:
  "run_events meter_exec es s = Some (Inr t) \<Longrightarrow> em_watts (mw_meter t) = em_watts (mw_meter s)"
  by (induction es arbitrary: s) (auto split: option.splits sum.splits dest: meter_exec_watts)

lemma meter_event_account:
  assumes "meter_exec e u = Some (Inr s)" "meter_inv u"
    and "f_lt (Fin 0) (em_watts (mw_meter u))" "opened_by u (event_time e)"
  shows "sum_list (mw_out s) + open_since s (event_time e) = sum_list (mw_out u) + open_since u (event_time e)"
    and "opened_by s (event_time e)"
  using assms
  by (cases e; auto simp: meter_begin_def guard_release_def Let_def open_since_def opened_by_def
        elapsed_ns_def meter_inv_def split: if_splits option.splits)+

lemma meter_account:
  assumes "sorted (map event_time es)" "\<forall>e \<in> set es. event_time e \<le> t" "f_lt (Fin 0) w"
    and "run_events meter_exec es (meter_start w) = Some (Inr s)"
  shows "int (card {n \<in> busy_instants es. n < t}) = sum_list (mw_out s) + open_since s t \<and> opened_by s t"
  using assms
proof (induction es arbitrary: t s rule: rev_induct)
  case Nil
  then show ?case
    by (auto simp: busy_instants_def begins_upto_def drops_upto_def open_since_def opened_by_def
        meter_start_def meter_new_def)
next
  case (snoc e es)
  let ?s = "event_time e"
  from snoc.prems(4) obtain u where u: "run_events meter_exec es (meter_start w) = Some (Inr u)"
    "meter_exec e u = Some (Inr s)" by (rule run_events_snocD)
  have srt: "sorted (map event_time es)" "\<forall>e' \<in> set es. event_time e' \<le> ?s" "?s \<le> t"
    using snoc.prems(1,2) by (auto simp: sorted_append)
  from snoc.IH [OF srt(1,2) snoc.prems(3) u(1)]
  have IH: "int (card {n \<in> busy_instants es. n < ?s}) = sum_list (mw_out u) + open_since u ?s"
    "opened_by u ?s" by simp_all
  have watts: "f_lt (Fin 0) (em_watts (mw_meter u))"
    using meter_run_watts [OF u(1)] snoc.prems(3) by (simp add: meter_start_def meter_new_def)
  note ev = meter_event_account [OF u(2) meter_run_inv [OF u(1)] watts IH(2)]
  have "{n \<in> busy_instants (es @ [e]). n < ?s} = {n \<in> busy_instants es. n < ?s}"
    using busy_before_event by blast
  then have "int (card {n \<in> busy_instants (es @ [e]). n < ?s}) = sum_list (mw_out s) + open_since s ?s"
    using IH(1) ev(1) by simp
  moreover have "{n \<in> busy_instants (es @ [e]). n < t} = {n \<in> busy_instants (es @ [e]). n < ?s} \<union>
      (if mw_guards s = 0 then {} else {?s..<t})"
    using srt snoc.prems(4) by (intro busy_split [where w = w]) auto
  moreover have "{n \<in> busy_instants (es @ [e]). n < ?s} \<inter> {?s..<t} = {}" by auto
  ultimately have "int (card {n \<in> busy_instants (es @ [e]). n < t}) = sum_list (mw_out s) + open_since s ?s +
      (if mw_guards s = 0 then 0 else t - ?s)"
    using srt(3) by (simp add: card_Un_disjoint finite_busy_below)
  then show ?case
    using meter_run_inv [OF snoc.prems(4)] ev(2) srt(3)
    by (auto simp: open_since_def opened_by_def meter_inv_def split: option.splits)
qed

section \<open>Properties\<close>

text \<open>
  C20: The meter charges the union of the busy intervals: for any interleaving of overlapping requests
  in time order, once all of them have finished the recorded intervals add up to exactly the time
  (in nanoseconds) during which at least one request was running, overlaps counted once.
\<close>

theorem meter_charges_union:
  assumes "sorted (map event_time es)" and "f_lt (Fin 0) watts"
    and "run_events meter_exec es (meter_start watts) = Some (Inr s)"
    and "mw_guards s = 0"
  shows "finite (busy_instants es) \<and> sum_list (mw_out s) = int (card (busy_instants es))"
proof -
  define t where "t = (if es = [] then 0 else Max (event_time ` set es))"
  have t: "\<forall>e \<in> set es. event_time e \<le> t" by (auto simp: t_def)
  have "n < t" if "n \<in> busy_instants es" for n
  proof (rule ccontr)
    assume "\<not> n < t"
    then have "\<forall>e \<in> set es. event_time e \<le> n" using t by force
    from counts_after [OF this assms(3)] assms(4) that show False by (simp add: busy_instants_def)
  qed
  then have all: "busy_instants es = {n \<in> busy_instants es. n < t}" by blast
  have "open_since s t = 0"
    using meter_run_inv [OF assms(3)] assms(4) by (simp add: meter_inv_def open_since_def)
  with meter_account [OF assms(1) t assms(2,3)] all finite_busy_below [of es t] show ?thesis
    by (simp flip: all)
qed

theorem meter_charges_union_witness:
  "finite (busy_instants [Begin 10, Begin 20, Drop 30, Drop 45, Begin 60, Drop 61]) \<and>
   36 = int (card (busy_instants [Begin 10, Begin 20, Drop 30, Drop 45, Begin 60, Drop 61]))"
  using meter_charges_union [where watts = "Fin 250"
      and es = "[Begin 10, Begin 20, Drop 30, Drop 45, Begin 60, Drop 61]"
      and s = "(meter_start (Fin 250))\<lparr>mw_out := [35, 1]\<rparr>"]
  by (simp add: meter_start_def meter_new_def meter_begin_def guard_release_def elapsed_ns_def)

text \<open>
  A meter configured with no power draw never hands out a record, whatever the requests do, and
  no sequence of guards makes its counter underflow.
\<close>

theorem meter_zero_watts_silent:
  "run_events meter_exec es (meter_start (Fin 0)) \<noteq> Some (Inl p) \<and>
   (\<forall>s. run_events meter_exec es (meter_start (Fin 0)) = Some (Inr s) \<longrightarrow> mw_out s = [])"
proof -
  have "mw_out s = []" if "run_events meter_exec es (meter_start (Fin 0)) = Some (Inr s)" for s
    using that
  proof (induction es arbitrary: s rule: rev_induct)
    case (snoc e es)
    from snoc.prems obtain u where u: "run_events meter_exec es (meter_start (Fin 0)) = Some (Inr u)"
      "meter_exec e u = Some (Inr s)" by (rule run_events_snocD)
    have "em_watts (mw_meter u) = Fin 0"
      using meter_run_watts [OF u(1)] by (simp add: meter_start_def meter_new_def)
    with u(2) snoc.IH [OF u(1)] show ?case
      by (cases e) (auto simp: guard_release_def Let_def split: if_splits option.splits)
  qed (auto simp: meter_start_def)
  with meter.run_safe [OF meter_inv_start] show ?thesis by blast
qed

theorem meter_zero_watts_silent_witness:
  "run_events meter_exec [Begin 1, Drop 5] (meter_start (Fin 0)) = Some (Inr (meter_start (Fin 0)))"
proof -
  have "run_events meter_exec [Begin 1, Drop 5] (meter_start (Fin 0)) \<noteq> Some (Inl ActiveUnderflow)"
    using meter_zero_watts_silent [of "[Begin 1, Drop 5]" ActiveUnderflow] by blast
  then show ?thesis by (simp add: meter_start_def meter_new_def meter_begin_def guard_release_def)
qed

section \<open>The sink interface\<close>

text \<open>
  What the meter relies on of an \<open>EnergySink\<close>: a call stores its record at the end or drops it
  (the production sink is a bounded queue that never blocks). The stored records are then a
  subsequence of the ones handed out: in order, none twice, none invented.
\<close>

locale energy_sink =
  fixes record_energy :: "f64 \<Rightarrow> f64 \<Rightarrow> 's \<Rightarrow> 's"
    and stored :: "'s \<Rightarrow> (f64 \<times> f64) list"
  assumes record_energy_stored:
    "stored (record_energy elapsed watts s) = stored s @ [(elapsed, watts)] \<or>
     stored (record_energy elapsed watts s) = stored s"
begin

lemma record_all_subseq:
  "\<exists>rs. stored (fold (\<lambda>(e, w). record_energy e w) calls s) = stored s @ rs \<and> subseq rs calls"
proof (induction calls arbitrary: s)
  case (Cons c calls)
  obtain e w where c: "c = (e, w)" by (cases c)
  from Cons.IH [of "record_energy e w s"] obtain rs where
    rs: "stored (fold (\<lambda>(e, w). record_energy e w) calls (record_energy e w s)) =
      stored (record_energy e w s) @ rs" "subseq rs calls" by blast
  from record_energy_stored [of e w s] show ?case
  proof
    assume "stored (record_energy e w s) = stored s @ [(e, w)]"
    with rs c show ?thesis by (intro exI [of _ "c # rs"]) simp
  next
    assume "stored (record_energy e w s) = stored s"
    with rs c show ?thesis by (intro exI [of _ rs]) (simp add: list_emb_Cons)
  qed
qed simp

end

end
