(* ===== verification/Backends.thy ===== *)
theory Backends
  imports Provider Energy "HOL-Library.Multiset"
begin

text \<open>
  The backend registry (\<open>crates/twl-backends/src/lib.rs\<close>): backends, the model catalog and its
  routing table, the placement strategies, rendezvous routing with bounded load, the in-flight
  counters and the catalog updates of the model watchdog. The rotation counters are shared between
  successive catalogs through an \<open>Arc\<close>: they live in a store, and a routing entry holds an address.
  \<open>FxHasher\<close> is a parameter, and so is the order \<open>sort_unstable_by\<close> gives to equal scores.
\<close>

section \<open>Backends\<close>

record backend_params =
  bp_upstream :: string
  bp_provider :: provider_kind
  bp_api_key :: "string option"
  bp_extra_headers :: "(string \<times> string) list"
  bp_gpu_watts :: f64
  bp_models_poll_secs :: "64 word option"
  bp_model_types :: "string \<rightharpoonup> model_kind"
  bp_model_filter :: "string list option"

record backend =
  b_upstream :: string
  b_provider :: provider_kind
  b_auth_headers :: "(string \<times> string) list"
  b_gpu_watts :: f64
  b_meter :: energy_meter
  b_models_poll_secs :: "64 word option"
  b_model_types :: "string \<rightharpoonup> model_kind"
  b_model_filter :: "string set option"

definition backend_new :: "backend_params \<Rightarrow> backend" where
  "backend_new params =
     \<lparr>b_upstream = bp_upstream params, b_provider = bp_provider params,
      b_auth_headers = auth_headers (bp_api_key params) @ bp_extra_headers params,
      b_gpu_watts = bp_gpu_watts params, b_meter = meter_new (bp_gpu_watts params),
      b_models_poll_secs = bp_models_poll_secs params, b_model_types = bp_model_types params,
      b_model_filter = map_option set (bp_model_filter params)\<rparr>"

definition OVERLOAD_FACTOR :: f64 where
  "OVERLOAD_FACTOR = Fin (5 / 4)"

datatype lb_strategy = RoundRobin | LeastLoaded

record route_request =
  rr_model :: "string option"
  rr_prefix_hash :: "64 word option"

datatype route_error = MissingModel | UnknownModel string

datatype routing_mode = FlatPassthrough | CatalogMode

text \<open>The panics of the registry: failed assertions, indices out of bounds, a division by zero.\<close>

datatype reg_panic =
  NoBackends | ModelListMismatch | FlatNeedsOneBackend | IndexOutOfBounds | RemainderByZero

section \<open>Catalog\<close>

record catalog_entry =
  ce_id :: string
  ce_raw :: json

record routing_entry =
  re_candidates :: "32 word list"
  re_rotation :: nat

type_synonym routing_map = "string \<rightharpoonup> routing_entry"

record catalog =
  cat_entries :: "catalog_entry list list"
  cat_routing :: routing_map

definition apply_type_override :: "json \<Rightarrow> (string \<rightharpoonup> model_kind) \<Rightarrow> string \<Rightarrow> json" where
  "apply_type_override raw overrides id_text =
     (case overrides id_text of
        None \<Rightarrow> raw
      | Some kind \<Rightarrow>
          (case raw of
             Object m \<Rightarrow> Object (map_insert ''type'' (String (model_kind_as_str kind)) m)
           | _ \<Rightarrow> raw))"

text \<open>\<open>retain\<close> with a set of the identifiers seen so far.\<close>

fun retain_unseen :: "string set \<Rightarrow> catalog_entry list \<Rightarrow> catalog_entry list" where
  "retain_unseen seen [] = []"
| "retain_unseen seen (e # es) =
     (if ce_id e \<in> seen then retain_unseen seen es else e # retain_unseen (insert (ce_id e) seen) es)"

definition deduplicate_backend_entries :: "catalog_entry list \<Rightarrow> catalog_entry list" where
  "deduplicate_backend_entries entries = retain_unseen {} entries"

definition model_allowed :: "string set option \<Rightarrow> string \<Rightarrow> bool" where
  "model_allowed filter_set id_text = (case filter_set of None \<Rightarrow> True | Some f \<Rightarrow> id_text \<in> f)"

text \<open>One turn of the inner loop of \<open>build_routing\<close>, on the table and the store of counters.\<close>

definition routing_add ::
    "routing_map option \<Rightarrow> nat \<Rightarrow> routing_map \<times> 32 word list \<Rightarrow> catalog_entry \<Rightarrow> routing_map \<times> 32 word list" where
  "routing_add previous backend_idx acc entry =
     (case acc of (routing, counters) \<Rightarrow>
        (case routing (ce_id entry) of
           None \<Rightarrow>
             (case Option.bind previous (\<lambda>p. p (ce_id entry)) of
                None \<Rightarrow> (routing(ce_id entry \<mapsto>
                           \<lparr>re_candidates = [of_nat backend_idx], re_rotation = length counters\<rparr>),
                         counters @ [0])
              | Some old \<Rightarrow> (routing(ce_id entry \<mapsto>
                           \<lparr>re_candidates = [of_nat backend_idx], re_rotation = re_rotation old\<rparr>),
                         counters))
         | Some e \<Rightarrow>
             if re_candidates e = [] \<or> last (re_candidates e) \<noteq> of_nat backend_idx
             then (routing(ce_id entry \<mapsto> e\<lparr>re_candidates := re_candidates e @ [of_nat backend_idx]\<rparr>), counters)
             else (routing, counters)))"

definition build_routing ::
    "catalog_entry list list \<Rightarrow> routing_map option \<Rightarrow> 32 word list \<Rightarrow> routing_map \<times> 32 word list" where
  "build_routing entries previous counters =
     foldl (\<lambda>acc (backend_idx, backend_entries). foldl (routing_add previous backend_idx) acc backend_entries)
           (Map.empty, counters) (enumerate 0 entries)"

section \<open>Registry\<close>

record registry =
  reg_catalog :: catalog
  reg_backends :: "backend list"
  reg_mode :: routing_mode
  reg_inflight :: "32 word list"
  reg_strategy :: lb_strategy
  reg_overload_factor :: f64
  reg_rotations :: "32 word list"

definition static_entry :: "backend \<Rightarrow> string \<Rightarrow> catalog_entry" where
  "static_entry b id_text =
     \<lparr>ce_id = id_text,
      ce_raw = apply_type_override
        (Object (map_insert ''owned_by'' (String (provider_name (b_provider b)))
                (map_insert ''object'' (String ''model'') (map_insert ''id'' (String id_text) []))))
        (b_model_types b) id_text\<rparr>"

definition static_entries :: "backend \<Rightarrow> string list \<Rightarrow> catalog_entry list" where
  "static_entries b models =
     deduplicate_backend_entries
       (map (static_entry b) (filter (model_allowed (b_model_filter b)) models))"

definition registry_new ::
    "backend list \<Rightarrow> string list list \<Rightarrow> routing_mode \<Rightarrow> reg_panic + registry" where
  "registry_new backends static_models mode =
     (if backends = [] then Inl NoBackends
      else if length backends \<noteq> length static_models then Inl ModelListMismatch
      else if \<not> (mode \<noteq> FlatPassthrough \<or> length backends = 1) then Inl FlatNeedsOneBackend
      else (let entries = map (\<lambda>(b, models). static_entries b models) (zip backends static_models)
            in case build_routing entries None [] of (routing, counters) \<Rightarrow>
                 Inr \<lparr>reg_catalog = \<lparr>cat_entries = entries, cat_routing = routing\<rparr>,
                      reg_backends = backends, reg_mode = mode,
                      reg_inflight = replicate (length backends) 0,
                      reg_strategy = LeastLoaded, reg_overload_factor = OVERLOAD_FACTOR,
                      reg_rotations = counters\<rparr>))"

definition with_load_balancing :: "lb_strategy \<Rightarrow> f64 \<Rightarrow> registry \<Rightarrow> registry" where
  "with_load_balancing strategy factor reg = reg\<lparr>reg_strategy := strategy, reg_overload_factor := factor\<rparr>"

section \<open>Placement\<close>

text \<open>\<open>self.inflight[idx].load()\<close>, for one index and along a list of them.\<close>

definition load_of :: "32 word list \<Rightarrow> nat \<Rightarrow> reg_panic + 32 word" where
  "load_of inflight idx = (if idx < length inflight then Inr (inflight ! idx) else Inl IndexOutOfBounds)"

fun load_all :: "32 word list \<Rightarrow> nat list \<Rightarrow> reg_panic + 32 word list" where
  "load_all inflight [] = Inr []"
| "load_all inflight (i # is) =
     bind_result (load_of inflight i) (\<lambda>l. map_sum id ((#) l) (load_all inflight is))"

text \<open>The result carries the store of rotation counters, which \<open>fetch_add\<close> changes.\<close>

definition strategy_placement :: "registry \<Rightarrow> routing_entry \<Rightarrow> reg_panic + (nat list \<times> 32 word list)" where
  "strategy_placement reg entry =
     (let candidates = map unat (re_candidates entry)
      in case reg_strategy reg of
           RoundRobin \<Rightarrow>
             (let n = length candidates; r = re_rotation entry; old = reg_rotations reg ! r
              in if n = 0 then Inl RemainderByZero
                 else Inr (rotate (unat old mod n) candidates, (reg_rotations reg)[r := old + 1]))
         | LeastLoaded \<Rightarrow>
             bind_result (load_all (reg_inflight reg) candidates) (\<lambda>loads.
               Inr (map snd (sort_key fst (zip loads candidates)), reg_rotations reg)))"

fun spill_target :: "32 word list \<Rightarrow> nat \<Rightarrow> nat list \<Rightarrow> 32 word \<Rightarrow> reg_panic + nat" where
  "spill_target inflight primary [] bound = Inr primary"
| "spill_target inflight primary (idx # rest) bound =
     bind_result (load_of inflight idx) (\<lambda>l.
       if l < bound then Inr idx else spill_target inflight primary rest bound)"

definition load_bound :: "f64 \<Rightarrow> 32 word \<Rightarrow> nat \<Rightarrow> 32 word" where
  "load_bound factor load_sum n =
     max 1 (f_as_u32 (f_ceil (f_div (f_mul factor (f_add (f_of_int (uint load_sum)) (Fin 1))) (f_of_int (int n)))))"

definition prefix_order ::
    "((64 word \<times> nat) list \<Rightarrow> (64 word \<times> nat) list) \<Rightarrow> (64 word \<Rightarrow> 32 word \<Rightarrow> 64 word)
     \<Rightarrow> routing_entry \<Rightarrow> 64 word \<Rightarrow> nat list" where
  "prefix_order sort_scores score entry h =
     map snd (sort_scores (map (\<lambda>idx. (score h idx, unat idx)) (re_candidates entry)))"

definition ordered_candidates ::
    "((64 word \<times> nat) list \<Rightarrow> (64 word \<times> nat) list) \<Rightarrow> (64 word \<Rightarrow> 32 word \<Rightarrow> 64 word)
     \<Rightarrow> registry \<Rightarrow> routing_entry \<Rightarrow> 64 word option \<Rightarrow> reg_panic + (nat list \<times> 32 word list)" where
  "ordered_candidates sort_scores score reg entry prefix_hash =
     (case prefix_hash of
        None \<Rightarrow> strategy_placement reg entry
      | Some h \<Rightarrow>
          (let scored = prefix_order sort_scores score entry h
           in bind_result (load_all (reg_inflight reg) (map unat (re_candidates entry))) (\<lambda>loads.
                let bound = load_bound (reg_overload_factor reg) (sum_list loads) (length (re_candidates entry))
                in case scored of
                     [] \<Rightarrow> Inl IndexOutOfBounds
                   | primary # _ \<Rightarrow>
                       bind_result (load_of (reg_inflight reg) primary) (\<lambda>l.
                       bind_result (if l < bound then Inr primary
                                    else spill_target (reg_inflight reg) primary scored bound) (\<lambda>chosen.
                         Inr (chosen # filter (\<lambda>idx. idx \<noteq> chosen) scored, reg_rotations reg))))))"

definition route_candidates ::
    "((64 word \<times> nat) list \<Rightarrow> (64 word \<times> nat) list) \<Rightarrow> (64 word \<Rightarrow> 32 word \<Rightarrow> 64 word)
     \<Rightarrow> registry \<Rightarrow> route_request \<Rightarrow> reg_panic + (route_error + nat list) \<times> registry" where
  "route_candidates sort_scores score reg req =
     (case rr_model req of
        None \<Rightarrow> Inr (Inl MissingModel, reg)
      | Some name \<Rightarrow>
          (case cat_routing (reg_catalog reg) name of
             Some entry \<Rightarrow>
               if length (re_candidates entry) = 1
               then Inr (Inr [unat (re_candidates entry ! 0)], reg)
               else bind_result (ordered_candidates sort_scores score reg entry (rr_prefix_hash req)) (\<lambda>(cs, counters).
                      Inr (Inr cs, reg\<lparr>reg_rotations := counters\<rparr>))
           | None \<Rightarrow>
               if reg_mode reg = FlatPassthrough then Inr (Inr [0], reg)
               else Inr (Inl (UnknownModel name), reg)))"

definition route ::
    "((64 word \<times> nat) list \<Rightarrow> (64 word \<times> nat) list) \<Rightarrow> (64 word \<Rightarrow> 32 word \<Rightarrow> 64 word)
     \<Rightarrow> registry \<Rightarrow> route_request \<Rightarrow> reg_panic + (route_error + nat \<times> backend) \<times> registry" where
  "route sort_scores score reg req =
     bind_result (route_candidates sort_scores score reg req) (\<lambda>(r, reg').
       case r of
         Inl e \<Rightarrow> Inr (Inl e, reg')
       | Inr [] \<Rightarrow> Inl IndexOutOfBounds
       | Inr (idx # _) \<Rightarrow>
           if idx < length (reg_backends reg') then Inr (Inr (idx, reg_backends reg' ! idx), reg')
           else Inl IndexOutOfBounds)"

definition backend_for where
  "backend_for sort_scores score reg model =
     bind_result (route sort_scores score reg \<lparr>rr_model = model, rr_prefix_hash = None\<rparr>)
       (\<lambda>(r, reg'). Inr (map_sum id snd r, reg'))"

section \<open>Load and catalog updates\<close>

definition begin_load :: "nat \<Rightarrow> registry \<Rightarrow> reg_panic + registry" where
  "begin_load idx reg =
     (if idx < length (reg_inflight reg)
      then Inr (reg\<lparr>reg_inflight := (reg_inflight reg)[idx := reg_inflight reg ! idx + 1]\<rparr>)
      else Inl IndexOutOfBounds)"

definition load_guard_drop :: "nat \<Rightarrow> registry \<Rightarrow> reg_panic + registry" where
  "load_guard_drop idx reg =
     (if idx < length (reg_inflight reg)
      then Inr (reg\<lparr>reg_inflight := (reg_inflight reg)[idx := reg_inflight reg ! idx - 1]\<rparr>)
      else Inl IndexOutOfBounds)"

definition polled_entries :: "backend \<Rightarrow> model_entry list \<Rightarrow> catalog_entry list" where
  "polled_entries b entries =
     deduplicate_backend_entries
       (map (\<lambda>e. \<lparr>ce_id = me_id e, ce_raw = apply_type_override (me_raw e) (b_model_types b) (me_id e)\<rparr>)
            (filter (\<lambda>e. model_allowed (b_model_filter b) (me_id e)) entries))"

definition set_backend_models :: "nat \<Rightarrow> model_entry list \<Rightarrow> registry \<Rightarrow> reg_panic + registry" where
  "set_backend_models idx entries reg =
     (if idx < length (reg_backends reg) \<and> idx < length (cat_entries (reg_catalog reg))
      then (let new_entries = (cat_entries (reg_catalog reg))
                  [idx := polled_entries (reg_backends reg ! idx) entries]
            in case build_routing new_entries (Some (cat_routing (reg_catalog reg))) (reg_rotations reg) of
                 (routing, counters) \<Rightarrow>
                   Inr (reg\<lparr>reg_catalog := \<lparr>cat_entries = new_entries, cat_routing = routing\<rparr>,
                            reg_rotations := counters\<rparr>))
      else Inl IndexOutOfBounds)"

definition model_entries :: "registry \<Rightarrow> json list" where
  "model_entries reg = map ce_raw (retain_unseen {} (concat (cat_entries (reg_catalog reg))))"

section \<open>The routing table\<close>

text \<open>The backends that serve a model, by ascending index: what the table should hold.\<close>

definition serving :: "catalog_entry list list \<Rightarrow> string \<Rightarrow> nat list" where
  "serving entries m = filter (\<lambda>i. m \<in> ce_id ` set (entries ! i)) [0..<length entries]"

lemma serving_snoc:
  "serving (xs @ [x]) m = serving xs m @ (if m \<in> ce_id ` set x then [length xs] else [])"
proof -
  have "filter (\<lambda>i. m \<in> ce_id ` set ((xs @ [x]) ! i)) [0..<length xs] = serving xs m"
    unfolding serving_def by (rule filter_cong) (auto simp: nth_append)
  then show ?thesis by (simp add: serving_def)
qed

lemma serving_less: "i \<in> set (serving entries m) \<Longrightarrow> i < length entries"
  by (simp add: serving_def)

lemma serving_distinct [simp]: "distinct (serving entries m)"
  by (simp add: serving_def)

definition cands :: "routing_map \<Rightarrow> string \<Rightarrow> 32 word list" where
  "cands R m = (case R m of None \<Rightarrow> [] | Some e \<Rightarrow> re_candidates e)"

text \<open>
  The table during a rebuild over the counters \<open>base\<close>: no entry is empty, a model that had an entry
  keeps its counter, a new model has a fresh counter at zero, and no two models share one.
\<close>

definition rotation_of :: "routing_map option \<Rightarrow> string \<Rightarrow> nat option" where
  "rotation_of previous m = map_option re_rotation (Option.bind previous (\<lambda>p. p m))"

definition prev_ok :: "routing_map option \<Rightarrow> 32 word list \<Rightarrow> bool" where
  "prev_ok previous base \<longleftrightarrow>
     (\<forall>m r. rotation_of previous m = Some r \<longrightarrow> r < length base) \<and>
     (\<forall>m m' r. rotation_of previous m = Some r \<longrightarrow> rotation_of previous m' = Some r \<longrightarrow> m = m')"

definition entry_rot :: "routing_map option \<Rightarrow> 32 word list \<Rightarrow> nat \<Rightarrow> string \<Rightarrow> routing_entry \<Rightarrow> bool" where
  "entry_rot previous base len m e \<longleftrightarrow> re_candidates e \<noteq> [] \<and>
     (case rotation_of previous m of
        Some r \<Rightarrow> re_rotation e = r
      | None \<Rightarrow> length base \<le> re_rotation e \<and> re_rotation e < len)"

definition table_ok :: "routing_map option \<Rightarrow> 32 word list \<Rightarrow> routing_map \<times> 32 word list \<Rightarrow> bool" where
  "table_ok previous base acc \<longleftrightarrow>
     (\<exists>k. snd acc = base @ replicate k 0) \<and>
     (\<forall>m e. fst acc m = Some e \<longrightarrow> entry_rot previous base (length (snd acc)) m e) \<and>
     (\<forall>m m' e e'. fst acc m = Some e \<longrightarrow> fst acc m' = Some e' \<longrightarrow> re_rotation e = re_rotation e' \<longrightarrow> m = m')"

lemma table_ok_base: "table_ok previous base (R, H) \<Longrightarrow> \<exists>k. H = base @ replicate k 0"
  by (simp add: table_ok_def)

lemma table_ok_entry: "table_ok previous base (R, H) \<Longrightarrow> R m = Some e \<Longrightarrow> entry_rot previous base (length H) m e"
  by (simp add: table_ok_def)

lemma table_ok_inj:
  "table_ok previous base (R, H) \<Longrightarrow> R m = Some e \<Longrightarrow> R m' = Some e' \<Longrightarrow> re_rotation e = re_rotation e' \<Longrightarrow> m = m'"
  by (simp add: table_ok_def)

lemma entry_rot_less:
  assumes "entry_rot previous base len m e" "prev_ok previous base" "length base \<le> len"
  shows "re_rotation e < len"
  using assms by (fastforce simp: entry_rot_def prev_ok_def split: option.splits)

lemma entry_rot_mono: "entry_rot previous base len m e \<Longrightarrow> len \<le> len' \<Longrightarrow> entry_rot previous base len' m e"
  by (auto simp: entry_rot_def split: option.splits)

lemma table_ok_update:
  assumes ok: "table_ok previous base (R, H)" and H': "H' = H @ replicate j 0"
    and e: "entry_rot previous base (length H') m e"
    and new: "\<And>m' e'. R m' = Some e' \<Longrightarrow> m' \<noteq> m \<Longrightarrow> re_rotation e' \<noteq> re_rotation e"
  shows "table_ok previous base (R(m \<mapsto> e), H')"
proof -
  from ok obtain k where "H = base @ replicate k 0" by (auto dest: table_ok_base)
  then have "H' = base @ replicate (k + j) 0" by (simp add: H' replicate_add)
  moreover have "entry_rot previous base (length H') m' e'" if "(R(m \<mapsto> e)) m' = Some e'" for m' e'
    using that e table_ok_entry [OF ok, of m' e'] by (auto simp: H' intro: entry_rot_mono split: if_splits)
  moreover have "m1 = m2" if "(R(m \<mapsto> e)) m1 = Some e1" "(R(m \<mapsto> e)) m2 = Some e2" "re_rotation e1 = re_rotation e2"
    for m1 m2 e1 e2
    using that new table_ok_inj [OF ok] by (auto split: if_splits)
  ultimately show ?thesis unfolding table_ok_def by (simp only: fst_conv snd_conv) blast
qed

lemma routing_add_ok:
  assumes ok: "table_ok previous base acc" and prev: "prev_ok previous base"
  shows "table_ok previous base (routing_add previous i acc e)"
proof -
  obtain R H where acc: "acc = (R, H)" by (cases acc)
  note ok = ok [unfolded acc]
  from ok obtain k where H: "H = base @ replicate k 0" by (auto dest: table_ok_base)
  have less: "re_rotation e' < length H" if "R m = Some e'" for m e'
    using entry_rot_less [OF table_ok_entry [OF ok that] prev] by (simp add: H)
  consider (occupied) old where "R (ce_id e) = Some old"
    | (fresh) "R (ce_id e) = None" "Option.bind previous (\<lambda>p. p (ce_id e)) = None"
    | (kept) old where "R (ce_id e) = None" "Option.bind previous (\<lambda>p. p (ce_id e)) = Some old"
    by (cases "R (ce_id e)"; cases "Option.bind previous (\<lambda>p. p (ce_id e))") auto
  then show ?thesis
  proof cases
    case occupied
    have "table_ok previous base (R(ce_id e \<mapsto> old\<lparr>re_candidates := re_candidates old @ [of_nat i]\<rparr>), H)"
    proof (rule table_ok_update [OF ok, where j = 0])
      show "entry_rot previous base (length H) (ce_id e) (old\<lparr>re_candidates := re_candidates old @ [of_nat i]\<rparr>)"
        using table_ok_entry [OF ok occupied] by (simp add: entry_rot_def split: option.splits)
    qed (use occupied table_ok_inj [OF ok] in auto)
    with ok occupied show ?thesis by (simp add: routing_add_def acc)
  next
    case fresh
    have "table_ok previous base
        (R(ce_id e \<mapsto> \<lparr>re_candidates = [of_nat i], re_rotation = length H\<rparr>), H @ [0])"
    proof (rule table_ok_update [OF ok, where j = 1])
      show "entry_rot previous base (length (H @ [0 :: 32 word])) (ce_id e) \<lparr>re_candidates = [of_nat i], re_rotation = length H\<rparr>"
        using fresh(2) by (simp add: entry_rot_def rotation_of_def H)
    qed (auto dest: less)
    with fresh show ?thesis by (simp add: routing_add_def acc)
  next
    case kept
    then have r: "rotation_of previous (ce_id e) = Some (re_rotation old)" by (simp add: rotation_of_def)
    have other: "re_rotation e' \<noteq> re_rotation old" if "R m = Some e'" "m \<noteq> ce_id e" for m e'
      using table_ok_entry [OF ok that(1)] that(2) prev r
      by (cases "rotation_of previous m") (fastforce simp: entry_rot_def prev_ok_def)+
    have "table_ok previous base
        (R(ce_id e \<mapsto> \<lparr>re_candidates = [of_nat i], re_rotation = re_rotation old\<rparr>), H)"
      by (rule table_ok_update [OF ok, where j = 0]) (use other r in \<open>auto simp: entry_rot_def\<close>)
    with kept show ?thesis by (simp add: routing_add_def acc)
  qed
qed

lemma routing_adds_ok:
  "table_ok previous base acc \<Longrightarrow> prev_ok previous base \<Longrightarrow>
     table_ok previous base (foldl (routing_add previous i) acc es)"
proof (induction es arbitrary: acc)
  case (Cons e es)
  from Cons.IH [OF routing_add_ok [OF Cons.prems] Cons.prems(2)] show ?case by simp
qed simp

lemma routing_add_cands:
  assumes "table_ok previous base acc"
  shows "cands (fst (routing_add previous i acc e)) m =
    (if m = ce_id e \<and> (cands (fst acc) m = [] \<or> last (cands (fst acc) m) \<noteq> of_nat i)
     then cands (fst acc) m @ [of_nat i] else cands (fst acc) m)"
  using assms
  by (cases acc; cases "fst acc (ce_id e)")
     (auto simp: routing_add_def cands_def table_ok_def entry_rot_def split: option.splits)

lemma routing_adds_cands:
  assumes "table_ok previous base acc" "prev_ok previous base"
  shows "cands (fst (foldl (routing_add previous i) acc es)) m =
    (if m \<in> ce_id ` set es \<and> (cands (fst acc) m = [] \<or> last (cands (fst acc) m) \<noteq> of_nat i)
     then cands (fst acc) m @ [of_nat i] else cands (fst acc) m)"
  using assms
proof (induction es arbitrary: acc)
  case (Cons e es)
  from Cons.IH [OF routing_add_ok [OF Cons.prems] Cons.prems(2)] show ?case
    by (simp add: routing_add_cands [OF Cons.prems(1)])
qed simp

lemma build_routing_spec:
  assumes "prev_ok previous base" "length entries \<le> 2 ^ 32"
  shows "table_ok previous base (build_routing entries previous base) \<and>
    (\<forall>m. cands (fst (build_routing entries previous base)) m = map of_nat (serving entries m))"
  using assms(2)
proof (induction entries rule: rev_induct)
  case Nil
  have "table_ok previous base (Map.empty, base)" by (auto simp: table_ok_def intro: exI [of _ 0])
  then show ?case by (simp add: build_routing_def cands_def serving_def)
next
  case (snoc x xs)
  let ?acc = "build_routing xs previous base"
  have step: "build_routing (xs @ [x]) previous base = foldl (routing_add previous (length xs)) ?acc x"
    by (simp add: build_routing_def enumerate_append_eq)
  have len: "length xs < 2 ^ 32" using snoc.prems by simp
  with snoc.IH have ok: "table_ok previous base ?acc"
    and cands: "\<And>m. cands (fst ?acc) m = map of_nat (serving xs m)" by simp_all
  have "last (map of_nat (serving xs m)) \<noteq> (of_nat (length xs) :: 32 word)" if "serving xs m \<noteq> []" for m
  proof -
    have "last (serving xs m) < length xs" using serving_less [OF last_in_set [OF that]] .
    with len have "(of_nat (last (serving xs m)) :: 32 word) \<noteq> of_nat (length xs)"
      by (simp add: of_nat_32_inj)
    with that show ?thesis by (simp add: last_map)
  qed
  with routing_adds_ok [OF ok assms(1)] show ?case
    unfolding step by (auto simp: routing_adds_cands [OF ok assms(1)] cands serving_snoc)
qed

end
