(* ===== verification/Body.thy ===== *)
theory Body
  imports Backends
begin

text \<open>
  Inspection and rewriting of request bodies (\<open>crates/twl-server/src/proxy/body.rs\<close>). The JSON library
  (\<open>from_slice\<close>, \<open>to_vec\<close>) and the hash function are parameters; bytes are characters.
\<close>

definition MAX_REQUEST_BODY :: nat where
  "MAX_REQUEST_BODY = 64 * 1024 * 1024"

definition MAX_PREFIX_BYTES :: nat where
  "MAX_PREFIX_BYTES = 8192"

text \<open>The text of the first message with a role, if it is a plain string.\<close>

definition first_content :: "string \<Rightarrow> json list \<Rightarrow> string option" where
  "first_content role msgs =
     Option.bind (find (\<lambda>m. Option.bind (jget ''role'' m) as_str = Some role) msgs)
       (\<lambda>m. Option.bind (jget ''content'' m) as_str)"

definition compute_prefix_hash :: "(string \<Rightarrow> 64 word) \<Rightarrow> string \<Rightarrow> json \<Rightarrow> 64 word option" where
  "compute_prefix_hash fx_hash endpoint v =
     (if contains_str endpoint ''chat/completions'' then
        Option.bind (Option.bind (jget ''messages'' v) as_array) (\<lambda>msgs.
          let system = first_content ''system'' msgs; user = first_content ''user'' msgs;
              buf = unwrap_or system [] @ [CHR 0xFF] @ unwrap_or user []
          in if system = None \<and> user = None then None
             else Some (fx_hash (take (min (length buf) MAX_PREFIX_BYTES) buf)))
      else if ends_with endpoint ''/completions'' then
        Option.bind (Option.bind (jget ''prompt'' v) as_str) (\<lambda>prompt.
          Some (fx_hash (take (min (length prompt) MAX_PREFIX_BYTES) prompt)))
      else None)"

fun inject_include_usage :: "json \<Rightarrow> json" where
  "inject_include_usage (Object obj) =
     (let opts = (case map_of obj ''stream_options'' of Some (Object opts) \<Rightarrow> opts | _ \<Rightarrow> [])
      in Object (map_insert ''stream_options'' (Object (map_insert ''include_usage'' (Bool True) opts)) obj))"
| "inject_include_usage v = v"

definition trackable :: "string \<Rightarrow> bool" where
  "trackable endpoint \<longleftrightarrow> contains_str endpoint ''chat/completions'' \<or> ends_with endpoint ''/completions''"

definition prepare_body ::
    "(string \<Rightarrow> json option) \<Rightarrow> (json \<Rightarrow> string option) \<Rightarrow> (string \<Rightarrow> 64 word) \<Rightarrow> string \<Rightarrow> string
     \<Rightarrow> string \<times> string option \<times> 64 word option" where
  "prepare_body from_slice to_vec fx_hash endpoint body =
     (if body = [] then (body, None, None)
      else (case from_slice body of
              None \<Rightarrow> (body, None, None)
            | Some v \<Rightarrow>
                let prefix_hash = compute_prefix_hash fx_hash endpoint v;
                    model = Option.bind (jget ''model'' v) as_str;
                    is_stream = unwrap_or (Option.bind (jget ''stream'' v) as_bool) False
                in if is_stream \<and> trackable endpoint
                   then (unwrap_or (to_vec (inject_include_usage v)) body, model, prefix_hash)
                   else (body, model, prefix_hash)))"

section \<open>Conversations\<close>

lemma find_append: "find P (xs @ ys) = (case find P xs of Some x \<Rightarrow> Some x | None \<Rightarrow> find P ys)"
  by (induction xs) auto

lemma first_content_append:
  "find (\<lambda>m. Option.bind (jget ''role'' m) as_str = Some role) msgs \<noteq> None \<Longrightarrow>
     first_content role (msgs @ later) = first_content role msgs"
  by (auto simp: first_content_def find_append split: option.splits)

text \<open>
  The later turns of a conversation keep its prefix: once it has a system and a user message, appended
  messages do not change the hash, nor do fields other than \<open>messages\<close>.
\<close>

lemma prefix_hash_stable:
  assumes "contains_str endpoint ''chat/completions''"
    and "map_of m ''messages'' = Some (Array msgs)" "map_of m' ''messages'' = Some (Array (msgs @ later))"
    and "\<forall>role \<in> {''system'', ''user''}. \<exists>x \<in> set msgs. Option.bind (jget ''role'' x) as_str = Some role"
  shows "compute_prefix_hash fx_hash endpoint (Object m') = compute_prefix_hash fx_hash endpoint (Object m)"
proof -
  have same: "first_content role (msgs @ later) = first_content role msgs" if "role \<in> {''system'', ''user''}" for role
  proof (rule first_content_append)
    from assms(4) that obtain x where "x \<in> set msgs" "Option.bind (jget ''role'' x) as_str = Some role" by blast
    then show "find (\<lambda>m. Option.bind (jget ''role'' m) as_str = Some role) msgs \<noteq> None"
      unfolding find_None_iff by blast
  qed
  show ?thesis
    unfolding compute_prefix_hash_def jget.simps assms(2,3) bind.bind_lunit as_array.simps
      same [of "''system''", OF insertI1] same [of "''user''", OF insertI2 [OF singletonI]]
    by (rule if_cong [OF refl refl]) (use assms(1) in simp)
qed

section \<open>Properties\<close>

text \<open>
  Streaming completions always ask the upstream for the usage chunk, and nothing else of a request is
  changed. A JSON object with \<open>stream: true\<close> sent to a completion endpoint is re-serialized with
  \<open>stream_options.include_usage\<close> set to true, the other stream options and all other fields kept; every
  other body, empty, not JSON, not streaming or for another endpoint, goes out byte for byte. The model is
  the one the body names.
\<close>

theorem include_usage_forced:
  "case prepare_body from_slice to_vec fx_hash endpoint body of (out, model, prefix_hash) \<Rightarrow>
     (if body \<noteq> [] \<and> Option.bind (from_slice body) (jget ''stream'') = Some (Bool True) \<and>
         (contains_str endpoint ''chat/completions'' \<or> ends_with endpoint ''/completions'')
      then (\<exists>m m' opts. from_slice body = Some (Object m) \<and> out = unwrap_or (to_vec (Object m')) body \<and>
              map_of m' = (map_of m)(''stream_options'' \<mapsto> Object opts) \<and>
              map_of opts = (case map_of m ''stream_options'' of
                               Some (Object old) \<Rightarrow> (map_of old)(''include_usage'' \<mapsto> Bool True)
                             | _ \<Rightarrow> [''include_usage'' \<mapsto> Bool True]))
      else out = body) \<and>
     model = (if body = [] then None else Option.bind (Option.bind (from_slice body) (jget ''model'')) as_str)"
proof -
  have stream: "unwrap_or (Option.bind x as_bool) False \<longleftrightarrow> x = Some (Bool True)" for x
    by (cases x; cases "the x") auto
  have obj: "\<exists>m m' opts. v = Object m \<and> inject_include_usage v = Object m' \<and>
      map_of m' = (map_of m)(''stream_options'' \<mapsto> Object opts) \<and>
      map_of opts = (case map_of m ''stream_options'' of
                       Some (Object old) \<Rightarrow> (map_of old)(''include_usage'' \<mapsto> Bool True)
                     | _ \<Rightarrow> [''include_usage'' \<mapsto> Bool True])"
    if "jget ''stream'' v = Some (Bool True)" for v
  proof -
    from that obtain m where v: "v = Object m" by (cases v) auto
    let ?opts = "map_insert ''include_usage'' (Bool True)
      (case map_of m ''stream_options'' of Some (Object opts) \<Rightarrow> opts | _ \<Rightarrow> [])"
    show ?thesis unfolding v
      by (intro exI [of _ m] exI [of _ "map_insert ''stream_options'' (Object ?opts) m"] exI [of _ ?opts])
         (simp add: Let_def split: option.splits json.splits)
  qed
  show ?thesis
  proof (cases "from_slice body")
    case (Some v)
    show ?thesis
    proof (cases "body \<noteq> [] \<and> jget ''stream'' v = Some (Bool True) \<and> trackable endpoint")
      case True
      with obj [of v] obtain m m' opts where "v = Object m" and inj: "inject_include_usage v = Object m'"
        and "map_of m' = (map_of m)(''stream_options'' \<mapsto> Object opts)"
        and "map_of opts = (case map_of m ''stream_options'' of
               Some (Object old) \<Rightarrow> (map_of old)(''include_usage'' \<mapsto> Bool True)
             | _ \<Rightarrow> [''include_usage'' \<mapsto> Bool True])" by blast
      moreover from True Some have "prepare_body from_slice to_vec fx_hash endpoint body =
          (unwrap_or (to_vec (Object m')) body, Option.bind (jget ''model'' v) as_str, compute_prefix_hash fx_hash endpoint v)"
        unfolding inj [symmetric] by (simp add: prepare_body_def stream Let_def)
      ultimately show ?thesis using True Some unfolding trackable_def by auto
    qed (use Some in \<open>auto simp: prepare_body_def stream trackable_def Let_def\<close>)
  qed (simp add: prepare_body_def)
qed

end
