(* ===== verification/Headers.thy ===== *)
theory Headers
  imports Strings Json
begin

text \<open>
  Header filtering of the proxy (\<open>crates/twl-server/src/proxy/headers.rs\<close>). A \<open>HeaderMap\<close> is the list
  of its name-value pairs in iteration order, with the lower-case names the \<open>http\<close> crate keeps;
  \<open>HeaderValue::to_str\<close> is a parameter of the operations that call it.
\<close>

type_synonym header_map = "(string \<times> string) list"

text \<open>\<open>HeaderMap::get\<close>: the first value of a name; \<open>get_all\<close>: all of them.\<close>

definition header_get :: "string \<Rightarrow> header_map \<Rightarrow> string option" where
  "header_get name headers = map_of headers name"

definition header_get_all :: "string \<Rightarrow> header_map \<Rightarrow> string list" where
  "header_get_all name headers = map snd (filter (\<lambda>(n, v). n = name) headers)"

definition SKIP_REQUEST_HEADERS :: "string list" where
  "SKIP_REQUEST_HEADERS =
     [''host'', ''content-length'', ''connection'', ''keep-alive'', ''proxy-authenticate'',
      ''proxy-authorization'', ''te'', ''trailer'', ''transfer-encoding'', ''upgrade'', ''cookie'',
      ''accept-encoding'']"

definition CLIENT_AUTH_HEADERS :: "string list" where
  "CLIENT_AUTH_HEADERS = [''authorization'', ''x-api-key'']"

definition SKIP_RESPONSE_HEADERS :: "string list" where
  "SKIP_RESPONSE_HEADERS =
     [''connection'', ''keep-alive'', ''proxy-authenticate'', ''proxy-authorization'', ''te'',
      ''trailer'', ''transfer-encoding'', ''upgrade'', ''set-cookie'', ''content-length'']"

definition connection_tokens :: "string \<Rightarrow> string list" where
  "connection_tokens s =
     map to_ascii_lowercase (filter (\<lambda>t. t \<noteq> []) (map trim (split_on (CHR '','') s)))"

definition connection_header_names :: "(string \<Rightarrow> string option) \<Rightarrow> header_map \<Rightarrow> string list" where
  "connection_header_names to_str headers =
     concat (map (\<lambda>val. case to_str val of Some s \<Rightarrow> connection_tokens s | None \<Rightarrow> [])
                 (header_get_all ''connection'' headers))"

definition skip_headers ::
    "(string \<Rightarrow> string option) \<Rightarrow> bool \<Rightarrow> header_map \<Rightarrow> string list \<Rightarrow> header_map" where
  "skip_headers to_str req headers extra_skip =
     (let dynamic = connection_header_names to_str headers;
          skip = (if req then SKIP_REQUEST_HEADERS else SKIP_RESPONSE_HEADERS)
      in filter (\<lambda>(name, value).
           \<not> (name \<in> set skip \<or> to_ascii_lowercase name \<in> set dynamic \<or> name \<in> set extra_skip)) headers)"

text \<open>The headers added to the upstream request, in the order they are added.\<close>

definition forward_request_headers ::
    "(string \<Rightarrow> string option) \<Rightarrow> header_map \<Rightarrow> bool \<Rightarrow> header_map" where
  "forward_request_headers to_str headers strip_client_auth =
     skip_headers to_str True headers (if strip_client_auth then CLIENT_AUTH_HEADERS else [])
       @ [(''accept-encoding'', ''identity'')]"

text \<open>A document type a browser would run in the dashboard's origin.\<close>

definition active_html :: "(string \<Rightarrow> string option) \<Rightarrow> header_map \<Rightarrow> bool" where
  "active_html to_str headers =
     (case Option.bind (header_get ''content-type'' headers) to_str of
        None \<Rightarrow> False
      | Some value \<Rightarrow>
          (let mime = trim (hd (split_on (CHR '';'') value))
           in eq_ignore_ascii_case mime ''text/html'' \<or>
              eq_ignore_ascii_case mime ''application/xhtml+xml'' \<or>
              eq_ignore_ascii_case mime ''image/svg+xml''))"

definition SANDBOX_POLICY :: string where
  "SANDBOX_POLICY = ''sandbox; default-src '' @ [CHR 0x27] @ ''none'' @ [CHR 0x27] @ ''; base-uri '' @
     [CHR 0x27] @ ''none'' @ [CHR 0x27] @ ''; form-action '' @ [CHR 0x27] @ ''none'' @ [CHR 0x27]"

definition HTML_OVERRIDES :: "string list" where
  "HTML_OVERRIDES = [''content-disposition'', ''content-security-policy'',
     ''content-security-policy-report-only'', ''x-content-type-options'']"

definition forward_response_headers :: "(string \<Rightarrow> string option) \<Rightarrow> header_map \<Rightarrow> header_map" where
  "forward_response_headers to_str headers =
     (if active_html to_str headers
      then skip_headers to_str False headers HTML_OVERRIDES @
           [(''content-security-policy'', SANDBOX_POLICY),
            (''x-content-type-options'', ''nosniff''),
            (''content-disposition'', ''attachment'')]
      else skip_headers to_str False headers [])"

section \<open>Lemmas\<close>

lemma skip_headers_mem:
  "(n, v) \<in> set (skip_headers to_str req headers extra) \<longleftrightarrow>
     (n, v) \<in> set headers \<and> n \<notin> set (if req then SKIP_REQUEST_HEADERS else SKIP_RESPONSE_HEADERS) \<and>
     to_ascii_lowercase n \<notin> set (connection_header_names to_str headers) \<and> n \<notin> set extra"
  by (auto simp: skip_headers_def Let_def)

section \<open>Properties\<close>



end
