(* ===== verification/Types.thy ===== *)
theory Types
  imports F64
begin

text \<open>
  The records that cross crate boundaries (\<open>crates/twl-types/src/lib.rs\<close>): the usage of one request
  and the aggregates the statistics queries return. Token and request counts are \<open>i64\<close>.
\<close>

record usage =
  u_model :: string
  u_endpoint :: string
  u_input_tokens :: int
  u_output_tokens :: int
  u_cached_tokens :: int
  u_total_tokens :: int
  u_api_key_id :: "int option"

record model_stats =
  ms_model :: string
  ms_requests :: int
  ms_input_tokens :: int
  ms_output_tokens :: int
  ms_cached_tokens :: int
  ms_total_tokens :: int

record key_stats =
  ks_api_key_id :: "int option"
  ks_label :: string
  ks_requests :: int
  ks_input_tokens :: int
  ks_output_tokens :: int
  ks_cached_tokens :: int
  ks_total_tokens :: int

record daily_stats =
  ds_day :: string
  ds_model :: string
  ds_requests :: int
  ds_input_tokens :: int
  ds_output_tokens :: int
  ds_cached_tokens :: int
  ds_total_tokens :: int

record energy_record =
  er_elapsed_secs :: f64
  er_gpu_watts :: f64

record daily_energy =
  de_day :: string
  de_kwh :: f64

record today_bucket =
  tb_bucket :: nat
  tb_input_tokens :: int
  tb_output_tokens :: int
  tb_cached_tokens :: int
  tb_requests :: int

text \<open>
  What every consumer of a usage record may rely on: counts are non-negative 64-bit integers and the
  cached tokens are a part of the input tokens.
\<close>

definition usage_ok :: "usage \<Rightarrow> bool" where
  "usage_ok u \<longleftrightarrow>
     0 \<le> u_cached_tokens u \<and> u_cached_tokens u \<le> u_input_tokens u \<and> u_input_tokens u \<le> i64_max \<and>
     0 \<le> u_output_tokens u \<and> u_output_tokens u \<le> i64_max \<and>
     0 \<le> u_total_tokens u \<and> u_total_tokens u \<le> i64_max"

end
