(* ===== verification/Identity.thy ===== *)
theory Identity
  imports Types Strings
begin

text \<open>
  The identity store (\<open>crates/twl-store/src/identity.rs\<close>, \<open>schema.sql\<close>, \<open>DbError\<close> of \<open>db.rs\<close>): the
  tables \<open>users\<close>, \<open>api_keys\<close> and \<open>api_key_attribution\<close> as lists of rows in \<open>rowid\<close> order, the
  sequences of their \<open>AUTOINCREMENT\<close> keys, and every operation of \<open>IdentityStore\<close> with the
  constraints the schema declares: \<open>UNIQUE\<close>, foreign keys, \<open>ON DELETE CASCADE\<close>. A transaction that
  fails leaves the tables as they were. I/O failures of SQLite are not modelled.
\<close>

section \<open>Tables\<close>

record user_row =
  us_id :: int
  us_username :: string
  us_password_hash :: string
  us_is_admin :: bool
  us_created_ts :: int

record key_row =
  kr_id :: int
  kr_user_id :: int
  kr_name :: "string option"
  kr_key_hash :: string
  kr_prefix :: string
  kr_created_ts :: int

record attribution_row =
  at_api_key_id :: int
  at_user_id :: int
  at_name :: "string option"
  at_prefix :: string

record database =
  db_users :: "user_row list"
  db_user_seq :: int
  db_keys :: "key_row list"
  db_key_seq :: int
  db_attribution :: "attribution_row list"

record api_key_row =
  ak_id :: int
  ak_name :: "string option"
  ak_prefix :: string
  ak_created_ts :: int

record user_list_row =
  ul_id :: int
  ul_username :: string
  ul_is_admin :: bool
  ul_created_ts :: int

datatype db_error = UniqueViolation | Clock | Pool string | Sqlite string

datatype delete_user_outcome = Deleted | UserNotFound | LastAdminKept

section \<open>Operations\<close>

definition count_users :: "database \<Rightarrow> int" where
  "count_users db = int (length (db_users db))"

definition get_user :: "string \<Rightarrow> database \<Rightarrow> user_row option" where
  "get_user username db = find (\<lambda>u. us_username u = username) (db_users db)"

definition get_user_by_id :: "int \<Rightarrow> database \<Rightarrow> user_row option" where
  "get_user_by_id i db = find (\<lambda>u. us_id u = i) (db_users db)"

text \<open>\<open>clock\<close> is \<open>now_unix_secs()\<close>: \<open>None\<close> when the system clock is before 1970.\<close>

definition create_user_row ::
    "int option \<Rightarrow> string \<Rightarrow> string \<Rightarrow> bool \<Rightarrow> database \<Rightarrow> (db_error + int) \<times> database" where
  "create_user_row clock username password_hash is_admin db =
     (case clock of
        None \<Rightarrow> (Inl Clock, db)
      | Some ts \<Rightarrow>
          if db_user_seq db = i64_max then (Inl (Sqlite ''database or disk is full''), db)
          else if (\<exists>u \<in> set (db_users db). us_username u = username) then (Inl UniqueViolation, db)
          else (let i = db_user_seq db + 1
                in (Inr i, db\<lparr>db_users := db_users db @ [\<lparr>us_id = i, us_username = username,
                                us_password_hash = password_hash, us_is_admin = is_admin, us_created_ts = ts\<rparr>],
                              db_user_seq := i\<rparr>)))"

definition insert_api_key ::
    "int option \<Rightarrow> int \<Rightarrow> string option \<Rightarrow> string \<Rightarrow> string \<Rightarrow> database \<Rightarrow> (db_error + int) \<times> database" where
  "insert_api_key clock user_id name key_hash prefix db =
     (case clock of
        None \<Rightarrow> (Inl Clock, db)
      | Some ts \<Rightarrow>
          if db_key_seq db = i64_max then (Inl (Sqlite ''database or disk is full''), db)
          else if (\<exists>k \<in> set (db_keys db). kr_key_hash k = key_hash) then (Inl UniqueViolation, db)
          else if \<not> (\<exists>u \<in> set (db_users db). us_id u = user_id)
          then (Inl (Sqlite ''FOREIGN KEY constraint failed''), db)
          else (let i = db_key_seq db + 1
                in if (\<exists>a \<in> set (db_attribution db). at_api_key_id a = i)
                   then (Inl (Sqlite ''PRIMARY KEY constraint failed''), db)
                   else (Inr i, db\<lparr>db_keys := db_keys db @ [\<lparr>kr_id = i, kr_user_id = user_id, kr_name = name,
                                     kr_key_hash = key_hash, kr_prefix = prefix, kr_created_ts = ts\<rparr>],
                                   db_key_seq := i,
                                   db_attribution := db_attribution db @ [\<lparr>at_api_key_id = i,
                                     at_user_id = user_id, at_name = name, at_prefix = prefix\<rparr>]\<rparr>)))"

text \<open>\<open>ORDER BY\<close> leaves the order of equal keys open: the sorting is a parameter.\<close>

definition list_api_keys ::
    "((key_row \<Rightarrow> int) \<Rightarrow> key_row list \<Rightarrow> key_row list) \<Rightarrow> int \<Rightarrow> database \<Rightarrow> api_key_row list" where
  "list_api_keys order_by user_id db =
     map (\<lambda>k. \<lparr>ak_id = kr_id k, ak_name = kr_name k, ak_prefix = kr_prefix k, ak_created_ts = kr_created_ts k\<rparr>)
       (order_by (\<lambda>k. - kr_created_ts k) (filter (\<lambda>k. kr_user_id k = user_id) (db_keys db)))"

definition list_users ::
    "((user_row \<Rightarrow> int) \<Rightarrow> user_row list \<Rightarrow> user_row list) \<Rightarrow> database \<Rightarrow> user_list_row list" where
  "list_users order_by db =
     map (\<lambda>u. \<lparr>ul_id = us_id u, ul_username = us_username u, ul_is_admin = us_is_admin u,
               ul_created_ts = us_created_ts u\<rparr>)
       (order_by us_created_ts (db_users db))"

definition update_where :: "(user_row \<Rightarrow> bool) \<Rightarrow> string \<Rightarrow> database \<Rightarrow> nat \<times> database" where
  "update_where P password_hash db =
     (length (filter P (db_users db)),
      db\<lparr>db_users := map (\<lambda>u. if P u then u\<lparr>us_password_hash := password_hash\<rparr> else u) (db_users db)\<rparr>)"

definition update_password :: "int \<Rightarrow> string \<Rightarrow> database \<Rightarrow> nat \<times> database" where
  "update_password i password_hash db = update_where (\<lambda>u. us_id u = i) password_hash db"

definition delete_api_keys_for_user :: "int \<Rightarrow> database \<Rightarrow> nat \<times> database" where
  "delete_api_keys_for_user user_id db =
     (length (filter (\<lambda>k. kr_user_id k = user_id) (db_keys db)),
      db\<lparr>db_keys := filter (\<lambda>k. kr_user_id k \<noteq> user_id) (db_keys db)\<rparr>)"

definition replace_password_and_revoke_keys :: "int \<Rightarrow> string \<Rightarrow> database \<Rightarrow> nat \<times> database" where
  "replace_password_and_revoke_keys i password_hash db =
     (case update_where (\<lambda>u. us_id u = i) password_hash db of (updated, db1) \<Rightarrow>
        (updated, snd (delete_api_keys_for_user i db1)))"

definition compare_and_swap_password_and_revoke_keys ::
    "int \<Rightarrow> string \<Rightarrow> string \<Rightarrow> database \<Rightarrow> nat \<times> database" where
  "compare_and_swap_password_and_revoke_keys i expected_password_hash password_hash db =
     (case update_where (\<lambda>u. us_id u = i \<and> us_password_hash u = expected_password_hash) password_hash db of
        (updated, db1) \<Rightarrow>
          (updated, if updated = 1 then snd (delete_api_keys_for_user i db1) else db1))"

text \<open>The cascade of \<open>api_key_attribution\<close> is part of deleting a user row.\<close>

definition delete_user_guarded :: "int \<Rightarrow> database \<Rightarrow> delete_user_outcome \<times> database" where
  "delete_user_guarded i db =
     (case map_option us_is_admin (get_user_by_id i db) of
        None \<Rightarrow> (UserNotFound, db)
      | Some is_admin \<Rightarrow>
          if is_admin \<and> length (filter us_is_admin (db_users db)) \<le> 1 then (LastAdminKept, db)
          else (Deleted, (snd (delete_api_keys_for_user i db))\<lparr>
                  db_users := filter (\<lambda>u. us_id u \<noteq> i) (db_users db),
                  db_attribution := filter (\<lambda>a. at_user_id a \<noteq> i) (db_attribution db)\<rparr>))"

definition delete_api_key :: "int \<Rightarrow> int \<Rightarrow> database \<Rightarrow> nat \<times> database" where
  "delete_api_key i user_id db =
     (length (filter (\<lambda>k. kr_id k = i \<and> kr_user_id k = user_id) (db_keys db)),
      db\<lparr>db_keys := filter (\<lambda>k. \<not> (kr_id k = i \<and> kr_user_id k = user_id)) (db_keys db)\<rparr>)"

definition key_owner :: "string \<Rightarrow> database \<Rightarrow> (key_row \<times> user_row) option" where
  "key_owner key_hash db =
     find_map (\<lambda>k. if kr_key_hash k = key_hash
                   then map_option (Pair k) (find (\<lambda>u. us_id u = kr_user_id k) (db_users db)) else None)
       (db_keys db)"

definition get_api_key_user :: "string \<Rightarrow> database \<Rightarrow> user_row option" where
  "get_api_key_user key_hash db = map_option snd (key_owner key_hash db)"

definition get_api_key_id :: "string \<Rightarrow> database \<Rightarrow> (int \<times> int) option" where
  "get_api_key_id key_hash db = map_option (\<lambda>(k, u). (kr_id k, kr_user_id k)) (key_owner key_hash db)"

section \<open>Invariant\<close>

definition db_inv :: "database \<Rightarrow> bool" where
  "db_inv db \<longleftrightarrow>
     distinct (map us_id (db_users db)) \<and> distinct (map us_username (db_users db)) \<and>
     distinct (map kr_id (db_keys db)) \<and> distinct (map kr_key_hash (db_keys db)) \<and>
     distinct (map at_api_key_id (db_attribution db)) \<and>
     (\<forall>u \<in> set (db_users db). us_id u \<le> db_user_seq db) \<and>
     (\<forall>k \<in> set (db_keys db). kr_id k \<le> db_key_seq db \<and> kr_user_id k \<in> us_id ` set (db_users db)) \<and>
     (\<forall>a \<in> set (db_attribution db). at_api_key_id a \<le> db_key_seq db \<and> at_user_id a \<in> us_id ` set (db_users db))"

definition db_empty :: database where
  "db_empty = \<lparr>db_users = [], db_user_seq = 0, db_keys = [], db_key_seq = 0, db_attribution = []\<rparr>"

definition admins :: "database \<Rightarrow> user_row list" where
  "admins db = filter us_is_admin (db_users db)"

lemma db_inv_empty: "db_inv db_empty"
  by (simp add: db_inv_def db_empty_def)

lemma create_user_row_inv:
  assumes "db_inv db"
  shows "db_inv (snd (create_user_row clock username hash adm db))"
proof -
  have "db_user_seq db + 1 \<notin> us_id ` set (db_users db)"
    using assms by (force simp: db_inv_def)
  with assms show ?thesis
    by (auto simp: create_user_row_def Let_def db_inv_def split: option.splits)
qed

lemma insert_api_key_inv:
  assumes "db_inv db"
  shows "db_inv (snd (insert_api_key clock user_id name key_hash prefix db))"
proof -
  have "db_key_seq db + 1 \<notin> kr_id ` set (db_keys db)"
    using assms by (force simp: db_inv_def)
  with assms show ?thesis
    by (auto simp: insert_api_key_def Let_def db_inv_def split: option.splits)
qed

lemma update_where_rows:
  "map us_id (db_users (snd (update_where P h db))) = map us_id (db_users db)"
  "map us_username (db_users (snd (update_where P h db))) = map us_username (db_users db)"
  "admins (snd (update_where P h db)) = map (\<lambda>u. if P u then u\<lparr>us_password_hash := h\<rparr> else u) (admins db)"
  "db_keys (snd (update_where P h db)) = db_keys db"
  "db_attribution (snd (update_where P h db)) = db_attribution db"
  "db_user_seq (snd (update_where P h db)) = db_user_seq db"
  "db_key_seq (snd (update_where P h db)) = db_key_seq db"
  by (auto simp: update_where_def admins_def filter_map comp_def intro: filter_cong)

lemma update_where_ids: "us_id ` set (db_users (snd (update_where P h db))) = us_id ` set (db_users db)"
  by (metis list.set_map update_where_rows(1))

lemma update_where_inv:
  assumes "db_inv db"
  shows "db_inv (snd (update_where P h db))"
proof -
  have "\<forall>u \<in> set (db_users (snd (update_where P h db))). us_id u \<le> db_user_seq db"
    using assms update_where_ids [of P h db] unfolding db_inv_def by (metis image_eqI image_iff)
  with assms show ?thesis
    unfolding db_inv_def update_where_rows update_where_ids by blast
qed

lemma delete_keys_inv: "db_inv db \<Longrightarrow> db_inv (snd (delete_api_keys_for_user i db))"
  by (auto simp: db_inv_def delete_api_keys_for_user_def intro: distinct_map_filter)

lemma replace_password_inv: "db_inv db \<Longrightarrow> db_inv (snd (replace_password_and_revoke_keys i h db))"
  using delete_keys_inv [OF update_where_inv]
  by (simp add: replace_password_and_revoke_keys_def split: prod.splits) (metis snd_conv)

lemma cas_password_inv: "db_inv db \<Longrightarrow> db_inv (snd (compare_and_swap_password_and_revoke_keys i e h db))"
  using delete_keys_inv [OF update_where_inv] update_where_inv
  by (simp add: compare_and_swap_password_and_revoke_keys_def split: prod.splits) (metis snd_conv)

lemma delete_api_key_inv: "db_inv db \<Longrightarrow> db_inv (snd (delete_api_key i u db))"
  by (auto simp: db_inv_def delete_api_key_def intro: distinct_map_filter)

lemma delete_user_guarded_inv: "db_inv db \<Longrightarrow> db_inv (snd (delete_user_guarded i db))"
  by (auto simp: db_inv_def delete_user_guarded_def delete_api_keys_for_user_def
        intro: distinct_map_filter split: option.splits)

end
