(* ===== verification/Accounts.thy ===== *)
theory Accounts
  imports Identity Headers
begin

text \<open>
  Account management and client API keys (\<open>crates/twl-auth/src\<close>): the password policy, bearer
  credentials, key generation, the operations of \<open>accounts.rs\<close> over the identity store, and the
  validation of client keys of \<open>apikey.rs\<close>. Argon2, SHA-256 and the random source are parameters. The
  two halves of \<open>change_password\<close> are separate steps, since other requests may run between the
  verification of the old password and the compare-and-swap.
\<close>

section \<open>Credentials\<close>

definition MIN_PASSWORD_CHARACTERS :: nat where
  "MIN_PASSWORD_CHARACTERS = 8"

definition password_has_minimum_length :: "string \<Rightarrow> bool" where
  "password_has_minimum_length password \<longleftrightarrow> chars_count password \<ge> MIN_PASSWORD_CHARACTERS"

definition parse_bearer_credentials :: "string \<Rightarrow> string option" where
  "parse_bearer_credentials value0 =
     (let value = trim_end_matches {CHR '' '', CHR 0x09} value0
      in case split_once (CHR '' '') value of
           None \<Rightarrow> None
         | Some (scheme, credentials0) \<Rightarrow>
             if \<not> eq_ignore_ascii_case scheme ''Bearer'' then None
             else (let credentials = trim_start_matches {CHR '' ''} credentials0
                   in if credentials = [] \<or> (\<exists>c \<in> set credentials. is_ascii_whitespace c) then None
                      else Some credentials))"

record auth_user =
  au_id :: int
  au_username :: string
  au_is_admin :: bool

text \<open>\<open>random\<close> is the sample of 32 alphanumeric characters.\<close>

definition generate_api_key :: "(string \<Rightarrow> string) \<Rightarrow> string \<Rightarrow> string \<times> string \<times> string" where
  "generate_api_key sha256_hex random =
     (let key = ''twl_'' @ random in (key, sha256_hex key, take 10 key))"

section \<open>Account operations\<close>

datatype account_error =
    InvalidUsername | WeakPassword | UsernameTaken | NotFound | LastAdmin | WrongPassword
  | ConcurrentPasswordChange | Db db_error | Internal string

definition is_ascii_alphanumeric :: "char \<Rightarrow> bool" where
  "is_ascii_alphanumeric c \<longleftrightarrow> 48 \<le> byte c \<and> byte c \<le> 57 \<or> 65 \<le> byte c \<and> byte c \<le> 90 \<or> 97 \<le> byte c \<and> byte c \<le> 122"

definition username_ok :: "string \<Rightarrow> bool" where
  "username_ok username \<longleftrightarrow>
     \<not> (username = [] \<or> length username > 64 \<or>
        \<not> (\<forall>c \<in> set username. is_ascii_alphanumeric c \<or> c = CHR ''.'' \<or> c = CHR ''-'' \<or> c = CHR ''_''))"

definition create_user ::
    "int option \<Rightarrow> (string \<Rightarrow> string + string) \<Rightarrow> string \<Rightarrow> string \<Rightarrow> bool \<Rightarrow> database
     \<Rightarrow> (account_error + int) \<times> database" where
  "create_user clock hash_password username password is_admin db =
     (if \<not> username_ok username then (Inl InvalidUsername, db)
      else if \<not> password_has_minimum_length password then (Inl WeakPassword, db)
      else (case hash_password password of
              Inl e \<Rightarrow> (Inl (Internal (''password hashing failed: '' @ e)), db)
            | Inr hash \<Rightarrow>
                (case create_user_row clock username hash is_admin db of
                   (Inr i, db') \<Rightarrow> (Inr i, db')
                 | (Inl UniqueViolation, db') \<Rightarrow> (Inl UsernameTaken, db')
                 | (Inl e, db') \<Rightarrow> (Inl (Db e), db'))))"

definition create_api_key ::
    "int option \<Rightarrow> (string \<Rightarrow> string) \<Rightarrow> string \<Rightarrow> int \<Rightarrow> string option \<Rightarrow> database
     \<Rightarrow> (account_error + int \<times> string) \<times> database" where
  "create_api_key clock sha256_hex random user_id name db =
     (case generate_api_key sha256_hex random of (raw_key, key_hash, prefix) \<Rightarrow>
        (case insert_api_key clock user_id name key_hash prefix db of
           (Inr i, db') \<Rightarrow> (Inr (i, raw_key), db')
         | (Inl e, db') \<Rightarrow> (Inl (Db e), db')))"

definition delete_user :: "int \<Rightarrow> database \<Rightarrow> (account_error + unit) \<times> database" where
  "delete_user target_id db =
     (case delete_user_guarded target_id db of
        (Deleted, db') \<Rightarrow> (Inr (), db')
      | (UserNotFound, db') \<Rightarrow> (Inl NotFound, db')
      | (LastAdminKept, db') \<Rightarrow> (Inl LastAdmin, db'))"

definition update_result :: "account_error \<Rightarrow> nat \<Rightarrow> account_error + unit" where
  "update_result none n_rows =
     (if n_rows = 1 then Inr () else if n_rows = 0 then Inl none else Inl (Internal ''password update affected several users''))"

definition reset_password ::
    "(string \<Rightarrow> string + string) \<Rightarrow> int \<Rightarrow> string \<Rightarrow> database \<Rightarrow> (account_error + unit) \<times> database" where
  "reset_password hash_password target_id new_password db =
     (if \<not> password_has_minimum_length new_password then (Inl WeakPassword, db)
      else (case get_user_by_id target_id db of
              None \<Rightarrow> (Inl NotFound, db)
            | Some _ \<Rightarrow>
                (case hash_password new_password of
                   Inl e \<Rightarrow> (Inl (Internal (''password hashing failed: '' @ e)), db)
                 | Inr hash \<Rightarrow>
                     (case replace_password_and_revoke_keys target_id hash db of (n_rows, db') \<Rightarrow>
                        (update_result NotFound n_rows, db')))))"

text \<open>Up to the compare-and-swap: an error, or the hash that was verified and the new one.\<close>

definition change_password_verify ::
    "(string \<Rightarrow> string + string) \<Rightarrow> (string \<Rightarrow> string \<Rightarrow> string + bool) \<Rightarrow> int \<Rightarrow> string \<Rightarrow> string \<Rightarrow> database
     \<Rightarrow> account_error + string \<times> string" where
  "change_password_verify hash_password verify_password user_id old_password new_password db =
     (if \<not> password_has_minimum_length new_password then Inl WeakPassword
      else (case get_user_by_id user_id db of
              None \<Rightarrow> Inl (Internal ''authenticated user not found in database'')
            | Some row \<Rightarrow>
                (case verify_password old_password (us_password_hash row) of
                   Inl e \<Rightarrow> Inl (Internal (''password verification failed: '' @ e))
                 | Inr False \<Rightarrow> Inl WrongPassword
                 | Inr True \<Rightarrow>
                     (case hash_password new_password of
                        Inl e \<Rightarrow> Inl (Internal (''password hashing failed: '' @ e))
                      | Inr hash \<Rightarrow> Inr (us_password_hash row, hash)))))"

definition change_password_commit ::
    "int \<Rightarrow> string \<times> string \<Rightarrow> database \<Rightarrow> (account_error + unit) \<times> database" where
  "change_password_commit user_id hashes db =
     (case compare_and_swap_password_and_revoke_keys user_id (fst hashes) (snd hashes) db of (n_rows, db') \<Rightarrow>
        (update_result ConcurrentPasswordChange n_rows, db'))"

text \<open>\<open>change_password\<close>, with \<open>meanwhile\<close> what other requests do to the tables in between.\<close>

definition change_password ::
    "(string \<Rightarrow> string + string) \<Rightarrow> (string \<Rightarrow> string \<Rightarrow> string + bool) \<Rightarrow> (database \<Rightarrow> database)
     \<Rightarrow> int \<Rightarrow> string \<Rightarrow> string \<Rightarrow> database \<Rightarrow> (account_error + unit) \<times> database" where
  "change_password hash_password verify_password meanwhile user_id old_password new_password db =
     (case change_password_verify hash_password verify_password user_id old_password new_password db of
        Inl e \<Rightarrow> (Inl e, db)
      | Inr hashes \<Rightarrow> change_password_commit user_id hashes (meanwhile db))"

section \<open>Client keys\<close>

record validated_key =
  vk_key_id :: int
  vk_user_id :: int

datatype client_key_result = NotPresent | Invalid | KeyError string | Valid validated_key

definition extract_client_key :: "(string \<Rightarrow> string option) \<Rightarrow> header_map \<Rightarrow> string option" where
  "extract_client_key to_str headers =
     or_else
       (case Option.bind (header_get ''authorization'' headers) to_str of
          None \<Rightarrow> None
        | Some auth_val \<Rightarrow> opt_filter (\<lambda>token. starts_with token ''twl_'') (parse_bearer_credentials auth_val))
       (case Option.bind (header_get ''x-api-key'' headers) to_str of
          None \<Rightarrow> None
        | Some key_val \<Rightarrow> map_option (\<lambda>token. ''twl_'' @ token) (strip_prefix ''twl_'' key_val))"

text \<open>\<open>lookup\<close> is the outcome of the blocking task: a lookup in the store, or its failure.\<close>

definition extract_and_validate_client_key ::
    "(string \<Rightarrow> string option) \<Rightarrow> (string \<Rightarrow> string) \<Rightarrow> (string \<Rightarrow> string + (int \<times> int) option) \<Rightarrow> header_map
     \<Rightarrow> client_key_result" where
  "extract_and_validate_client_key to_str sha256_hex lookup headers =
     (case extract_client_key to_str headers of
        None \<Rightarrow> NotPresent
      | Some raw_key \<Rightarrow>
          (case lookup (sha256_hex raw_key) of
             Inr (Some (key_id, user_id)) \<Rightarrow> Valid \<lparr>vk_key_id = key_id, vk_user_id = user_id\<rparr>
           | Inr None \<Rightarrow> Invalid
           | Inl e \<Rightarrow> KeyError e))"

section \<open>Bearer credentials\<close>

lemma trim_end_matches_split:
  "\<exists>tail. v = trim_end_matches cs v @ tail \<and> set tail \<subseteq> cs"
proof -
  have "rev v = takeWhile (\<lambda>c. c \<in> cs) (rev v) @ dropWhile (\<lambda>c. c \<in> cs) (rev v)" by simp
  then have "v = trim_end_matches cs v @ rev (takeWhile (\<lambda>c. c \<in> cs) (rev v))"
    unfolding trim_end_matches_def by (metis rev_append rev_rev_ident)
  moreover have "set (rev (takeWhile (\<lambda>c. c \<in> cs) (rev v))) \<subseteq> cs" by (auto dest: set_takeWhileD)
  ultimately show ?thesis by blast
qed

lemma trim_end_matches_append:
  assumes "set tail \<subseteq> cs" "v = [] \<or> last v \<notin> cs"
  shows "trim_end_matches cs (v @ tail) = v"
proof -
  have "dropWhile (\<lambda>c. c \<in> cs) (rev tail @ rev v) = dropWhile (\<lambda>c. c \<in> cs) (rev v)"
    using assms(1) by (intro dropWhile_append2) auto
  also have "\<dots> = rev v" using assms(2) by (cases "rev v") (auto simp: rev_eq_Cons_iff)
  finally show ?thesis by (simp add: trim_end_matches_def)
qed

lemma bearer_no_space: "eq_ignore_ascii_case scheme ''Bearer'' \<Longrightarrow> CHR '' '' \<notin> set scheme"
proof
  assume eq: "eq_ignore_ascii_case scheme ''Bearer''" and sp: "CHR '' '' \<in> set scheme"
  have "to_ascii_lower (CHR '' '') = CHR '' ''" by (simp add: to_ascii_lower_def byte_def)
  with sp have "CHR '' '' \<in> set (to_ascii_lowercase scheme)"
    unfolding to_ascii_lowercase_def by (metis image_eqI list.set_map)
  then have "CHR '' '' \<in> set (to_ascii_lowercase ''Bearer'')" using eq by (simp add: eq_ignore_ascii_case_def)
  then show False by (simp add: to_ascii_lowercase_def to_ascii_lower_def byte_def char_of_def)
qed

definition bearer_value :: "string \<Rightarrow> string \<Rightarrow> bool" where
  "bearer_value value credentials \<longleftrightarrow>
     (\<exists>scheme n tail. value = scheme @ replicate (Suc n) (CHR '' '') @ credentials @ tail \<and>
        eq_ignore_ascii_case scheme ''Bearer'' \<and> set tail \<subseteq> {CHR '' '', CHR 0x09} \<and>
        credentials \<noteq> [] \<and> (\<forall>c \<in> set credentials. \<not> is_ascii_whitespace c))"

lemma dropWhile_spaces: "\<exists>n. s = replicate n (CHR '' '') @ dropWhile (\<lambda>c. c \<in> {CHR '' ''}) s"
proof -
  have "takeWhile (\<lambda>c. c \<in> {CHR '' ''}) s = replicate (length (takeWhile (\<lambda>c. c \<in> {CHR '' ''}) s)) (CHR '' '')"
    by (metis (no_types, lifting) replicate_length_same set_takeWhileD singletonD)
  then show ?thesis by (metis takeWhile_dropWhile_id)
qed

lemma parse_bearer_sound: "parse_bearer_credentials v = Some c \<Longrightarrow> bearer_value v c"
proof -
  let ?ws = "{CHR '' '', CHR 0x09}"
  assume p: "parse_bearer_credentials v = Some c"
  obtain tail where tail: "v = trim_end_matches ?ws v @ tail" "set tail \<subseteq> ?ws"
    using trim_end_matches_split by blast
  from p obtain scheme rest where s: "split_once (CHR '' '') (trim_end_matches ?ws v) = Some (scheme, rest)"
    and eq: "eq_ignore_ascii_case scheme ''Bearer''" and c: "c = trim_start_matches {CHR '' ''} rest"
    and ne: "c \<noteq> []" and ws: "\<forall>x \<in> set c. \<not> is_ascii_whitespace x"
    by (auto simp: parse_bearer_credentials_def Let_def split: option.splits if_splits)
  obtain n where "rest = replicate n (CHR '' '') @ c"
    using dropWhile_spaces [of rest] c by (auto simp: trim_start_matches_def)
  moreover have "trim_end_matches ?ws v = scheme @ CHR '' '' # rest" using s by (simp add: split_once_Some)
  ultimately have "v = scheme @ replicate (Suc n) (CHR '' '') @ c @ tail" using tail(1) by simp
  with eq tail(2) ne ws show ?thesis unfolding bearer_value_def by blast
qed

lemma parse_bearer_complete: "bearer_value v c \<Longrightarrow> parse_bearer_credentials v = Some c"
proof -
  let ?ws = "{CHR '' '', CHR 0x09}"
  assume "bearer_value v c"
  then obtain scheme n tail where v: "v = scheme @ replicate (Suc n) (CHR '' '') @ c @ tail"
    and eq: "eq_ignore_ascii_case scheme ''Bearer''" and tail: "set tail \<subseteq> ?ws"
    and ne: "c \<noteq> []" and ws: "\<forall>x \<in> set c. \<not> is_ascii_whitespace x"
    by (auto simp: bearer_value_def)
  have sp: "CHR '' '' \<notin> set c" "CHR 0x09 \<notin> set c" using ws by (auto simp: is_ascii_whitespace_def byte_def)
  then have "last c \<notin> ?ws" using ne last_in_set by fastforce
  then have trim: "trim_end_matches ?ws v = scheme @ CHR '' '' # (replicate n (CHR '' '') @ c)"
    using trim_end_matches_append [OF tail, of "scheme @ replicate (Suc n) (CHR '' '') @ c"] ne by (simp add: v)
  have "split_once (CHR '' '') (scheme @ CHR '' '' # (replicate n (CHR '' '') @ c)) =
      Some (scheme, replicate n (CHR '' '') @ c)"
    using bearer_no_space [OF eq] by (simp add: split_once_Some)
  moreover have "trim_start_matches {CHR '' ''} (replicate n (CHR '' '') @ c) = c"
    using ne sp(1) by (cases c) (auto simp: trim_start_matches_def dropWhile_append)
  ultimately show ?thesis
    using eq ne ws by (simp add: parse_bearer_credentials_def Let_def trim)
qed

section \<open>Sequences of account operations\<close>

text \<open>One request of the account handlers. A password change is two steps.\<close>

datatype account_step =
    CreateUser "int option" string string bool
  | CreateKey "int option" string int "string option"
  | DeleteUser int
  | DeleteKey int int
  | ResetPassword int string
  | CommitPassword int "string \<times> string"

fun account_exec :: "(string \<Rightarrow> string + string) \<Rightarrow> (string \<Rightarrow> string) \<Rightarrow> database \<Rightarrow> account_step \<Rightarrow> database" where
  "account_exec hash sha db (CreateUser clock name password adm) = snd (create_user clock hash name password adm db)"
| "account_exec hash sha db (CreateKey clock random user name) = snd (create_api_key clock sha random user name db)"
| "account_exec hash sha db (DeleteUser i) = snd (delete_user i db)"
| "account_exec hash sha db (DeleteKey i user) = snd (delete_api_key i user db)"
| "account_exec hash sha db (ResetPassword i password) = snd (reset_password hash i password db)"
| "account_exec hash sha db (CommitPassword i hashes) = snd (change_password_commit i hashes db)"

lemma create_user_db: "snd (create_user clock hash name password adm db) \<in> {db} \<union>
    {snd (create_user_row clock name h adm db) | h. True}"
  by (auto simp: create_user_def split: prod.splits sum.splits db_error.splits) (metis snd_conv)+

lemma create_api_key_db: "snd (create_api_key clock sha random user name db) =
    snd (insert_api_key clock user name (sha (''twl_'' @ random)) (take 10 (''twl_'' @ random)) db)"
  by (simp add: create_api_key_def generate_api_key_def Let_def split: prod.splits sum.splits)

lemma delete_user_db: "snd (delete_user i db) = snd (delete_user_guarded i db)"
  by (simp add: delete_user_def split: prod.splits delete_user_outcome.splits)

lemma reset_password_db: "snd (reset_password hash i password db) \<in> {db} \<union>
    {snd (replace_password_and_revoke_keys i h db) | h. True}"
  by (auto simp: reset_password_def split: prod.splits sum.splits option.splits) (metis snd_conv)+

lemma change_password_commit_db: "snd (change_password_commit i hashes db) =
    snd (compare_and_swap_password_and_revoke_keys i (fst hashes) (snd hashes) db)"
  by (simp add: change_password_commit_def split: prod.splits)

lemma account_exec_inv: "db_inv db \<Longrightarrow> db_inv (account_exec hash sha db e)"
proof (cases e)
  case (CreateUser clock name password adm)
  assume "db_inv db"
  with create_user_db [of clock hash name password adm db] create_user_row_inv CreateUser show ?thesis by auto
next
  case (ResetPassword i password)
  assume "db_inv db"
  with reset_password_db [of hash i password db] replace_password_inv ResetPassword show ?thesis by auto
qed (simp_all add: create_api_key_db insert_api_key_inv delete_user_db delete_user_guarded_inv
       delete_api_key_inv change_password_commit_db cas_password_inv)

text \<open>Administrators: deleting a user never removes the last one, and nothing else removes any.\<close>

lemma admins_simps [simp]:
  "admins (snd (delete_api_keys_for_user i db)) = admins db"
  "admins (snd (delete_api_key i u db)) = admins db"
  "admins (snd (insert_api_key clock u n h p db)) = admins db"
  by (simp_all add: admins_def delete_api_keys_for_user_def delete_api_key_def insert_api_key_def Let_def
        split: option.splits)

lemma admins_create: "admins db \<noteq> [] \<Longrightarrow> admins (snd (create_user_row clock n h a db)) \<noteq> []"
  by (auto simp: admins_def create_user_row_def Let_def split: option.splits)

lemma admins_replace: "admins (snd (replace_password_and_revoke_keys i h db)) = [] \<longleftrightarrow> admins db = []"
  by (simp add: replace_password_and_revoke_keys_def split_beta update_where_rows)

lemma admins_cas: "admins (snd (compare_and_swap_password_and_revoke_keys i e h db)) = [] \<longleftrightarrow> admins db = []"
  by (simp add: compare_and_swap_password_and_revoke_keys_def split_beta update_where_rows)

lemma distinct_other:
  assumes "distinct (map f xs)" "2 \<le> length xs"
  shows "\<exists>x \<in> set xs. f x \<noteq> y"
proof -
  obtain a b zs where "xs = a # b # zs" using assms(2) by (cases xs; cases "tl xs") auto
  with assms(1) show ?thesis by auto
qed

lemma admins_delete:
  assumes "db_inv db" "admins db \<noteq> []"
  shows "admins (snd (delete_user_guarded i db)) \<noteq> []"
proof (cases "get_user_by_id i db")
  case None
  with assms show ?thesis by (simp add: delete_user_guarded_def)
next
  case (Some u)
  then have u: "u \<in> set (db_users db)" "us_id u = i" by (auto simp: get_user_by_id_def dest: find_SomeD)
  have dist: "distinct (map us_id (db_users db))" using assms(1) by (simp add: db_inv_def)
  show ?thesis
  proof (cases "us_is_admin u \<and> length (filter us_is_admin (db_users db)) \<le> 1")
    case True
    with Some assms(2) show ?thesis by (simp add: delete_user_guarded_def)
  next
    case False
    have "\<exists>v \<in> set (admins db). us_id v \<noteq> i"
    proof (cases "us_is_admin u")
      case True
      with False have "2 \<le> length (admins db)" by (simp add: admins_def)
      moreover have "distinct (map us_id (admins db))" unfolding admins_def using dist by (rule distinct_map_filter)
      ultimately show ?thesis by (blast dest: distinct_other)
    next
      case not_admin: False
      obtain v where "v \<in> set (admins db)" using assms(2) by (cases "admins db") auto
      moreover from this have "us_id v \<noteq> i"
        using not_admin u dist by (auto simp: admins_def distinct_map inj_on_def)
      ultimately show ?thesis by blast
    qed
    with Some False show ?thesis
      by (auto simp: delete_user_guarded_def delete_api_keys_for_user_def admins_def filter_empty_conv)
  qed
qed

lemma account_exec_admins:
  assumes "db_inv db" "admins db \<noteq> []"
  shows "admins (account_exec hash sha db e) \<noteq> []"
proof (cases e)
  case (CreateUser clock name password adm)
  with create_user_db [of clock hash name password adm db] admins_create [OF assms(2)] assms(2) show ?thesis by auto
next
  case (ResetPassword i password)
  with reset_password_db [of hash i password db] admins_replace assms(2) show ?thesis by auto
next
  case (DeleteUser i)
  with admins_delete [OF assms] show ?thesis by (simp add: delete_user_db)
qed (use assms(2) in \<open>simp_all add: create_api_key_db change_password_commit_db admins_cas\<close>)

interpretation accounts: total_system "account_exec hash sha" db_inv
  for hash :: "string \<Rightarrow> string + string" and sha :: "string \<Rightarrow> string"
  by unfold_locales (rule account_exec_inv)

interpretation administered: total_system "account_exec hash sha" "\<lambda>db. db_inv db \<and> admins db \<noteq> []"
  for hash :: "string \<Rightarrow> string + string" and sha :: "string \<Rightarrow> string"
  by unfold_locales (simp add: account_exec_inv account_exec_admins)

lemma account_run_inv:
  assumes "db_inv db"
  shows "db_inv (foldl (account_exec hash sha) db es) \<and>
    (admins db \<noteq> [] \<longrightarrow> admins (foldl (account_exec hash sha) db es) \<noteq> [])"
  using accounts.fold_inv [OF assms] administered.fold_inv [of db hash sha es] assms by blast

section \<open>Lookups\<close>

lemma get_user_by_id_iff:
  assumes "db_inv db"
  shows "get_user_by_id i db = Some u \<longleftrightarrow> u \<in> set (db_users db) \<and> us_id u = i"
proof
  assume u: "u \<in> set (db_users db) \<and> us_id u = i"
  then obtain v where v: "get_user_by_id i db = Some v"
    by (cases "get_user_by_id i db") (auto simp: get_user_by_id_def find_None_iff)
  then have "v \<in> set (db_users db)" "us_id v = i" by (auto simp: get_user_by_id_def dest: find_SomeD)
  with u assms have "v = u" by (auto simp: db_inv_def distinct_map inj_on_def)
  with v show "get_user_by_id i db = Some u" by simp
qed (auto simp: get_user_by_id_def dest: find_SomeD)

lemma get_api_key_id_iff:
  assumes "db_inv db"
  shows "get_api_key_id h db = Some (i, v) \<longleftrightarrow> (\<exists>k \<in> set (db_keys db). kr_key_hash k = h \<and> kr_id k = i \<and> kr_user_id k = v)"
proof
  assume "get_api_key_id h db = Some (i, v)"
  then obtain k u where "key_owner h db = Some (k, u)" "kr_id k = i" "kr_user_id k = v"
    by (auto simp: get_api_key_id_def)
  then show "\<exists>k \<in> set (db_keys db). kr_key_hash k = h \<and> kr_id k = i \<and> kr_user_id k = v"
    unfolding key_owner_def by (auto dest!: find_map_Some split: if_splits)
next
  assume "\<exists>k \<in> set (db_keys db). kr_key_hash k = h \<and> kr_id k = i \<and> kr_user_id k = v"
  then obtain k where k: "k \<in> set (db_keys db)" "kr_key_hash k = h" "kr_id k = i" "kr_user_id k = v" by blast
  moreover have "kr_user_id k \<in> us_id ` set (db_users db)" using assms k(1) by (simp add: db_inv_def)
  ultimately have "\<exists>u. find (\<lambda>u. us_id u = kr_user_id k) (db_users db) = Some u"
    by (cases "find (\<lambda>u. us_id u = kr_user_id k) (db_users db)") (auto simp: find_None_iff)
  with k obtain k' u where o: "key_owner h db = Some (k', u)"
    unfolding key_owner_def by (cases "key_owner h db") (auto simp: key_owner_def find_map_None)
  then have k': "k' \<in> set (db_keys db)" "kr_key_hash k' = h"
    unfolding key_owner_def by (auto dest!: find_map_Some split: if_splits)
  with k assms have "k' = k" by (auto simp: db_inv_def distinct_map inj_on_def)
  with o k show "get_api_key_id h db = Some (i, v)" by (simp add: get_api_key_id_def)
qed

lemma get_api_key_id_None:
  assumes "db_inv db"
  shows "get_api_key_id h db = None \<longleftrightarrow> (\<forall>k \<in> set (db_keys db). kr_key_hash k \<noteq> h)"
  using get_api_key_id_iff [OF assms, of h] by (cases "get_api_key_id h db") fastforce+

lemma update_count:
  assumes "db_inv db"
  shows "fst (update_where (\<lambda>u. us_id u = i \<and> Q u) h db) =
    (case get_user_by_id i db of Some u \<Rightarrow> if Q u then 1 else 0 | None \<Rightarrow> 0)"
proof -
  let ?rows = "filter (\<lambda>u. us_id u = i \<and> Q u) (db_users db)"
  have dist: "distinct (map us_id ?rows)" using assms unfolding db_inv_def by (simp add: distinct_map_filter)
  have le: "length ?rows \<le> 1"
  proof (rule ccontr)
    assume "\<not> length ?rows \<le> 1"
    then have "2 \<le> length ?rows" by simp
    from distinct_other [OF dist this, of i] show False by auto
  qed
  have "?rows \<noteq> [] \<longleftrightarrow> (\<exists>u. get_user_by_id i db = Some u \<and> Q u)"
    using get_user_by_id_iff [OF assms, of i] by (auto simp: filter_empty_conv)
  with le show ?thesis
    by (cases ?rows; cases "get_user_by_id i db") (auto simp: update_where_def split: if_splits)
qed

lemma find_mapped: "find P (map f xs) = map_option f (find (\<lambda>x. P (f x)) xs)"
  by (induction xs) auto

lemma update_where_get:
  "get_user_by_id v (snd (update_where P h db)) =
    map_option (\<lambda>u. if P u then u\<lparr>us_password_hash := h\<rparr> else u) (get_user_by_id v db)"
proof -
  have "(\<lambda>u. us_id (if P u then u\<lparr>us_password_hash := h\<rparr> else u) = v) = (\<lambda>u. us_id u = v)" by auto
  then show ?thesis by (simp add: get_user_by_id_def update_where_def find_mapped)
qed

lemma delete_keys_get:
  "get_user_by_id v (snd (delete_api_keys_for_user i db)) = get_user_by_id v db"
  "set (db_keys (snd (delete_api_keys_for_user i db))) = {k \<in> set (db_keys db). kr_user_id k \<noteq> i}"
  by (auto simp: get_user_by_id_def delete_api_keys_for_user_def)

text \<open>What revoking all keys of a user does to the lookups of key hashes.\<close>

lemma delete_keys_lookup:
  assumes "db_inv db"
  shows "get_api_key_id h (snd (delete_api_keys_for_user u db)) = Some (i, v) \<longleftrightarrow>
    v \<noteq> u \<and> get_api_key_id h db = Some (i, v)"
  using get_api_key_id_iff [OF assms] get_api_key_id_iff [OF delete_keys_inv [OF assms]]
  by (auto simp: delete_keys_get)

lemma update_where_lookup:
  assumes "db_inv db"
  shows "get_api_key_id h (snd (update_where P x db)) = get_api_key_id h db"
proof -
  have "get_api_key_id h (snd (update_where P x db)) = Some r \<longleftrightarrow> get_api_key_id h db = Some r" for r
    using get_api_key_id_iff [OF assms, of h "fst r" "snd r"]
      get_api_key_id_iff [OF update_where_inv [OF assms], of h P x "fst r" "snd r"]
    by (simp add: update_where_rows)
  then show ?thesis by (metis option.exhaust)
qed

lemma alphanumeric_no_whitespace: "is_ascii_alphanumeric c \<Longrightarrow> \<not> is_ascii_whitespace c"
  by (auto simp: is_ascii_alphanumeric_def is_ascii_whitespace_def)

lemma commit_effect:
  assumes "db_inv db" "change_password_commit i (h0, h1) db = (r, db')"
  shows "(case get_user_by_id i db of
      Some u \<Rightarrow>
        if us_password_hash u = h0
        then r = Inr () \<and>
             db' = snd (delete_api_keys_for_user i
                     (snd (update_where (\<lambda>u. us_id u = i \<and> us_password_hash u = h0) h1 db)))
        else r = Inl ConcurrentPasswordChange \<and> db' = db
    | None \<Rightarrow> r = Inl ConcurrentPasswordChange \<and> db' = db)"
proof -
  let ?P = "\<lambda>u. us_id u = i \<and> us_password_hash u = h0"
  have same: "snd (update_where ?P h1 db) = db" if "\<not> (\<exists>u \<in> set (db_users db). ?P u)"
  proof -
    have "map (\<lambda>u. if ?P u then u\<lparr>us_password_hash := h1\<rparr> else u) (db_users db) = db_users db"
      using that by (intro map_idI) auto
    then show ?thesis by (simp add: update_where_def)
  qed
  have r: "r = update_result ConcurrentPasswordChange (fst (update_where ?P h1 db))"
    and db': "db' = (if fst (update_where ?P h1 db) = 1
        then snd (delete_api_keys_for_user i (snd (update_where ?P h1 db))) else snd (update_where ?P h1 db))"
    using assms(2)
    by (auto simp: change_password_commit_def compare_and_swap_password_and_revoke_keys_def split_beta)
  note n = update_count [OF assms(1), of i "\<lambda>u. us_password_hash u = h0" h1]
  show ?thesis
  proof (cases "\<exists>u. get_user_by_id i db = Some u \<and> us_password_hash u = h0")
    case True
    with n show ?thesis unfolding r db' by (auto simp: update_result_def)
  next
    case False
    then have "\<not> (\<exists>u \<in> set (db_users db). ?P u)" using get_user_by_id_iff [OF assms(1), of i] by blast
    from same [OF this] False n show ?thesis
      unfolding r db' by (auto simp: update_result_def split: option.splits)
  qed
qed

text \<open>A user that vanished is reported as an internal error by a password change.\<close>

lemma change_password_missing_user:
  "password_has_minimum_length new \<Longrightarrow> get_user_by_id i db = None \<Longrightarrow>
     fst (change_password hash verify meanwhile i old new db) = Inl (Internal ''authenticated user not found in database'')"
  by (simp add: change_password_def change_password_verify_def)

section \<open>Properties\<close>

text \<open>
  C9: There is always an administrator, and identities stay consistent. Starting from a consistent
  database with at least one administrator, any sequence of account requests, failing or not (creating
  and deleting users, creating and deleting keys, resetting and changing passwords), leaves at least
  one administrator; user names, identifiers and key hashes stay unique and every key belongs to an
  existing user.
\<close>

theorem last_admin_survives:
  assumes "db_inv db" "admins db \<noteq> []"
  shows "admins (foldl (account_exec hash sha) db es) \<noteq> [] \<and> db_inv (foldl (account_exec hash sha) db es)"
  using account_run_inv [OF assms(1)] assms(2) by blast

definition demo_db :: database where
  "demo_db = \<lparr>db_users = [\<lparr>us_id = 1, us_username = ''admin'', us_password_hash = ''h0'', us_is_admin = True, us_created_ts = 5\<rparr>],
     db_user_seq = 1, db_keys = [], db_key_seq = 0, db_attribution = []\<rparr>"

lemma demo_db_inv: "db_inv demo_db"
  by (simp add: db_inv_def demo_db_def)

theorem last_admin_survives_witness:
  "admins (foldl (account_exec Inr id) demo_db [DeleteUser 1, ResetPassword 1 ''password'']) \<noteq> []"
  using last_admin_survives [OF demo_db_inv, of Inr id "[DeleteUser 1, ResetPassword 1 ''password'']"]
  by (simp add: admins_def demo_db_def)

text \<open>
  C21: A password change commits only against the password it verified, and it locks out everything
  older. Whatever other requests do between the verification and the commit, if the change succeeds
  then the old password verifies against the hash stored at that moment, the user's hash is replaced
  and every API key of the user is gone, while other users and their keys are untouched; if it fails
  then the change itself has modified nothing.
\<close>

theorem change_password_atomic:
  assumes "db_inv (meanwhile db)"
  shows "case change_password hash_password verify_password meanwhile i old new db of
     (Inr _, db') \<Rightarrow>
       (\<exists>row h. get_user_by_id i (meanwhile db) = Some row \<and> verify_password old (us_password_hash row) = Inr True \<and>
          hash_password new = Inr h \<and> get_user_by_id i db' = Some (row\<lparr>us_password_hash := h\<rparr>)) \<and>
       (\<forall>v. v \<noteq> i \<longrightarrow> get_user_by_id v db' = get_user_by_id v (meanwhile db)) \<and>
       (\<forall>kh k v. get_api_key_id kh db' = Some (k, v) \<longleftrightarrow> v \<noteq> i \<and> get_api_key_id kh (meanwhile db) = Some (k, v))
   | (Inl _, db') \<Rightarrow> db' = db \<or> db' = meanwhile db"
proof (cases "change_password_verify hash_password verify_password i old new db")
  case (Inl e)
  then show ?thesis by (simp add: change_password_def)
next
  case (Inr hs)
  obtain h0 h1 where hs: "hs = (h0, h1)" by (cases hs)
  obtain r db' where c: "change_password_commit i (h0, h1) (meanwhile db) = (r, db')" by (metis surj_pair)
  have v: "verify_password old h0 = Inr True" "hash_password new = Inr h1"
    using Inr by (auto simp: change_password_verify_def hs split: if_splits option.splits sum.splits bool.splits)
  let ?P = "\<lambda>u. us_id u = i \<and> us_password_hash u = h0"
  note eff = commit_effect [OF assms c]
  have run: "change_password hash_password verify_password meanwhile i old new db = (r, db')"
    by (simp add: change_password_def Inr hs c)
  show ?thesis
  proof (cases "\<exists>row. get_user_by_id i (meanwhile db) = Some row \<and> us_password_hash row = h0")
    case False
    with eff have "r = Inl ConcurrentPasswordChange \<and> db' = meanwhile db" by (auto split: option.splits)
    then show ?thesis unfolding run by simp
  next
    case True
    then obtain row where row: "get_user_by_id i (meanwhile db) = Some row" "us_password_hash row = h0" by blast
    with eff have r: "r = Inr ()" and db': "db' = snd (delete_api_keys_for_user i (snd (update_where ?P h1 (meanwhile db))))"
      by simp_all
    have get: "get_user_by_id v db' = map_option (\<lambda>u. if ?P u then u\<lparr>us_password_hash := h1\<rparr> else u) (get_user_by_id v (meanwhile db))" for v
      unfolding db' by (simp add: delete_keys_get update_where_get)
    have "us_id u = v" if "get_user_by_id v (meanwhile db) = Some u" for v u
      using that get_user_by_id_iff [OF assms] by blast
    with get have "get_user_by_id v db' = get_user_by_id v (meanwhile db)" if "v \<noteq> i" for v
      using that by (cases "get_user_by_id v (meanwhile db)") auto
    moreover have "get_user_by_id i db' = Some (row\<lparr>us_password_hash := h1\<rparr>)"
      using get [of i] row get_user_by_id_iff [OF assms, of i row] by simp
    moreover have "get_api_key_id kh db' = Some (k, v) \<longleftrightarrow> v \<noteq> i \<and> get_api_key_id kh (meanwhile db) = Some (k, v)" for kh k v
      unfolding db' delete_keys_lookup [OF update_where_inv [OF assms]] update_where_lookup [OF assms] by (rule refl)
    ultimately show ?thesis unfolding run r using row v by auto
  qed
qed

theorem change_password_atomic_witness:
  "\<exists>db'. change_password Inr (\<lambda>p h. Inr (h = ''h0'')) id 1 ''old'' ''new-password'' demo_db = (Inr (), db') \<and>
     (\<forall>kh k. get_api_key_id kh db' \<noteq> Some (k, 1))"
proof -
  have "fst (change_password Inr (\<lambda>p h. Inr (h = ''h0'')) id 1 ''old'' ''new-password'' demo_db) = Inr ()"
    by (simp add: change_password_def change_password_verify_def password_has_minimum_length_def
          chars_count_def MIN_PASSWORD_CHARACTERS_def utf8_cont_def byte_def demo_db_def get_user_by_id_def
          change_password_commit_def compare_and_swap_password_and_revoke_keys_def update_where_def
          update_result_def delete_api_keys_for_user_def)
  then obtain db' where c: "change_password Inr (\<lambda>p h. Inr (h = ''h0'')) id 1 ''old'' ''new-password'' demo_db = (Inr (), db')"
    by (metis prod.collapse)
  from change_password_atomic [where meanwhile = id and db = demo_db and hash_password = Inr
      and verify_password = "\<lambda>p h. Inr (h = ''h0'')" and i = 1 and old = "''old''" and new = "''new-password''"] c demo_db_inv
  show ?thesis by auto
qed

text \<open>
  C22: A fresh API key authenticates its owner until it is revoked. The raw key returned at creation,
  sent as a bearer token, validates as exactly that key of that user; after the key is deleted, the
  owner is deleted, or the owner's password is replaced, the same request is rejected as invalid.
\<close>

theorem api_key_lifecycle:
  assumes "db_inv db" "create_api_key clock sha256_hex random user name db = (Inr (k, raw), db')"
    and "\<forall>c \<in> set random. is_ascii_alphanumeric c" "to_str (''Bearer '' @ raw) = Some (''Bearer '' @ raw)"
  shows "extract_and_validate_client_key to_str sha256_hex (\<lambda>h. Inr (get_api_key_id h db'))
           [(''authorization'', ''Bearer '' @ raw)] = Valid \<lparr>vk_key_id = k, vk_user_id = user\<rparr> \<and>
    (\<forall>db''. db'' \<in> {snd (delete_api_key k user db'), snd (replace_password_and_revoke_keys user h db')} \<or>
            delete_user_guarded user db' = (Deleted, db'') \<longrightarrow>
       extract_and_validate_client_key to_str sha256_hex (\<lambda>h. Inr (get_api_key_id h db''))
         [(''authorization'', ''Bearer '' @ raw)] = Invalid)"
proof -
  have raw: "raw = ''twl_'' @ random"
    and ins: "insert_api_key clock user name (sha256_hex raw) (take 10 raw) db = (Inr k, db')"
    using assms(2) by (auto simp: create_api_key_def generate_api_key_def Let_def split: prod.splits sum.splits)
  have inv': "db_inv db'" using insert_api_key_inv [OF assms(1)] ins by (metis snd_conv)
  have "bearer_value (''Bearer '' @ raw) raw"
    unfolding bearer_value_def
  proof (rule exI [of _ "''Bearer''"], rule exI [of _ 0], rule exI [of _ "[]"], intro conjI)
    show "\<forall>c \<in> set raw. \<not> is_ascii_whitespace c"
    proof
      fix c assume "c \<in> set raw"
      then have "c \<in> set random \<or> c \<in> set ''twl_''" by (auto simp: raw)
      moreover have "\<forall>c \<in> set ''twl_''. \<not> is_ascii_whitespace c" by (simp add: is_ascii_whitespace_def byte_def)
      ultimately show "\<not> is_ascii_whitespace c" using assms(3) alphanumeric_no_whitespace by blast
    qed
  qed (simp_all add: raw eq_ignore_ascii_case_def)
  then have key: "extract_client_key to_str [(''authorization'', ''Bearer '' @ raw)] = Some raw"
    using parse_bearer_complete assms(4) by (simp add: extract_client_key_def header_get_def raw starts_with_def)
  have fresh: "\<forall>x \<in> set (db_keys db). kr_key_hash x \<noteq> sha256_hex raw"
    and keys: "\<exists>x. db_keys db' = db_keys db @ [x] \<and> kr_key_hash x = sha256_hex raw \<and> kr_id x = k \<and> kr_user_id x = user"
    using ins by (auto simp: insert_api_key_def Let_def split: option.splits if_splits)
  then have look: "get_api_key_id (sha256_hex raw) db' = Some (k, user)"
    by (auto simp: get_api_key_id_iff [OF inv'])
  have only: "x \<in> set (db_keys db') \<and> kr_key_hash x = sha256_hex raw \<longrightarrow> kr_id x = k \<and> kr_user_id x = user" for x
    using keys fresh by auto
  have "get_api_key_id (sha256_hex raw) (snd (delete_api_key k user db')) = None"
    unfolding get_api_key_id_None [OF delete_api_key_inv [OF inv']]
    using only by (auto simp: delete_api_key_def)
  moreover have "get_api_key_id (sha256_hex raw) (snd (replace_password_and_revoke_keys user h db')) = None"
    unfolding get_api_key_id_None [OF replace_password_inv [OF inv']]
    using only by (auto simp: replace_password_and_revoke_keys_def split_beta delete_keys_get update_where_rows)
  moreover have "get_api_key_id (sha256_hex raw) db'' = None" if "delete_user_guarded user db' = (Deleted, db'')" for db''
  proof -
    have "db_inv db''" using delete_user_guarded_inv [OF inv', of user] that by simp
    moreover have "\<forall>x \<in> set (db_keys db''). x \<in> set (db_keys db') \<and> kr_user_id x \<noteq> user"
      using that by (auto simp: delete_user_guarded_def delete_api_keys_for_user_def split: option.splits if_splits)
    ultimately show ?thesis using only by (auto simp: get_api_key_id_None)
  qed
  ultimately show ?thesis
    unfolding extract_and_validate_client_key_def key using look by auto
qed

theorem api_key_lifecycle_witness:
  "\<exists>k raw db'. create_api_key (Some 9) id ''abc'' 1 None demo_db = (Inr (k, raw), db') \<and>
     extract_and_validate_client_key Some id (\<lambda>h. Inr (get_api_key_id h db'))
       [(''authorization'', ''Bearer '' @ raw)] = Valid \<lparr>vk_key_id = k, vk_user_id = 1\<rparr>"
proof -
  obtain db' where c: "create_api_key (Some 9) id ''abc'' 1 None demo_db = (Inr (1, ''twl_abc''), db')"
    by (simp add: create_api_key_def generate_api_key_def insert_api_key_def demo_db_def Let_def i64_max_def)
  have "\<forall>c \<in> set ''abc''. is_ascii_alphanumeric c" by (simp add: is_ascii_alphanumeric_def byte_def)
  from api_key_lifecycle [OF demo_db_inv c this, of Some] c show ?thesis by auto
qed

text \<open>
  Bearer credentials are accepted exactly when the header value is a case-insensitive \<open>Bearer\<close>, one
  or more spaces, a non-empty token without white space, and optional trailing spaces or tabs; the
  result is that token.
\<close>

theorem bearer_grammar:
  "parse_bearer_credentials v = Some credentials \<longleftrightarrow>
     (\<exists>scheme n tail. v = scheme @ replicate (Suc n) (CHR '' '') @ credentials @ tail \<and>
        eq_ignore_ascii_case scheme ''Bearer'' \<and> set tail \<subseteq> {CHR '' '', CHR 0x09} \<and>
        credentials \<noteq> [] \<and> (\<forall>c \<in> set credentials. \<not> is_ascii_whitespace c))"
  using parse_bearer_sound [of v credentials] parse_bearer_complete [of v credentials]
  unfolding bearer_value_def by blast

end
