(* ===== verification/RateLimit.thy ===== *)
theory RateLimit
  imports Headers "HOL-Library.Multiset"
begin

text \<open>
  The login throttle (\<open>crates/twl-server/src/ratelimit.rs\<close>): the exponential backoff, the client key
  behind trusted proxies, and the bounded table of failures. The table is the list of the entries of
  the \<open>HashMap\<close>; the order in which \<open>HashMap::iter\<close> enumerates them is a parameter. Parsing and
  printing of IP addresses are parameters too; the clock is an argument, in Unix seconds.
\<close>

definition CAP :: nat where "CAP = 4096"

definition FREE_ATTEMPTS :: "32 word" where "FREE_ATTEMPTS = 5"

definition BASE_BACKOFF_SECS :: int where "BASE_BACKOFF_SECS = 1"

definition MAX_BACKOFF_SECS :: int where "MAX_BACKOFF_SECS = 60"

definition backoff_for_failures :: "32 word \<Rightarrow> int" where
  "backoff_for_failures failures =
     (if failures \<le> FREE_ATTEMPTS then 0
      else (let shift = min (failures - FREE_ATTEMPTS - 1) 32;
                raw = BASE_BACKOFF_SECS * 2 ^ unat shift
            in min raw MAX_BACKOFF_SECS))"

section \<open>Client identity\<close>

definition client_ip ::
    "(string \<Rightarrow> string option) \<Rightarrow> (string \<Rightarrow> 'ip option) \<Rightarrow> ('ip \<Rightarrow> string)
     \<Rightarrow> header_map \<Rightarrow> 'ip option \<Rightarrow> 'ip list \<Rightarrow> string" where
  "client_ip to_str parse_ip show_ip headers peer trusted_proxies =
     (case peer of
        None \<Rightarrow> ''unknown''
      | Some peer_ip \<Rightarrow>
          if peer_ip \<notin> set trusted_proxies then show_ip peer_ip
          else
            (let forwarded =
                   (case Option.bind (header_get ''x-forwarded-for'' headers) to_str of
                      None \<Rightarrow> None
                    | Some value \<Rightarrow>
                        (let chain = map (\<lambda>f. parse_ip (trim f)) (split_on (CHR '','') value)
                         in if None \<in> set chain then None
                            else find (\<lambda>ip. ip \<notin> set trusted_proxies) (rev (map the chain))))
             in case forwarded of
                  Some client \<Rightarrow> show_ip client
                | None \<Rightarrow>
                    (case Option.bind (Option.bind (header_get ''x-real-ip'' headers) to_str)
                            (\<lambda>v. parse_ip (trim v)) of
                       Some ip \<Rightarrow> show_ip ip
                     | None \<Rightarrow> show_ip peer_ip)))"

section \<open>The throttle\<close>

record throttle_entry =
  te_failures :: "32 word"
  te_blocked_until :: int

type_synonym throttle = "(string \<times> throttle_entry) list"

definition throttle_new :: throttle where
  "throttle_new = []"

definition throttle_check :: "throttle \<Rightarrow> string \<Rightarrow> int \<Rightarrow> int + unit" where
  "throttle_check m key now =
     (case map_of m key of
        Some entry \<Rightarrow> if te_blocked_until entry > now then Inl (te_blocked_until entry - now) else Inr ()
      | None \<Rightarrow> Inr ())"

definition throttle_remove :: "string \<Rightarrow> throttle \<Rightarrow> throttle" where
  "throttle_remove key m = filter (\<lambda>(k, e). k \<noteq> key) m"

definition throttle_evict :: "(throttle \<Rightarrow> throttle) \<Rightarrow> int \<Rightarrow> throttle \<Rightarrow> throttle" where
  "throttle_evict iter now m =
     (let m1 = filter (\<lambda>(k, e). te_blocked_until e > now) m
      in if length m1 \<ge> CAP
         then (case min_index_by (\<lambda>(k, e). te_blocked_until e) (iter m1) of
                 Some i \<Rightarrow> throttle_remove (fst (iter m1 ! i)) m1
               | None \<Rightarrow> m1)
         else m1)"

definition throttle_bump :: "int \<Rightarrow> throttle_entry \<Rightarrow> throttle_entry" where
  "throttle_bump now entry =
     (let failures = (if te_failures entry = -1 then -1 else te_failures entry + 1);
          bk = backoff_for_failures failures
      in \<lparr>te_failures = failures,
          te_blocked_until = (if bk > 0 then now + bk else te_blocked_until entry)\<rparr>)"

fun throttle_update :: "string \<Rightarrow> int \<Rightarrow> throttle \<Rightarrow> throttle" where
  "throttle_update key now [] = [(key, throttle_bump now \<lparr>te_failures = 0, te_blocked_until = 0\<rparr>)]"
| "throttle_update key now ((k, e) # m) =
     (if k = key then (k, throttle_bump now e) # m else (k, e) # throttle_update key now m)"

definition record_failure :: "(throttle \<Rightarrow> throttle) \<Rightarrow> string \<Rightarrow> int \<Rightarrow> throttle \<Rightarrow> throttle" where
  "record_failure iter key now m =
     throttle_update key now
       (if map_of m key = None \<and> length m \<ge> CAP then throttle_evict iter now m else m)"

definition record_success :: "string \<Rightarrow> throttle \<Rightarrow> throttle" where
  "record_success key m = throttle_remove key m"

section \<open>Lemmas\<close>

lemma unat_min: "unat (min a b) = min (unat a) (unat (b :: 'a::len word))"
  by (simp add: min_def word_le_nat_alt)

lemma backoff_closed_form:
  "backoff_for_failures f = (if unat f \<le> 5 then 0 else min 60 (2 ^ (unat f - 6)))"
proof (cases "unat f \<le> 5")
  case True
  then show ?thesis by (simp add: backoff_for_failures_def FREE_ATTEMPTS_def word_le_nat_alt)
next
  case False
  then have "unat (f - 5 - 1) = unat f - 6"
    by (simp add: unat_sub_if_size word_le_nat_alt unat_sub word_size)
  then have "backoff_for_failures f = min (2 ^ min (unat f - 6) 32) 60"
    using False by (simp add: backoff_for_failures_def FREE_ATTEMPTS_def word_le_nat_alt Let_def
        BASE_BACKOFF_SECS_def MAX_BACKOFF_SECS_def unat_min)
  moreover have "(60 :: int) \<le> 2 ^ n" if "32 \<le> n" for n :: nat
  proof -
    have "(2 :: int) ^ 6 \<le> 2 ^ n" using that by (intro power_increasing) simp_all
    then show ?thesis by simp
  qed
  ultimately show ?thesis using False by (cases "32 \<le> unat f - 6") (auto simp: min_def)
qed

datatype login_event = Failure string int | Success string

fun throttle_step :: "(throttle \<Rightarrow> throttle) \<Rightarrow> throttle \<Rightarrow> login_event \<Rightarrow> throttle" where
  "throttle_step iter m (Failure key now) = record_failure iter key now m"
| "throttle_step iter m (Success key) = record_success key m"

definition throttle_run :: "(throttle \<Rightarrow> throttle) \<Rightarrow> login_event list \<Rightarrow> throttle" where
  "throttle_run iter es = foldl (throttle_step iter) throttle_new es"

lemma throttle_run_snoc: "throttle_run iter (es @ [e]) = throttle_step iter (throttle_run iter es) e"
  by (simp add: throttle_run_def)

lemma throttle_update_keys: "fst ` set (throttle_update key now m) = insert key (fst ` set m)"
  by (induction key now m rule: throttle_update.induct) auto

lemma throttle_update_length:
  "length (throttle_update key now m) = (if key \<in> fst ` set m then length m else Suc (length m))"
  by (induction key now m rule: throttle_update.induct) auto

lemma throttle_update_distinct: "distinct (map fst m) \<Longrightarrow> distinct (map fst (throttle_update key now m))"
proof (induction key now m rule: throttle_update.induct)
  case (2 key now k e m)
  then show ?case by (cases "k = key") (simp_all add: throttle_update_keys)
qed simp

lemma throttle_update_get:
  "map_of (throttle_update key now m) k =
     (if k = key then Some (throttle_bump now (case map_of m key of Some e \<Rightarrow> e
        | None \<Rightarrow> \<lparr>te_failures = 0, te_blocked_until = 0\<rparr>)) else map_of m k)"
  by (induction key now m rule: throttle_update.induct) auto

lemma throttle_remove_get: "map_of (throttle_remove key m) k = (if k = key then None else map_of m k)"
  by (induction m) (auto simp: throttle_remove_def)

lemma throttle_remove_less: "key \<in> fst ` set m \<Longrightarrow> length (throttle_remove key m) < length m"
  by (induction m) (auto simp: throttle_remove_def le_imp_less_Suc)

text \<open>Any enumeration of the entries.\<close>

definition iter_ok :: "(throttle \<Rightarrow> throttle) \<Rightarrow> bool" where
  "iter_ok iter \<longleftrightarrow> (\<forall>m. mset (iter m) = mset m)"

lemma throttle_evict_length:
  assumes "iter_ok iter" "length m \<le> CAP"
  shows "length (throttle_evict iter now m) < CAP"
proof -
  let ?m = "filter (\<lambda>(k, e). te_blocked_until e > now) m"
  have le: "length ?m \<le> CAP" using assms(2) length_filter_le le_trans by blast
  have ms: "set (iter ?m) = set ?m" using assms(1) by (metis iter_ok_def mset_eq_setD)
  show ?thesis
  proof (cases "CAP \<le> length ?m")
    case True
    then have "length ?m \<noteq> 0" by (simp add: CAP_def del: length_0_conv)
    then have "iter ?m \<noteq> []" using ms by (metis length_0_conv set_empty)
    then obtain i where i: "min_index_by (\<lambda>(k, e). te_blocked_until e) (iter ?m) = Some i"
      by (metis min_index_by_None not_None_eq)
    then have "i < length (iter ?m)" using min_index_by_Some by blast
    then have "fst (iter ?m ! i) \<in> fst ` set ?m" using ms nth_mem by blast
    from throttle_remove_less [OF this] le i True show ?thesis by (simp add: throttle_evict_def Let_def)
  next
    case False
    then show ?thesis by (simp add: throttle_evict_def Let_def)
  qed
qed

lemma throttle_evict_subset: "set (throttle_evict iter now m) \<subseteq> set m"
  by (auto simp: throttle_evict_def Let_def throttle_remove_def split: option.splits if_splits)

lemma record_failure_length:
  assumes "iter_ok iter" "length m \<le> CAP"
  shows "length (record_failure iter key now m) \<le> CAP"
proof (cases "map_of m key = None \<and> length m \<ge> CAP")
  case True
  then show ?thesis
    using throttle_evict_length [OF assms, of now]
    by (simp add: record_failure_def throttle_update_length)
next
  case False
  then show ?thesis using assms(2) by (auto simp: record_failure_def throttle_update_length map_of_eq_None_iff)
qed

lemma throttle_bump_blocked:
  assumes "te_blocked_until e \<le> T + 60" "now \<le> T"
  shows "te_blocked_until (throttle_bump now e) \<le> T + 60"
  using assms by (auto simp: throttle_bump_def Let_def backoff_closed_form)

definition event_times :: "login_event list \<Rightarrow> int set" where
  "event_times es = {now. \<exists>key. Failure key now \<in> set es}"

lemma throttle_update_blocked:
  "\<forall>e \<in> snd ` set m. te_blocked_until e \<le> T + 60 \<Longrightarrow> now \<le> T \<Longrightarrow> 0 \<le> T \<Longrightarrow>
     \<forall>e \<in> snd ` set (throttle_update key now m). te_blocked_until e \<le> T + 60"
  by (induction key now m rule: throttle_update.induct) (auto intro: throttle_bump_blocked)

lemma throttle_run_bounds:
  assumes "iter_ok iter" "\<forall>now \<in> event_times es. now \<le> T" "0 \<le> T"
  shows "length (throttle_run iter es) \<le> CAP \<and> (\<forall>e \<in> snd ` set (throttle_run iter es). te_blocked_until e \<le> T + 60)"
  using assms(2)
proof (induction es rule: rev_induct)
  case Nil
  show ?case by (simp add: throttle_run_def throttle_new_def)
next
  case (snoc ev es)
  then have IH: "length (throttle_run iter es) \<le> CAP"
    "\<forall>e \<in> snd ` set (throttle_run iter es). te_blocked_until e \<le> T + 60" by (auto simp: event_times_def)
  show ?case
  proof (cases ev)
    case (Failure key now)
    with snoc.prems have "now \<le> T" by (auto simp: event_times_def)
    moreover have "\<forall>e \<in> snd ` set (throttle_evict iter now (throttle_run iter es)). te_blocked_until e \<le> T + 60"
      using IH(2) throttle_evict_subset by blast
    ultimately have "\<forall>e \<in> snd ` set (record_failure iter key now (throttle_run iter es)). te_blocked_until e \<le> T + 60"
      unfolding record_failure_def using IH(2) assms(3) by (intro throttle_update_blocked) auto
    with record_failure_length [OF assms(1) IH(1)] Failure show ?thesis by (simp add: throttle_run_snoc)
  next
    case (Success key)
    have "length (throttle_remove key (throttle_run iter es)) \<le> CAP"
      unfolding throttle_remove_def using IH(1) length_filter_le le_trans by blast
    with IH(2) Success show ?thesis by (auto simp: throttle_run_snoc record_success_def throttle_remove_def)
  qed
qed

text \<open>The failures of a key since its last success, and the time of the last one.\<close>

definition counts_for :: "string \<Rightarrow> nat \<times> int \<Rightarrow> login_event \<Rightarrow> nat \<times> int" where
  "counts_for key acc e =
     (case e of
        Failure k now \<Rightarrow> if k = key then (fst acc + 1, now) else acc
      | Success k \<Rightarrow> if k = key then (0, snd acc) else acc)"

definition consecutive :: "string \<Rightarrow> login_event list \<Rightarrow> nat" where
  "consecutive key es = fst (foldl (counts_for key) (0, 0) es)"

definition last_failure :: "string \<Rightarrow> login_event list \<Rightarrow> int" where
  "last_failure key es = snd (foldl (counts_for key) (0, 0) es)"

definition failing_keys :: "login_event list \<Rightarrow> string set" where
  "failing_keys es = {key. \<exists>now. Failure key now \<in> set es}"

lemma counts_snoc:
  "consecutive key (es @ [e]) = fst (counts_for key (consecutive key es, last_failure key es) e)"
  "last_failure key (es @ [e]) = snd (counts_for key (consecutive key es, last_failure key es) e)"
  by (simp_all add: consecutive_def last_failure_def)

definition expected_entry :: "string \<Rightarrow> login_event list \<Rightarrow> throttle_entry option" where
  "expected_entry key es =
     (let n = consecutive key es
      in if n = 0 then None
         else Some \<lparr>te_failures = of_nat n,
                    te_blocked_until = (if n \<le> 5 then 0 else last_failure key es + min 60 (2 ^ (n - 6)))\<rparr>)"

lemma bump_expected:
  assumes "n < 2 ^ 32 - 1"
  shows "throttle_bump now \<lparr>te_failures = of_nat n, te_blocked_until = (if n \<le> 5 then 0 else x)\<rparr> =
    \<lparr>te_failures = of_nat (n + 1), te_blocked_until = (if n + 1 \<le> 5 then 0 else now + min 60 (2 ^ (n + 1 - 6)))\<rparr>"
proof -
  have u: "unat (of_nat (n + 1) :: 32 word) = n + 1" using assms by (intro unat_of_nat_32) simp
  have "(of_nat n :: 32 word) \<noteq> - 1"
  proof
    assume "(of_nat n :: 32 word) = - 1"
    then have "(of_nat (n + 1) :: 32 word) = 0" by simp
    with u show False by (metis unat_0 add_is_0 zero_neq_one)
  qed
  moreover have "(0 :: int) < min 60 (2 ^ k)" for k :: nat by simp
  ultimately show ?thesis
    using u by (simp add: throttle_bump_def Let_def backoff_closed_form add.commute)
qed

lemma consecutive_le: "consecutive key es \<le> length es"
  by (induction es rule: rev_induct)
     (auto simp: consecutive_def counts_for_def split: login_event.splits)

lemma finite_failing: "finite (failing_keys es)"
proof -
  have "failing_keys es \<subseteq> (\<lambda>e. case e of Failure k _ \<Rightarrow> k | Success k \<Rightarrow> k) ` set es"
    by (force simp: failing_keys_def image_iff)
  then show ?thesis by (rule finite_subset) simp
qed

lemma throttle_run_entry:
  assumes "card (failing_keys es) \<le> CAP" "length es < 2 ^ 32"
  shows "fst ` set (throttle_run iter es) \<subseteq> failing_keys es \<and> distinct (map fst (throttle_run iter es)) \<and>
    (\<forall>key. map_of (throttle_run iter es) key = expected_entry key es)"
  using assms
proof (induction es rule: rev_induct)
  case Nil
  show ?case by (simp add: throttle_run_def throttle_new_def expected_entry_def consecutive_def failing_keys_def)
next
  case (snoc ev es)
  let ?m = "throttle_run iter es"
  have sub: "failing_keys es \<subseteq> failing_keys (es @ [ev])" by (auto simp: failing_keys_def)
  then have "card (failing_keys es) \<le> CAP"
    using snoc.prems(1) card_mono [OF finite_failing sub] by linarith
  with snoc have keys: "fst ` set ?m \<subseteq> failing_keys es" and dist: "distinct (map fst ?m)"
    and get: "\<And>key. map_of ?m key = expected_entry key es" by auto
  show ?case
  proof (cases ev)
    case (Failure key now)
    have full: "\<not> (map_of ?m key = None \<and> CAP \<le> length ?m)"
    proof
      assume a: "map_of ?m key = None \<and> CAP \<le> length ?m"
      then have "key \<notin> fst ` set ?m" by (simp add: map_of_eq_None_iff)
      moreover have "insert key (fst ` set ?m) \<subseteq> failing_keys (es @ [ev])"
        using keys sub Failure by (auto simp: failing_keys_def)
      then have "card (insert key (fst ` set ?m)) \<le> CAP"
        using snoc.prems(1) card_mono [OF finite_failing] le_trans by blast
      moreover have "card (fst ` set ?m) = length ?m" using dist by (metis distinct_card length_map list.set_map)
      ultimately show False using a by simp
    qed
    then have run: "throttle_run iter (es @ [ev]) = throttle_update key now ?m"
      by (auto simp: throttle_run_snoc Failure record_failure_def)
    have n: "consecutive key es < 2 ^ 32 - 1" using consecutive_le [of key es] snoc.prems(2) by simp
    have "map_of (throttle_run iter (es @ [ev])) k = expected_entry k (es @ [ev])" for k
      using bump_expected [OF n, of now "last_failure key es + min 60 (2 ^ (consecutive key es - 6))"]
      unfolding run throttle_update_get get
      by (auto simp: expected_entry_def Let_def counts_snoc counts_for_def Failure)
    then show ?thesis
      using keys sub dist Failure unfolding run throttle_update_keys
      by (auto simp: failing_keys_def throttle_update_distinct)
  next
    case (Success key)
    have "map_of (throttle_run iter (es @ [ev])) k = expected_entry k (es @ [ev])" for k
      by (auto simp: throttle_run_snoc Success record_success_def throttle_remove_get get
            expected_entry_def Let_def counts_snoc counts_for_def)
    moreover have "distinct (map fst (throttle_remove key ?m))"
      using dist unfolding throttle_remove_def by (rule distinct_map_filter)
    ultimately show ?thesis
      using keys sub by (auto simp: throttle_run_snoc Success record_success_def throttle_remove_def)
  qed
qed

section \<open>Properties\<close>

text \<open>
  C27: The throttle backs off exponentially and forgives. Whatever logins of other clients happen in
  between, after \<open>n\<close> failures of a client since its last success an attempt at time \<open>t\<close> is refused
  exactly when \<open>n\<close> exceeds the five free ones and fewer than \<open>min 60 (2 ^ (n - 6))\<close> seconds have passed
  since the last failure, and the refusal names the remaining seconds. (At most 4096 distinct clients
  have failed, so no entry was evicted.)
\<close>

theorem throttle_backs_off:
  assumes "card (failing_keys es) \<le> CAP" "length es < 2 ^ 32" "0 \<le> t"
  shows "throttle_check (throttle_run iter es) key t =
    (let n = consecutive key es; until = last_failure key es + min 60 (2 ^ (n - 6))
     in if n > 5 \<and> t < until then Inl (until - t) else Inr ())"
proof -
  have "map_of (throttle_run iter es) key = expected_entry key es"
    using throttle_run_entry [OF assms(1,2)] by blast
  with assms(3) show ?thesis by (auto simp: throttle_check_def expected_entry_def Let_def)
qed

theorem throttle_backs_off_witness:
  "throttle_check (throttle_run id (replicate 7 (Failure ''ip'' 100))) ''ip'' 101 = Inl 1"
proof -
  have "failing_keys (replicate 7 (Failure ''ip'' 100)) = {''ip''}" by (auto simp: failing_keys_def)
  then have c: "card (failing_keys (replicate 7 (Failure ''ip'' 100))) \<le> CAP" by (simp add: CAP_def)
  have "consecutive ''ip'' (replicate 7 (Failure ''ip'' 100)) = 7"
    "last_failure ''ip'' (replicate 7 (Failure ''ip'' 100)) = 100"
    by (simp_all add: consecutive_def last_failure_def counts_for_def numeral_eq_Suc)
  with throttle_backs_off [OF c, of 101 id "''ip''"] show ?thesis by simp
qed

text \<open>
  C28: The throttle is bounded in space and in time. Under any sequence of failures and successes from
  any number of clients, in whatever order the hash table enumerates its entries, at most 4096
  clients are tracked, and no client is ever locked out for more than 60 seconds after the last
  failure.
\<close>

theorem throttle_bounded:
  assumes "iter_ok iter" "\<forall>now \<in> event_times es. now \<le> T" "0 \<le> T"
  shows "length (throttle_run iter es) \<le> 4096 \<and>
    (\<forall>key t. T + 60 \<le> t \<longrightarrow> throttle_check (throttle_run iter es) key t = Inr ())"
proof -
  note b = throttle_run_bounds [OF assms]
  have "throttle_check (throttle_run iter es) key t = Inr ()" if "T + 60 \<le> t" for key t
  proof (cases "map_of (throttle_run iter es) key")
    case (Some e)
    then have "e \<in> snd ` set (throttle_run iter es)" by (force dest: map_of_SomeD)
    with b that Some show ?thesis by (fastforce simp: throttle_check_def)
  qed (simp add: throttle_check_def)
  with b show ?thesis by (simp add: CAP_def)
qed

theorem throttle_bounded_witness:
  "throttle_check (throttle_run id (replicate 9 (Failure ''ip'' 100))) ''ip'' 160 = Inr ()"
proof -
  have "iter_ok id" by (simp add: iter_ok_def)
  moreover have "\<forall>now \<in> event_times (replicate 9 (Failure ''ip'' 100)). now \<le> 100" by (auto simp: event_times_def)
  ultimately show ?thesis using throttle_bounded [of id _ 100] by simp
qed



end
