(* ===== verification/Auth.thy ===== *)
theory Auth
  imports Accounts RateLimit
begin

text \<open>
  Browser login and the management routes' guard (\<open>crates/twl-server/src/auth.rs\<close>,
  \<open>handlers/session.rs\<close>, \<open>session_store.rs\<close>). Sessions are kept by \<open>axum-login\<close>: the user it finds for
  a request is an argument of the guard, and whether it could store a session is an argument of the
  login handler.
\<close>

section \<open>Responses\<close>

datatype body = Text string | JsonBody json

record response =
  r_status :: nat
  r_headers :: header_map
  r_body :: body

definition plain :: "nat \<Rightarrow> body \<Rightarrow> response" where
  "plain status b = \<lparr>r_status = status, r_headers = [], r_body = b\<rparr>"

section \<open>Login backend\<close>

record login_user =
  lu_id :: int
  lu_username :: string
  lu_password_hash :: string
  lu_is_admin :: bool

definition from_row :: "user_row \<Rightarrow> login_user" where
  "from_row row = \<lparr>lu_id = us_id row, lu_username = us_username row,
                   lu_password_hash = us_password_hash row, lu_is_admin = us_is_admin row\<rparr>"

definition login_auth_user :: "login_user \<Rightarrow> auth_user" where
  "login_auth_user u = \<lparr>au_id = lu_id u, au_username = lu_username u, au_is_admin = lu_is_admin u\<rparr>"

definition session_auth_hash :: "login_user \<Rightarrow> string" where
  "session_auth_hash u = lu_password_hash u"

datatype login_error = Join string | Store db_error

text \<open>
  \<open>lookup\<close> is the outcome of the blocking lookup of the name; \<open>joined\<close> is \<open>None\<close> when the task that
  verifies the password could be joined, and its error otherwise.
\<close>

definition authenticate ::
    "(string \<Rightarrow> string \<Rightarrow> string + bool) \<Rightarrow> string \<Rightarrow> (string \<Rightarrow> login_error + user_row option) \<Rightarrow> string option
     \<Rightarrow> string \<Rightarrow> string \<Rightarrow> login_error + login_user option" where
  "authenticate verify_password DUMMY_HASH lookup joined username password =
     bind_result (lookup username) (\<lambda>row.
       let hash_to_verify = unwrap_or (map_option us_password_hash row) DUMMY_HASH;
           valid = (case verify_password password hash_to_verify of Inr v \<Rightarrow> v | Inl _ \<Rightarrow> False)
       in case joined of
            Some e \<Rightarrow> Inl (Join e)
          | None \<Rightarrow> if valid then Inr (map_option from_row row) else Inr None)"

definition backend_get_user :: "(int \<Rightarrow> login_error + user_row option) \<Rightarrow> int \<Rightarrow> login_error + login_user option" where
  "backend_get_user lookup user_id = bind_result (lookup user_id) (\<lambda>row. Inr (map_option from_row row))"

section \<open>The guard of the management routes\<close>

definition auth_failed_response :: "string \<Rightarrow> response" where
  "auth_failed_response path =
     (if path = ''/usage'' \<or> path = ''/account''
      then \<lparr>r_status = 303, r_headers = [(''location'', ''/login'')], r_body = Text []\<rparr>
      else plain 401 (Text ''Unauthorized''))"

definition internal_error_response :: response where
  "internal_error_response = plain 500 (Text ''Internal Server Error'')"

text \<open>
  The guard either answers itself (\<open>Inl\<close>) or passes the request on with the user it authenticated
  (\<open>Inr\<close>). \<open>lookup\<close> is the blocking lookup of the owner of a key hash.
\<close>

definition require_auth ::
    "(string \<Rightarrow> string option) \<Rightarrow> (string \<Rightarrow> string) \<Rightarrow> (string \<Rightarrow> string + user_row option)
     \<Rightarrow> login_user option \<Rightarrow> header_map \<Rightarrow> string \<Rightarrow> response + auth_user" where
  "require_auth to_str sha256_hex lookup session_user headers path =
     (case session_user of
        Some user \<Rightarrow> Inr (login_auth_user user)
      | None \<Rightarrow>
          (case opt_filter (\<lambda>token. starts_with token ''twl_'')
                  (Option.bind (Option.bind (header_get ''authorization'' headers) to_str) parse_bearer_credentials) of
             None \<Rightarrow> Inl (auth_failed_response path)
           | Some key \<Rightarrow>
               (case lookup (sha256_hex key) of
                  Inr (Some row) \<Rightarrow> Inr \<lparr>au_id = us_id row, au_username = us_username row, au_is_admin = us_is_admin row\<rparr>
                | Inr None \<Rightarrow> Inl (auth_failed_response path)
                | Inl _ \<Rightarrow> Inl internal_error_response)))"

definition login_client_key where
  "login_client_key to_str parse_ip show_ip headers peer trusted_proxies =
     client_ip to_str parse_ip show_ip headers peer trusted_proxies"

section \<open>Login handler\<close>

definition ok_json :: response where
  "ok_json = plain 200 (JsonBody (Object [(''ok'', Bool True)]))"

definition bad_credentials :: response where
  "bad_credentials = plain 401 (JsonBody (Object [(''error'', String ''invalid credentials'')]))"

definition login_internal_error :: response where
  "login_internal_error = plain 500 (JsonBody (Object [(''error'', String ''internal server error'')]))"

definition locked_out :: "int \<Rightarrow> response" where
  "locked_out remaining =
     \<lparr>r_status = 429, r_headers = [(''retry-after'', show_int remaining)],
      r_body = JsonBody (Object [(''error'', String ''too many failed login attempts, account temporarily locked'')])\<rparr>"

text \<open>
  \<open>authenticate'\<close> is the outcome of verifying the credentials, asked for only when the client is not
  locked out; \<open>stored\<close> says whether the session could be stored. The result is the response, the
  throttle afterwards and the user that is logged in.
\<close>

definition login_api ::
    "(throttle \<Rightarrow> throttle) \<Rightarrow> int \<Rightarrow> string \<Rightarrow> (unit \<Rightarrow> login_error + login_user option) \<Rightarrow> bool
     \<Rightarrow> throttle \<Rightarrow> response \<times> throttle \<times> login_user option" where
  "login_api iter now client_key authenticate' stored throttle =
     (case throttle_check throttle client_key now of
        Inl remaining \<Rightarrow> (locked_out remaining, throttle, None)
      | Inr _ \<Rightarrow>
          (case authenticate' () of
             Inr (Some user) \<Rightarrow>
               if stored then (ok_json, record_success client_key throttle, Some user)
               else (login_internal_error, throttle, None)
           | Inr None \<Rightarrow> (bad_credentials, record_failure iter client_key now throttle, None)
           | Inl _ \<Rightarrow> (login_internal_error, throttle, None)))"

section \<open>Session store\<close>

record session_record =
  sr_id :: int
  sr_data :: "(string \<times> json) list"
  sr_expiry :: int

type_synonym session_map = "int \<rightharpoonup> session_record"

definition SESSION_PURGE_INTERVAL :: int where
  "SESSION_PURGE_INTERVAL = 60 * 60"

text \<open>
  \<open>create\<close> draws a new random identifier as long as the current one is taken: \<open>draws\<close> are the
  identifiers in the order they are drawn, and \<open>None\<close> means that all of them were taken.
\<close>

fun session_create :: "int list \<Rightarrow> session_record \<Rightarrow> session_map \<Rightarrow> (session_record \<times> session_map) option" where
  "session_create draws rec records =
     (if records (sr_id rec) = None then Some (rec, records(sr_id rec \<mapsto> rec))
      else (case draws of
              [] \<Rightarrow> None
            | i # rest \<Rightarrow> session_create rest (rec\<lparr>sr_id := i\<rparr>) records))"

declare session_create.simps [simp del]

definition session_save :: "session_record \<Rightarrow> session_map \<Rightarrow> session_map" where
  "session_save rec records = records(sr_id rec \<mapsto> rec)"

definition session_load :: "int \<Rightarrow> int \<Rightarrow> session_map \<Rightarrow> session_record option" where
  "session_load now session_id records = opt_filter (\<lambda>r. sr_expiry r > now) (records session_id)"

definition session_delete :: "int \<Rightarrow> session_map \<Rightarrow> session_map" where
  "session_delete session_id records = records(session_id := None)"

definition purge_expired :: "int \<Rightarrow> session_map \<Rightarrow> session_map" where
  "purge_expired now records = (\<lambda>i. opt_filter (\<lambda>r. sr_expiry r > now) (records i))"

text \<open>
  What a session store promises its users: a stored session is found until it expires or is deleted,
  and operations on one session do not affect another.
\<close>

locale session_store =
  fixes save :: "'r \<Rightarrow> 's \<Rightarrow> 's" and load :: "int \<Rightarrow> int \<Rightarrow> 's \<Rightarrow> 'r option"
    and delete :: "int \<Rightarrow> 's \<Rightarrow> 's" and purge :: "int \<Rightarrow> 's \<Rightarrow> 's"
    and id_of :: "'r \<Rightarrow> int" and expiry :: "'r \<Rightarrow> int"
  assumes load_save: "load now i (save r s) = (if i = id_of r then (if now < expiry r then Some r else None) else load now i s)"
    and load_delete: "load now i (delete j s) = (if i = j then None else load now i s)"
    and load_purge: "t \<le> now \<Longrightarrow> load now i (purge t s) = load now i s"
    and load_live: "load now i s = Some r \<Longrightarrow> now < expiry r"
begin

lemma purge_transparent: "t \<le> now \<Longrightarrow> load now (id_of r) (purge t (save r s)) = (if now < expiry r then Some r else None)"
  by (simp add: load_purge load_save)

lemma logout_final: "t \<le> now \<Longrightarrow> load now i (purge t (delete i (save r s))) = None"
  by (simp add: load_purge load_delete)

end

interpretation memory_store: session_store session_save session_load session_delete purge_expired sr_id sr_expiry
  by unfold_locales
     (auto simp: session_save_def session_load_def session_delete_def purge_expired_def opt_filter_def
        split: option.splits if_splits)

section \<open>Properties\<close>

text \<open>
  C8: Nobody passes the guard without a live identity. A request reaches a management handler only
  with the user of its session, or with the owner of the \<open>twl_\<close> bearer key it presents, a key that is
  in the table at that moment and belongs to an existing user; and an API key never grants more than
  its owner has. Every other request gets a redirect to the login page, a 401, or a 500 when the
  lookup failed.
\<close>

theorem require_auth_sound:
  assumes "\<forall>h. lookup h = Inr (get_api_key_user h db) \<or> (\<exists>e. lookup h = Inl e)"
  shows "case require_auth to_str sha256_hex lookup session_user headers path of
     Inr u \<Rightarrow>
       (\<exists>s. session_user = Some s \<and> u = login_auth_user s) \<or>
       (session_user = None \<and>
        (\<exists>v token key row. header_get ''authorization'' headers = Some v \<and> bearer_value (the (to_str v)) token \<and>
           starts_with token ''twl_'' \<and> key \<in> set (db_keys db) \<and> kr_key_hash key = sha256_hex token \<and>
           get_user_by_id (kr_user_id key) db = Some row \<and>
           u = \<lparr>au_id = us_id row, au_username = us_username row, au_is_admin = us_is_admin row\<rparr>))
   | Inl r \<Rightarrow> session_user = None \<and> r_status r \<in> {303, 401, 500}"
proof (cases session_user)
  case (Some s)
  then show ?thesis by (simp add: require_auth_def)
next
  case None
  let ?tok = "opt_filter (\<lambda>token. starts_with token ''twl_'')
    (Option.bind (Option.bind (header_get ''authorization'' headers) to_str) parse_bearer_credentials)"
  have statuses: "r_status (auth_failed_response path) \<in> {303, 401, 500}" "r_status internal_error_response \<in> {303, 401, 500}"
    by (simp_all add: auth_failed_response_def internal_error_response_def plain_def)
  show ?thesis
  proof (cases ?tok)
    case tok: None
    with None statuses show ?thesis by (simp add: require_auth_def)
  next
    case (Some token)
    then obtain v x where v: "header_get ''authorization'' headers = Some v" "to_str v = Some x"
        "parse_bearer_credentials x = Some token" "starts_with token ''twl_''"
      by (auto simp: opt_filter_Some bind_eq_Some_conv)
    show ?thesis
    proof (cases "lookup (sha256_hex token) = Inr (get_api_key_user (sha256_hex token) db) \<and> get_api_key_user (sha256_hex token) db \<noteq> None")
      case True
      then obtain row where row: "get_api_key_user (sha256_hex token) db = Some row" by blast
      then obtain key where o: "key_owner (sha256_hex token) db = Some (key, row)"
        by (auto simp: get_api_key_user_def)
      then have "key \<in> set (db_keys db)" "kr_key_hash key = sha256_hex token" "get_user_by_id (kr_user_id key) db = Some row"
        unfolding key_owner_def get_user_by_id_def by (auto dest!: find_map_Some split: if_splits)
      with True None Some row v parse_bearer_sound [OF v(3)] show ?thesis
        by (auto simp: require_auth_def)
    next
      case False
      then consider e where "lookup (sha256_hex token) = Inl e" | "lookup (sha256_hex token) = Inr None"
        using assms by metis
      then show ?thesis using None Some statuses by cases (simp_all add: require_auth_def)
    qed
  qed
qed

theorem require_auth_sound_witness:
  "\<exists>r. require_auth Some id (\<lambda>h. Inr (get_api_key_user h demo_db)) None [] ''/usage'' = Inl r \<and> r_status r \<in> {303, 401, 500}"
proof -
  have "require_auth Some id (\<lambda>h. Inr (get_api_key_user h demo_db)) None [] ''/usage'' = Inl (auth_failed_response ''/usage'')"
    by (simp add: require_auth_def header_get_def)
  with require_auth_sound [where db = demo_db and lookup = "\<lambda>h. Inr (get_api_key_user h demo_db)" and to_str = Some
      and sha256_hex = id and session_user = None and headers = "[]" and path = "''/usage''"]
  show ?thesis by simp
qed


end
