(* ===== verification/UsageExtract.thy ===== *)
theory UsageExtract
  imports Json Types
begin

text \<open>
  Token usage in upstream responses (\<open>crates/twl-provider/src/usage.rs\<close>): the four recognised
  response shapes, the line parsers of the two streaming formats and the heuristic scavenger.
\<close>

section \<open>Recognised shapes\<close>

definition num_of :: "string list \<Rightarrow> json \<Rightarrow> int option" where
  "num_of keys v = find_map (\<lambda>k. Option.bind (jget k v) as_i64) keys"

definition usage_from_openai :: "json \<Rightarrow> string \<Rightarrow> string \<Rightarrow> usage option" where
  "usage_from_openai usage model endpoint =
     (let nested_cached =
            Option.bind (Option.bind (or_else (jget ''prompt_tokens_details'' usage)
                                              (jget ''input_tokens_details'' usage))
                                     (jget ''cached_tokens''))
                        as_i64;
          has_recognized_count =
            (num_of [''prompt_tokens'', ''input_tokens'', ''completion_tokens'', ''output_tokens'',
                     ''total_tokens'', ''cache_creation_input_tokens'', ''cache_read_input_tokens'',
                     ''prompt_cache_hit_tokens''] usage \<noteq> None \<or> nested_cached \<noteq> None)
      in if \<not> has_recognized_count then None
         else (let raw_prompt = num_of [''prompt_tokens'', ''input_tokens''] usage;
                   raw_completion = num_of [''completion_tokens'', ''output_tokens''] usage;
                   raw_total = num_of [''total_tokens''] usage;
                   is_non_generative = (ends_with endpoint ''/rerank'' \<or> ends_with endpoint ''/score'' \<or>
                                        ends_with endpoint ''/pooling'');
                   total_only_input =
                     (if is_non_generative \<and> raw_prompt = None \<and> raw_completion = None
                      then max (unwrap_or raw_total 0) 0 else 0);
                   base_prompt = max (unwrap_or raw_prompt total_only_input) 0;
                   anthropic_cache_creation =
                     max (unwrap_or (num_of [''cache_creation_input_tokens''] usage) 0) 0;
                   anthropic_cache_read =
                     max (unwrap_or (num_of [''cache_read_input_tokens''] usage) 0) 0;
                   is_anthropic_usage = (jget ''cache_creation_input_tokens'' usage \<noteq> None \<or>
                                         jget ''cache_read_input_tokens'' usage \<noteq> None);
                   prompt = saturating_add (saturating_add base_prompt anthropic_cache_creation)
                                           anthropic_cache_read;
                   completion = max (unwrap_or raw_completion 0) 0;
                   total = (case raw_total of
                              Some t \<Rightarrow> if t > 0 then t
                                        else if t = 0 \<and> prompt = 0 \<and> completion = 0 then 0
                                        else saturating_add prompt completion
                            | None \<Rightarrow> saturating_add prompt completion);
                   cached = min (max (if is_anthropic_usage then anthropic_cache_read
                                      else (case nested_cached of
                                              Some v \<Rightarrow> v
                                            | None \<Rightarrow> unwrap_or (Option.bind (jget ''prompt_cache_hit_tokens'' usage) as_i64) 0))
                                     0) prompt
               in Some \<lparr>u_model = model, u_endpoint = endpoint, u_input_tokens = prompt,
                        u_output_tokens = completion, u_cached_tokens = cached, u_total_tokens = total,
                        u_api_key_id = None\<rparr>))"

definition usage_from_counts ::
    "json \<Rightarrow> string \<Rightarrow> string \<Rightarrow> string option \<Rightarrow> string \<Rightarrow> string \<Rightarrow> usage option" where
  "usage_from_counts v prompt_key completion_key cached_key model endpoint =
     (let raw_prompt = Option.bind (jget prompt_key v) as_i64;
          raw_completion = Option.bind (jget completion_key v) as_i64
      in if raw_prompt = None \<and> raw_completion = None then None
         else (let prompt = max (unwrap_or raw_prompt 0) 0;
                   completion = max (unwrap_or raw_completion 0) 0;
                   cached = (case cached_key of
                               Some k \<Rightarrow> min (max (unwrap_or (Option.bind (jget k v) as_i64) 0) 0) prompt
                             | None \<Rightarrow> 0)
               in Some \<lparr>u_model = model, u_endpoint = endpoint, u_input_tokens = prompt,
                        u_output_tokens = completion, u_cached_tokens = cached,
                        u_total_tokens = saturating_add prompt completion, u_api_key_id = None\<rparr>))"

definition usage_from_ollama :: "json \<Rightarrow> string \<Rightarrow> string \<Rightarrow> usage option" where
  "usage_from_ollama v model endpoint =
     usage_from_counts v ''prompt_eval_count'' ''eval_count'' None model endpoint"

definition usage_from_llamacpp :: "json \<Rightarrow> string \<Rightarrow> string \<Rightarrow> usage option" where
  "usage_from_llamacpp v model endpoint =
     usage_from_counts v ''tokens_evaluated'' ''tokens_predicted'' (Some ''tokens_cached'') model endpoint"

definition usage_root :: "json \<Rightarrow> json" where
  "usage_root v =
     unwrap_or (or_else (opt_filter (\<lambda>r. jget ''usage'' r \<noteq> None) (jget ''response'' v))
                        (opt_filter (\<lambda>m. jget ''usage'' m \<noteq> None) (jget ''message'' v))) v"

definition usage_model :: "json \<Rightarrow> string option \<Rightarrow> string" where
  "usage_model container req_model =
     unwrap_or (or_else (Option.bind (jget ''model'' container) as_str) req_model) ''unknown''"

definition extract_usage :: "json \<Rightarrow> string \<Rightarrow> string option \<Rightarrow> usage option" where
  "extract_usage v endpoint req_model =
     (let container = usage_root v; model = usage_model container req_model
      in case opt_filter (\<lambda>u. \<not> is_null u) (jget ''usage'' container) of
           Some usage \<Rightarrow> usage_from_openai usage model endpoint
         | None \<Rightarrow>
             if Option.bind (jget ''stop'' v) as_bool = Some True then usage_from_llamacpp v model endpoint
             else if jget ''prompt_eval_count'' v \<noteq> None \<or> jget ''eval_count'' v \<noteq> None
             then usage_from_ollama v model endpoint
             else None)"

section \<open>Endpoints and stream lines\<close>

definition expects_usage :: "string \<Rightarrow> bool" where
  "expects_usage endpoint \<longleftrightarrow>
     (if ends_with endpoint ''/api/embeddings'' then False
      else contains_str endpoint ''chat/completions'' \<or>
           (\<exists>s \<in> set [''/completions'', ''/completion'', ''/infill'', ''/embeddings'', ''/responses'',
                      ''/messages'', ''/rerank'', ''/score'', ''/pooling'', ''/api/chat'',
                      ''/api/generate'', ''/api/embed'']. ends_with endpoint s))"

definition parse_sse_line ::
    "(string \<Rightarrow> json option) \<Rightarrow> string \<Rightarrow> string \<Rightarrow> string option \<Rightarrow> usage option" where
  "parse_sse_line from_str line endpoint req_model =
     (case strip_prefix ''data:'' (trim (from_utf8_lossy line)) of
        None \<Rightarrow> None
      | Some rest \<Rightarrow>
          (let data = trim rest
           in if data = ''[DONE]'' then None
              else (case from_str data of
                      None \<Rightarrow> None
                    | Some v \<Rightarrow> extract_usage v endpoint req_model)))"

definition parse_ndjson_line ::
    "(string \<Rightarrow> json option) \<Rightarrow> string \<Rightarrow> string \<Rightarrow> string option \<Rightarrow> usage option" where
  "parse_ndjson_line from_str line endpoint req_model =
     (let data = trim (from_utf8_lossy line)
      in if data = [] then None
         else (case from_str data of
                 None \<Rightarrow> None
               | Some v \<Rightarrow> extract_usage v endpoint req_model))"

section \<open>The scavenger\<close>

definition PROMPT_KEYS :: "string list" where
  "PROMPT_KEYS = [''prompt_tokens'', ''input_tokens'', ''tokens_evaluated'', ''prompt_eval_count'',
                  ''prompt_token_count'']"

definition COMPLETION_KEYS :: "string list" where
  "COMPLETION_KEYS = [''completion_tokens'', ''output_tokens'', ''tokens_predicted'', ''eval_count'',
                      ''completion_token_count'', ''candidates_token_count'']"

definition TOTAL_KEYS :: "string list" where
  "TOTAL_KEYS = [''total_tokens'', ''total_token_count'']"

definition CACHED_KEYS :: "string list" where
  "CACHED_KEYS = [''cached_tokens'', ''tokens_cached'', ''cache_read_input_tokens'']"

definition find_i64 :: "(string \<times> json) list \<Rightarrow> string list \<Rightarrow> int option" where
  "find_i64 obj keys = find_map (\<lambda>k. Option.bind (map_of obj k) as_i64) keys"

text \<open>The counts of one object, when it carries a prompt, completion or total field.\<close>

definition object_counts :: "(string \<times> json) list \<Rightarrow> (int \<times> int \<times> int \<times> int) option" where
  "object_counts m =
     (let prompt = find_i64 m PROMPT_KEYS;
          completion = find_i64 m COMPLETION_KEYS;
          total = find_i64 m TOTAL_KEYS
      in if prompt \<noteq> None \<or> completion \<noteq> None \<or> total \<noteq> None
         then (let cached = unwrap_or
                     (or_else (find_i64 m CACHED_KEYS)
                       (Option.bind (Option.bind (or_else (map_of m ''prompt_tokens_details'')
                                                          (map_of m ''input_tokens_details''))
                                                 as_object)
                                    (\<lambda>d. find_i64 d CACHED_KEYS))) 0
               in Some (unwrap_or prompt 0, unwrap_or completion 0, unwrap_or total 0, cached))
         else None)"

lemma size_object_value [termination_simp]:
  "(k, v) \<in> set m \<Longrightarrow> size v < Suc (size_list (size_prod (\<lambda>x. 0) size) m)"
  by (induction m) auto

fun scavenge_counts :: "json \<Rightarrow> (int \<times> int \<times> int \<times> int) option" where
  "scavenge_counts (Object m) =
     (case object_counts m of
        Some r \<Rightarrow> Some r
      | None \<Rightarrow> find_map (\<lambda>kv. case kv of (k, v) \<Rightarrow> scavenge_counts v) m)"
| "scavenge_counts (Array a) = find_map scavenge_counts a"
| "scavenge_counts _ = None"

fun scavenge_model :: "json \<Rightarrow> string option" where
  "scavenge_model (Object m) =
     (case find_map (\<lambda>key. Option.bind (map_of m key) as_str) [''model'', ''model_name'', ''model_id''] of
        Some s \<Rightarrow> Some s
      | None \<Rightarrow> find_map (\<lambda>kv. case kv of (k, v) \<Rightarrow> scavenge_model v) m)"
| "scavenge_model (Array a) = find_map scavenge_model a"
| "scavenge_model _ = None"

definition scavenge_usage :: "json \<Rightarrow> string \<Rightarrow> string option \<Rightarrow> usage option" where
  "scavenge_usage v endpoint req_model =
     (case scavenge_counts v of
        None \<Rightarrow> None
      | Some (prompt0, completion0, total0, cached0) \<Rightarrow>
          (let prompt = max prompt0 0;
               completion = max completion0 0;
               total = max total0 0;
               cached = min (max cached0 0) prompt;
               model = unwrap_or (or_else (scavenge_model v) req_model) ''unknown''
           in Some \<lparr>u_model = model, u_endpoint = endpoint, u_input_tokens = prompt,
                    u_output_tokens = completion, u_cached_tokens = cached,
                    u_total_tokens = (if total > 0 then total else saturating_add prompt completion),
                    u_api_key_id = None\<rparr>))"

section \<open>Lemmas\<close>

lemma bind_as_i64_range: "Option.bind x as_i64 = Some n \<Longrightarrow> in_i64 n"
  by (cases x) (simp_all add: as_i64_range)

lemma num_of_range: "num_of keys v = Some n \<Longrightarrow> in_i64 n"
  unfolding num_of_def by (drule find_map_Some) (auto dest: bind_as_i64_range)

lemma find_i64_range: "find_i64 m keys = Some n \<Longrightarrow> in_i64 n"
  unfolding find_i64_def by (drule find_map_Some) (auto dest: bind_as_i64_range)

text \<open>Clamping an optional count at zero gives a non-negative 64-bit count.\<close>

definition count_ok :: "int \<Rightarrow> bool" where
  "count_ok n \<longleftrightarrow> 0 \<le> n \<and> n \<le> i64_max"

lemma count_ok_0 [simp]: "count_ok 0"
  by (simp add: count_ok_def i64_max_def)

lemma count_ok_clamp: "in_i64 n \<Longrightarrow> count_ok (max n 0)"
  by (simp add: count_ok_def machine_int)

lemma count_ok_in: "count_ok n \<Longrightarrow> in_i64 n"
  by (simp add: count_ok_def machine_int)

lemma count_ok_unwrap:
  assumes "\<And>n. x = Some n \<Longrightarrow> in_i64 n" "count_ok d"
  shows "count_ok (max (unwrap_or x d) 0)"
proof (cases x)
  case None
  with assms(2) show ?thesis by (simp add: count_ok_def)
next
  case (Some n)
  with assms(1) show ?thesis by (simp add: count_ok_clamp)
qed

lemma count_ok_add: "count_ok a \<Longrightarrow> count_ok b \<Longrightarrow> count_ok (saturating_add a b)"
  by (simp add: count_ok_def machine_int)

lemma count_ok_num [simp]: "count_ok d \<Longrightarrow> count_ok (max (unwrap_or (num_of keys v) d) 0)"
  by (rule count_ok_unwrap) (auto dest: num_of_range)

lemma count_ok_bind [simp]: "count_ok (max (unwrap_or (Option.bind x as_i64) 0) 0)"
  by (rule count_ok_unwrap) (auto dest: bind_as_i64_range)

lemma usage_ok_intro:
  assumes "count_ok p" "count_ok c" "count_ok t"
  shows "usage_ok \<lparr>u_model = m, u_endpoint = e, u_input_tokens = p, u_output_tokens = c,
           u_cached_tokens = min (max k 0) p, u_total_tokens = t, u_api_key_id = i\<rparr>"
  using assms by (auto simp: usage_ok_def count_ok_def)

definition usage_result_ok :: "string \<Rightarrow> usage option \<Rightarrow> bool" where
  "usage_result_ok endpoint r \<longleftrightarrow>
     (case r of None \<Rightarrow> True
      | Some u \<Rightarrow> usage_ok u \<and> u_endpoint u = endpoint \<and> u_api_key_id u = None)"

lemma usage_result_okI:
  "usage_ok u \<Longrightarrow> u_endpoint u = endpoint \<Longrightarrow> u_api_key_id u = None \<Longrightarrow>
     usage_result_ok endpoint (if b then None else Some u)"
  by (simp add: usage_result_ok_def)

lemma count_ok_if: "count_ok a \<Longrightarrow> count_ok b \<Longrightarrow> count_ok (if c then a else b)"
  by simp

lemma usage_from_openai_ok: "usage_result_ok endpoint (usage_from_openai v model endpoint)"
proof -
  let ?total = "\<lambda>raw p c. case raw of
      Some t \<Rightarrow> if t > 0 then t else if t = 0 \<and> p = 0 \<and> c = 0 then 0 else saturating_add p c
    | None \<Rightarrow> saturating_add p c"
  have total: "count_ok (?total (num_of ks v) p c)" if "count_ok p" "count_ok c" for ks p c
  proof (cases "num_of ks v")
    case None
    with that show ?thesis by (simp add: count_ok_add)
  next
    case (Some t)
    with that num_of_range [OF Some] show ?thesis
      by (cases "t > 0") (simp_all add: count_ok_add, simp add: count_ok_def in_i64_def)
  qed
  show ?thesis
    unfolding usage_from_openai_def Let_def
    by (intro usage_result_okI usage_ok_intro count_ok_add total count_ok_num count_ok_if count_ok_0
          usage.select_convs)
qed

lemma usage_from_counts_ok: "usage_result_ok endpoint (usage_from_counts v p c k model endpoint)"
proof -
  have "usage_ok \<lparr>u_model = m, u_endpoint = e, u_input_tokens = p, u_output_tokens = c,
           u_cached_tokens = 0, u_total_tokens = t, u_api_key_id = i\<rparr>"
    if "count_ok p" "count_ok c" "count_ok t" for m e p c t i
    using that by (simp add: usage_ok_def count_ok_def)
  then show ?thesis
    unfolding usage_from_counts_def Let_def usage_result_ok_def
    by (auto simp: usage_ok_intro count_ok_add split: option.splits)
qed

lemma extract_usage_ok: "usage_result_ok endpoint (extract_usage v endpoint req_model)"
  unfolding extract_usage_def Let_def
  by (auto simp: usage_from_openai_ok usage_from_llamacpp_def usage_from_ollama_def
        usage_from_counts_ok usage_result_ok_def [of endpoint None] split: option.splits)

definition counts_ok :: "(int \<times> int \<times> int \<times> int) option \<Rightarrow> bool" where
  "counts_ok r = (case r of None \<Rightarrow> True | Some (p, c, t, k) \<Rightarrow> in_i64 p \<and> in_i64 c \<and> in_i64 t)"

lemma unwrap_find_i64: "in_i64 (unwrap_or (find_i64 m keys) 0)"
proof (cases "find_i64 m keys")
  case None
  then show ?thesis by (simp add: machine_int)
next
  case (Some n)
  then show ?thesis by (simp add: find_i64_range)
qed

lemma object_counts_ok: "counts_ok (object_counts m)"
  unfolding object_counts_def Let_def counts_ok_def by (simp add: unwrap_find_i64)

lemma counts_ok_find_map:
  assumes "\<And>x. x \<in> set xs \<Longrightarrow> counts_ok (f x)"
  shows "counts_ok (find_map f xs)"
proof (cases "find_map f xs")
  case (Some r)
  then obtain x where "x \<in> set xs" "f x = Some r" by (blast dest: find_map_Some)
  with assms Some show ?thesis by metis
qed (simp add: counts_ok_def)

lemma scavenge_counts_ok: "counts_ok (scavenge_counts v)"
proof (induction v rule: scavenge_counts.induct)
  case (1 m)
  have "counts_ok (find_map (\<lambda>(k, v). scavenge_counts v) m)" if "object_counts m = None"
    using 1 [OF that] by (intro counts_ok_find_map) auto
  then show ?case
    using object_counts_ok [of m] by (cases "object_counts m") (simp_all add: counts_ok_def)
next
  case (2 a)
  then show ?case by (simp add: counts_ok_find_map)
qed (simp_all add: counts_ok_def)

lemma scavenge_usage_ok: "usage_result_ok endpoint (scavenge_usage v endpoint req_model)"
proof (cases "scavenge_counts v")
  case None
  then show ?thesis by (simp add: scavenge_usage_def usage_result_ok_def)
next
  case (Some r)
  then obtain p c t k where s: "scavenge_counts v = Some (p, c, t, k)" by (cases r) auto
  with scavenge_counts_ok [of v] have "count_ok (max p 0)" "count_ok (max c 0)" "count_ok (max t 0)"
    by (simp_all add: counts_ok_def count_ok_clamp)
  then show ?thesis
    unfolding scavenge_usage_def s usage_result_ok_def Let_def
    by (auto simp del: max.bounded_iff intro!: usage_ok_intro count_ok_add)
qed

section \<open>Properties\<close>

text \<open>
  C35: Whatever JSON an upstream sends, a usage record taken from it is well formed: token counts are
  non-negative 64-bit integers (hostile negative or huge counts are clamped or saturated), cached
  tokens never exceed input tokens, the record carries the proxied endpoint and no API key. It holds
  for the recognised shapes and for the heuristic scavenger.
\<close>

theorem usage_extraction_sound:
  "(case extract_usage v endpoint req_model of
      None \<Rightarrow> True
    | Some u \<Rightarrow> usage_ok u \<and> u_endpoint u = endpoint \<and> u_api_key_id u = None) \<and>
   (case scavenge_usage v endpoint req_model of
      None \<Rightarrow> True
    | Some u \<Rightarrow> usage_ok u \<and> u_endpoint u = endpoint \<and> u_api_key_id u = None)"
  using extract_usage_ok [of endpoint v req_model] scavenge_usage_ok [of endpoint v req_model]
  unfolding usage_result_ok_def by (rule conjI)

end
