(* ===== verification/UsageStream.thy ===== *)
theory UsageStream
  imports UsageExtract
begin

text \<open>
  Response streaming with usage accounting (\<open>crates/twl-server/src/proxy/stream.rs\<close>): the bounded
  line and body buffers, the merge of streamed usage observations, the three accounting streams as
  generators that a consumer polls, and what the recorder writes when a stream is dropped.
\<close>

section \<open>Buffers\<close>

definition MAX_ACCOUNTING_BUFFER :: nat where
  "MAX_ACCOUNTING_BUFFER = 8 * 1024 * 1024"

definition MAX_LINE :: nat where
  "MAX_LINE = 1024 * 1024"

definition newline :: char where
  "newline = CHR 0x0A"

record line_buffer =
  lb_buf :: string
  lb_discarding :: bool

definition line_buffer_new :: line_buffer where
  "line_buffer_new = \<lparr>lb_buf = [], lb_discarding = False\<rparr>"

text \<open>
  The forward scan. The bytes from \<open>next_start\<close> up to the scan position are the second argument;
  the result has the lines handed to \<open>on_line\<close>, in order, and the bytes after the last newline.
\<close>

fun scan_lines :: "nat \<Rightarrow> string \<Rightarrow> string \<Rightarrow> string list \<times> string" where
  "scan_lines limit cur [] = ([], cur)"
| "scan_lines limit cur (b # bs) =
     (if b = newline
      then (case scan_lines limit [] bs of (ls, rest) \<Rightarrow>
              (if length cur + 1 > limit then ls else (cur @ [b]) # ls, rest))
      else scan_lines limit (cur @ [b]) bs)"

definition scan_push :: "string \<Rightarrow> line_buffer \<times> string list" where
  "scan_push buf =
     (case scan_lines MAX_LINE [] buf of (ls, rest) \<Rightarrow>
        (if length rest > MAX_LINE then \<lparr>lb_buf = [], lb_discarding = True\<rparr>
         else \<lparr>lb_buf = rest, lb_discarding = False\<rparr>, ls))"

definition line_buffer_push :: "string \<Rightarrow> line_buffer \<Rightarrow> line_buffer \<times> string list" where
  "line_buffer_push chunk lb =
     (let buf = lb_buf lb @ chunk
      in if lb_discarding lb
         then (case position (\<lambda>b. b = newline) buf of
                 None \<Rightarrow> (\<lparr>lb_buf = (if length buf > MAX_LINE then [] else buf), lb_discarding = True\<rparr>, [])
               | Some i \<Rightarrow> scan_push (drop (i + 1) buf))
         else scan_push buf)"

definition line_buffer_remainder :: "line_buffer \<Rightarrow> string" where
  "line_buffer_remainder lb = (if lb_discarding lb then [] else lb_buf lb)"

record bounded_buffer =
  bb_buf :: string
  bb_overflowed :: bool

definition bounded_buffer_new :: bounded_buffer where
  "bounded_buffer_new = \<lparr>bb_buf = [], bb_overflowed = False\<rparr>"

definition bounded_buffer_push :: "bounded_buffer \<Rightarrow> string \<Rightarrow> bounded_buffer" where
  "bounded_buffer_push bb chunk =
     (if bb_overflowed bb then bb
      else if length (bb_buf bb) + length chunk > MAX_ACCOUNTING_BUFFER
      then \<lparr>bb_buf = [], bb_overflowed = True\<rparr>
      else bb\<lparr>bb_buf := bb_buf bb @ chunk\<rparr>)"

definition bounded_buffer_complete :: "bounded_buffer \<Rightarrow> string option" where
  "bounded_buffer_complete bb = (if bb_overflowed bb then None else Some (bb_buf bb))"

section \<open>Usage of a stream\<close>

definition accumulate_usage :: "usage option \<Rightarrow> usage \<Rightarrow> usage option" where
  "accumulate_usage current next_usage =
     (case current of
        None \<Rightarrow> Some next_usage
      | Some existing \<Rightarrow>
          (let model = (if u_model existing = ''unknown'' then u_model next_usage else u_model existing);
               input = max (u_input_tokens existing) (u_input_tokens next_usage);
               output = max (u_output_tokens existing) (u_output_tokens next_usage);
               cached = max (u_cached_tokens existing) (u_cached_tokens next_usage);
               total = max (max (u_total_tokens existing) (u_total_tokens next_usage))
                           (saturating_add input output)
           in Some (existing\<lparr>u_model := model, u_input_tokens := input, u_output_tokens := output,
                             u_cached_tokens := cached, u_total_tokens := total\<rparr>)))"

definition finalize_buffered_usage ::
    "(string \<Rightarrow> json option) \<Rightarrow> string \<Rightarrow> string \<Rightarrow> string option \<Rightarrow> usage option" where
  "finalize_buffered_usage from_slice bytes endpoint req_model =
     (case from_slice bytes of
        None \<Rightarrow> None
      | Some v \<Rightarrow>
          (case extract_usage v endpoint req_model of
             Some u \<Rightarrow> Some u
           | None \<Rightarrow> scavenge_usage v endpoint req_model))"

text \<open>
  What \<open>UsageRecorder::drop\<close> hands to the accounting writer: the usage, if any, attributed to the key.
\<close>

definition recorder_usage :: "int option \<Rightarrow> usage option \<Rightarrow> usage option" where
  "recorder_usage api_key_id u = map_option (\<lambda>u. u\<lparr>u_api_key_id := api_key_id\<rparr>) u"

section \<open>Accounting streams\<close>

text \<open>
  A generator suspends at every \<open>yield\<close>. \<open>Failed\<close> is the suspension after the upstream error was
  yielded: the next poll leaves the loop without polling the upstream again. A poll is given what
  the upstream answers if it is asked: \<open>None\<close> at its end, an error, or a chunk.
\<close>

datatype gen_phase = Reading | Failed | Finished

record line_stream =
  ls_usage :: "usage option"
  ls_lines :: line_buffer
  ls_saw_usage :: bool
  ls_phase :: gen_phase

definition line_stream_new :: line_stream where
  "line_stream_new = \<lparr>ls_usage = None, ls_lines = line_buffer_new, ls_saw_usage = False, ls_phase = Reading\<rparr>"

definition on_line :: "(string \<Rightarrow> usage option) \<Rightarrow> line_stream \<Rightarrow> string \<Rightarrow> line_stream" where
  "on_line parse_line st line =
     (case parse_line line of
        None \<Rightarrow> st
      | Some u \<Rightarrow> st\<lparr>ls_usage := accumulate_usage (ls_usage st) u, ls_saw_usage := True\<rparr>)"

definition line_flush :: "(string \<Rightarrow> usage option) \<Rightarrow> line_stream \<Rightarrow> line_stream" where
  "line_flush parse_line st =
     (on_line parse_line st (line_buffer_remainder (ls_lines st)))\<lparr>ls_phase := Finished\<rparr>"

definition line_poll ::
    "(string \<Rightarrow> usage option) \<Rightarrow> line_stream \<Rightarrow> ('e + string) option \<Rightarrow> line_stream \<times> ('e + string) option" where
  "line_poll parse_line st answer =
     (case ls_phase st of
        Finished \<Rightarrow> (st, None)
      | Failed \<Rightarrow> (line_flush parse_line st, None)
      | Reading \<Rightarrow>
          (case answer of
             None \<Rightarrow> (line_flush parse_line st, None)
           | Some (Inl e) \<Rightarrow> (st\<lparr>ls_phase := Failed\<rparr>, Some (Inl e))
           | Some (Inr chunk) \<Rightarrow>
               (case line_buffer_push chunk (ls_lines st) of (lb, ls) \<Rightarrow>
                  ((foldl (on_line parse_line) st ls)\<lparr>ls_lines := lb\<rparr>, Some (Inr chunk)))))"

record body_stream =
  bs_usage :: "usage option"
  bs_body :: bounded_buffer
  bs_phase :: gen_phase

definition body_stream_new :: body_stream where
  "body_stream_new = \<lparr>bs_usage = None, bs_body = bounded_buffer_new, bs_phase = Reading\<rparr>"

definition body_finish :: "(string \<Rightarrow> usage option) \<Rightarrow> bool \<Rightarrow> body_stream \<Rightarrow> body_stream" where
  "body_finish finalize parse st =
     (case opt_filter (\<lambda>_. parse) (bounded_buffer_complete (bs_body st)) of
        None \<Rightarrow> st\<lparr>bs_phase := Finished\<rparr>
      | Some bytes \<Rightarrow> st\<lparr>bs_usage := finalize bytes, bs_phase := Finished\<rparr>)"

definition body_poll ::
    "(string \<Rightarrow> usage option) \<Rightarrow> bool \<Rightarrow> body_stream \<Rightarrow> ('e + string) option \<Rightarrow> body_stream \<times> ('e + string) option" where
  "body_poll finalize parse st answer =
     (case bs_phase st of
        Finished \<Rightarrow> (st, None)
      | Failed \<Rightarrow> (body_finish finalize parse st, None)
      | Reading \<Rightarrow>
          (case answer of
             None \<Rightarrow> (body_finish finalize parse st, None)
           | Some (Inl e) \<Rightarrow> (st\<lparr>bs_phase := Failed\<rparr>, Some (Inl e))
           | Some (Inr chunk) \<Rightarrow>
               (if parse then st\<lparr>bs_body := bounded_buffer_push (bs_body st) chunk\<rparr> else st,
                Some (Inr chunk))))"

text \<open>A consumer that polls once per answer.\<close>

fun run_polls :: "('s \<Rightarrow> 'a \<Rightarrow> 's \<times> 'o) \<Rightarrow> 's \<Rightarrow> 'a list \<Rightarrow> 's \<times> 'o list" where
  "run_polls poll st [] = (st, [])"
| "run_polls poll st (a # as) =
     (case poll st a of (st', out) \<Rightarrow> case run_polls poll st' as of (st'', outs) \<Rightarrow> (st'', out # outs))"

definition sse_accounting_poll where
  "sse_accounting_poll from_str endpoint req_model =
     line_poll (\<lambda>line. parse_sse_line from_str line endpoint req_model)"

definition ndjson_accounting_poll where
  "ndjson_accounting_poll from_str endpoint req_model =
     line_poll (\<lambda>line. parse_ndjson_line from_str line endpoint req_model)"

definition buffered_accounting_poll where
  "buffered_accounting_poll from_slice endpoint req_model parse =
     body_poll (\<lambda>bytes. finalize_buffered_usage from_slice bytes endpoint req_model) parse"

section \<open>Lines of a byte sequence\<close>

text \<open>
  The reference notion: the newline-terminated lines of a byte sequence and the bytes after the last
  newline.
\<close>

fun split_nl :: "string \<Rightarrow> string list \<times> string" where
  "split_nl [] = ([], [])"
| "split_nl (c # s) =
     (case split_nl s of (ls, r) \<Rightarrow>
        if c = newline then ([c] # ls, r)
        else (case ls of [] \<Rightarrow> ([], c # r) | l # ls' \<Rightarrow> ((c # l) # ls', r)))"

definition terminated_lines :: "string \<Rightarrow> string list" where
  "terminated_lines s = fst (split_nl s)"

definition partial_line :: "string \<Rightarrow> string" where
  "partial_line s = snd (split_nl s)"

definition short_lines :: "string \<Rightarrow> string list" where
  "short_lines s = filter (\<lambda>l. length l \<le> MAX_LINE) (terminated_lines s)"

definition short_rest :: "string \<Rightarrow> string" where
  "short_rest s = (if length (partial_line s) \<le> MAX_LINE then partial_line s else [])"

lemma split_nl_concat: "concat (terminated_lines s) @ partial_line s = s"
  unfolding terminated_lines_def partial_line_def
  by (induction s rule: split_nl.induct) (auto split: prod.splits list.splits)

lemma split_nl_no_nl: "newline \<notin> set s \<Longrightarrow> split_nl s = ([], s)"
  by (induction s) auto

lemma partial_no_nl: "newline \<notin> set (snd (split_nl s))"
  by (induction s rule: split_nl.induct) (auto split: prod.splits list.splits)

lemma split_nl_first:
  "newline \<notin> set a \<Longrightarrow> split_nl (a @ newline # r) = ((a @ [newline]) # fst (split_nl r), snd (split_nl r))"
  by (induction a) (auto split: prod.splits)

lemma split_nl_append:
  "split_nl (a @ b) =
     (fst (split_nl a) @ fst (split_nl (snd (split_nl a) @ b)), snd (split_nl (snd (split_nl a) @ b)))"
proof (induction a)
  case (Cons c a)
  show ?case
  proof (cases "fst (split_nl a)")
    case Nil
    with Cons.IH show ?thesis by (auto split: prod.splits list.splits)
  next
    case (Cons l ls)
    with Cons.IH show ?thesis by (auto split: prod.splits list.splits)
  qed
qed simp

lemma scan_lines_split:
  "newline \<notin> set cur \<Longrightarrow>
     scan_lines limit cur bs =
       (filter (\<lambda>l. length l \<le> limit) (fst (split_nl (cur @ bs))), snd (split_nl (cur @ bs)))"
proof (induction limit cur bs rule: scan_lines.induct)
  case (1 limit cur)
  then show ?case by (simp add: split_nl_no_nl)
next
  case (2 limit cur b bs)
  then show ?case by (cases "b = newline") (auto simp: split_nl_first split_nl_no_nl)
qed

text \<open>
  What the buffer holds after some bytes: the lines it delivered, and either the unterminated rest or
  the fact that this rest is already too long.
\<close>

definition line_rep :: "string \<Rightarrow> line_buffer \<times> string list \<Rightarrow> bool" where
  "line_rep bs s \<longleftrightarrow>
     snd s = short_lines bs \<and> length (lb_buf (fst s)) \<le> MAX_LINE \<and>
     (if lb_discarding (fst s)
      then MAX_LINE < length (partial_line bs) \<and> newline \<notin> set (lb_buf (fst s))
      else lb_buf (fst s) = partial_line bs)"

definition line_feed :: "line_buffer \<times> string list \<Rightarrow> string \<Rightarrow> line_buffer \<times> string list" where
  "line_feed s chunk =
     (case line_buffer_push chunk (fst s) of (lb, ls) \<Rightarrow> (lb, snd s @ ls))"

lemma scan_push_split:
  "scan_push buf =
     (if MAX_LINE < length (partial_line buf) then \<lparr>lb_buf = [], lb_discarding = True\<rparr>
      else \<lparr>lb_buf = partial_line buf, lb_discarding = False\<rparr>, short_lines buf)"
  by (simp add: scan_push_def scan_lines_split partial_line_def short_lines_def terminated_lines_def)

lemma short_lines_append: "short_lines (a @ b) = short_lines a @ short_lines (partial_line a @ b)"
  unfolding short_lines_def terminated_lines_def partial_line_def
  by (subst split_nl_append) simp

lemma partial_line_append: "partial_line (a @ b) = partial_line (partial_line a @ b)"
  unfolding partial_line_def by (subst split_nl_append) simp

lemma long_line_skipped:
  assumes "newline \<notin> set p" "newline \<notin> set a" "MAX_LINE < length p"
  shows "short_lines (p @ a @ newline # r) = short_lines r"
    and "partial_line (p @ a @ newline # r) = partial_line r"
  using split_nl_first [of "p @ a" r] assms
  by (simp_all add: short_lines_def terminated_lines_def partial_line_def)

lemma line_rep_scan:
  assumes "snd s @ short_lines buf = short_lines bs" "partial_line buf = partial_line bs"
  shows "line_rep bs (fst (scan_push buf), snd s @ snd (scan_push buf))"
  using assms by (simp add: line_rep_def scan_push_split)

lemma line_feed_rep:
  assumes "line_rep bs s"
  shows "line_rep (bs @ c) (line_feed s c)"
proof -
  obtain lb out where s: "s = (lb, out)" by (cases s)
  note rep = assms [unfolded s line_rep_def fst_conv snd_conv]
  have pnl: "newline \<notin> set (partial_line bs)" by (simp add: partial_line_def partial_no_nl)
  show ?thesis
  proof (cases "lb_discarding lb")
    case False
    with rep have "lb_buf lb = partial_line bs" "out = short_lines bs" by simp_all
    then show ?thesis
      using False line_rep_scan [of s "partial_line bs @ c" "bs @ c"]
      by (simp add: s line_feed_def line_buffer_push_def short_lines_append [of bs c]
            partial_line_append [of bs c] split_beta)
  next
    case True
    with rep have long: "MAX_LINE < length (partial_line bs)" and nl: "newline \<notin> set (lb_buf lb)"
      and out: "out = short_lines bs" by simp_all
    show ?thesis
    proof (cases "newline \<in> set c")
      case False
      with nl have "position (\<lambda>b. b = newline) (lb_buf lb @ c) = None" by (auto simp: position_None)
      moreover have "split_nl (partial_line bs @ c) = ([], partial_line bs @ c)"
        using pnl False by (simp add: split_nl_no_nl)
      ultimately show ?thesis
        using True False long nl out
        by (simp add: s line_feed_def line_buffer_push_def line_rep_def short_lines_append [of bs c]
              partial_line_append [of bs c])
           (simp add: short_lines_def terminated_lines_def partial_line_def)
    next
      case True': True
      then obtain a r where c: "c = a @ newline # r" and a: "newline \<notin> set a"
        by (metis split_list_first)
      have pos: "position (\<lambda>b. b = newline) (lb_buf lb @ c) = Some (length (lb_buf lb @ a))"
        using nl a position_append [of "lb_buf lb @ a" "\<lambda>b. b = newline" newline r] by (auto simp: c)
      have "drop (length (lb_buf lb @ a) + 1) (lb_buf lb @ c) = r" by (simp add: c)
      with True pos have push: "line_buffer_push c lb = scan_push r"
        by (simp add: line_buffer_push_def)
      have "line_rep (bs @ c) (fst (scan_push r), out @ snd (scan_push r))"
        using line_rep_scan [of s r "bs @ c"] long_line_skipped [OF pnl a long, of r]
        by (simp add: s out c short_lines_append [of bs] partial_line_append [of bs])
      with push show ?thesis by (simp add: s line_feed_def split_beta)
    qed
  qed
qed

lemma line_rep_new: "line_rep [] (line_buffer_new, [])"
  by (simp add: line_rep_def line_buffer_new_def short_lines_def terminated_lines_def partial_line_def)

interpretation line_acc: chunk_fed "(line_buffer_new, [])" line_feed line_rep
  by unfold_locales (rule line_rep_new, rule line_feed_rep)

text \<open>The body buffer holds the whole body for as long as it fits.\<close>

definition body_rep :: "string \<Rightarrow> bounded_buffer \<Rightarrow> bool" where
  "body_rep bs bb \<longleftrightarrow>
     (if length bs \<le> MAX_ACCOUNTING_BUFFER then bb = \<lparr>bb_buf = bs, bb_overflowed = False\<rparr>
      else bb = \<lparr>bb_buf = [], bb_overflowed = True\<rparr>)"

interpretation body_acc: chunk_fed bounded_buffer_new bounded_buffer_push body_rep
  by unfold_locales
     (auto simp: body_rep_def bounded_buffer_new_def bounded_buffer_push_def split: if_splits)

section \<open>Runs of the generators\<close>

definition observe :: "(string \<Rightarrow> usage option) \<Rightarrow> usage option \<Rightarrow> string list \<Rightarrow> usage option" where
  "observe parse_line u lines = foldl accumulate_usage u (List.map_filter parse_line lines)"

lemma observe_append: "observe p u (a @ b) = observe p (observe p u a) b"
  by (simp add: observe_def map_filter_def)

lemma on_lines_usage:
  "ls_usage (foldl (on_line p) st ls) = observe p (ls_usage st) ls"
  "ls_lines (foldl (on_line p) st ls) = ls_lines st"
  "ls_phase (foldl (on_line p) st ls) = ls_phase st"
  by (induction ls arbitrary: st)
     (auto simp: observe_def on_line_def List.map_filter_simps split: option.splits)

lemma run_polls_append:
  "run_polls poll st (as @ bs) =
     (case run_polls poll st as of (st', outs) \<Rightarrow>
        case run_polls poll st' bs of (st'', outs') \<Rightarrow> (st'', outs @ outs'))"
  by (induction as arbitrary: st) (auto split: prod.splits)

text \<open>The answers of an upstream that sends the given chunks.\<close>

definition sent :: "string list \<Rightarrow> ('e + string) option list" where
  "sent cs = map (Some \<circ> Inr) cs"

lemma line_poll_chunk:
  assumes "ls_phase st = Reading" "line_buffer_push c (ls_lines st) = (lb, ls)"
  shows "line_poll p st (Some (Inr c)) = ((foldl (on_line p) st ls)\<lparr>ls_lines := lb\<rparr>, Some (Inr c))"
  using assms by (simp add: line_poll_def)

lemma line_run_chunks:
  assumes "ls_phase st = Reading" "ls_usage st = observe p None out"
  shows "\<exists>st'. run_polls (line_poll p) st (sent cs) = (st', sent cs) \<and> ls_phase st' = Reading \<and>
    ls_lines st' = fst (foldl line_feed (ls_lines st, out) cs) \<and>
    ls_usage st' = observe p None (snd (foldl line_feed (ls_lines st, out) cs))"
  using assms
proof (induction cs arbitrary: st out)
  case (Cons c cs)
  obtain lb ls where push: "line_buffer_push c (ls_lines st) = (lb, ls)" by (metis surj_pair)
  let ?st = "(foldl (on_line p) st ls)\<lparr>ls_lines := lb\<rparr>"
  have "ls_phase ?st = Reading" "ls_usage ?st = observe p None (out @ ls)"
    using Cons.prems by (simp_all add: on_lines_usage observe_append)
  from Cons.IH [OF this] show ?case
    by (auto simp: line_feed_def [of "(ls_lines st, out)"] sent_def push
          line_poll_chunk [OF Cons.prems(1) push])
qed (simp add: sent_def)

text \<open>The state of a line stream that has forwarded some chunks.\<close>

lemma line_stream_forwarded:
  "\<exists>st. run_polls (line_poll p) line_stream_new (sent cs) = (st, sent cs) \<and>
     ls_phase st = Reading \<and> ls_usage st = observe p None (short_lines (concat cs)) \<and>
     line_buffer_remainder (ls_lines st) = short_rest (concat cs)"
proof -
  have new: "ls_phase line_stream_new = Reading" "ls_usage line_stream_new = observe p None []"
    "ls_lines line_stream_new = line_buffer_new"
    by (simp_all add: line_stream_new_def observe_def List.map_filter_simps)
  have rep: "line_rep (concat cs) (foldl line_feed (line_buffer_new, []) cs)"
    by (rule line_acc.rep_run)
  then have "line_buffer_remainder (fst (foldl line_feed (line_buffer_new, []) cs)) = short_rest (concat cs)"
    by (auto simp: line_rep_def line_buffer_remainder_def short_rest_def split: if_splits)
  moreover have "snd (foldl line_feed (line_buffer_new, []) cs) = short_lines (concat cs)"
    using rep by (simp add: line_rep_def)
  ultimately show ?thesis
    using line_run_chunks [OF new(1,2), of cs] unfolding new(3) by auto
qed

lemma line_flush_usage:
  "ls_usage (line_flush p st) = observe p (ls_usage st) [line_buffer_remainder (ls_lines st)]"
  by (auto simp: line_flush_def on_line_def observe_def List.map_filter_simps split: option.splits)

lemma body_run_chunks:
  assumes "bs_phase st = Reading"
  shows "run_polls (body_poll f parse) st (sent cs) =
    (st\<lparr>bs_body := (if parse then foldl bounded_buffer_push (bs_body st) cs else bs_body st)\<rparr>, sent cs)"
  using assms by (induction cs arbitrary: st) (auto simp: body_poll_def sent_def)

lemma body_stream_forwarded:
  "\<exists>bb. run_polls (body_poll f parse) body_stream_new (sent cs) = (body_stream_new\<lparr>bs_body := bb\<rparr>, sent cs) \<and>
     (parse \<longrightarrow> body_rep (concat cs) bb)"
  using body_run_chunks [of body_stream_new f parse cs] body_acc.rep_run [of cs]
  by (auto simp: body_stream_new_def)

section \<open>Merging observations\<close>

definition first_known :: "string list \<Rightarrow> string" where
  "first_known ms = (case find (\<lambda>m. m \<noteq> ''unknown'') ms of None \<Rightarrow> ''unknown'' | Some m \<Rightarrow> m)"

text \<open>The merged record of a list of observations, written down without reference to their order.\<close>

definition merged :: "usage list \<Rightarrow> usage \<Rightarrow> bool" where
  "merged us r \<longleftrightarrow> usage_ok r \<and>
     u_model r = first_known (map u_model us) \<and>
     u_input_tokens r = Max (u_input_tokens ` set us) \<and>
     u_output_tokens r = Max (u_output_tokens ` set us) \<and>
     u_cached_tokens r = Max (u_cached_tokens ` set us) \<and>
     (\<forall>u \<in> set us. u_total_tokens u \<le> u_total_tokens r) \<and>
     (1 < length us \<longrightarrow> saturating_add (u_input_tokens r) (u_output_tokens r) \<le> u_total_tokens r)"

lemma find_snoc: "find P (xs @ [x]) = (case find P xs of Some y \<Rightarrow> Some y | None \<Rightarrow> if P x then Some x else None)"
  by (induction xs) auto

lemma find_known_eq: "find (\<lambda>m. m \<noteq> (d :: string)) ms \<noteq> Some d"
  by (induction ms) auto

lemma first_known_snoc:
  "first_known (ms @ [m]) = (if first_known ms = ''unknown'' then m else first_known ms)"
  using find_known_eq [of "''unknown''" ms] unfolding first_known_def find_snoc
  by (auto split: option.splits)

lemma Max_image_snoc:
  fixes f :: "'a \<Rightarrow> int"
  assumes "us \<noteq> []"
  shows "Max (f ` set (us @ [u])) = max (Max (f ` set us)) (f u)"
  using assms by (simp add: max.commute)

lemma accumulate_usage_ok:
  assumes "usage_ok a" "usage_ok b"
  shows "usage_ok (the (accumulate_usage (Some a) b))"
proof -
  have "saturating_add x y \<le> i64_max" for x y
    using saturating_add_in [of x y] by (simp add: in_i64_def)
  with assms show ?thesis
    by (simp add: accumulate_usage_def usage_ok_def Let_def le_max_iff_disj) linarith
qed

lemma accumulate_fields:
  assumes "accumulate_usage (Some r) u = Some r'"
  shows "u_model r' = (if u_model r = ''unknown'' then u_model u else u_model r)"
    and "u_input_tokens r' = max (u_input_tokens r) (u_input_tokens u)"
    and "u_output_tokens r' = max (u_output_tokens r) (u_output_tokens u)"
    and "u_cached_tokens r' = max (u_cached_tokens r) (u_cached_tokens u)"
    and "u_total_tokens r \<le> u_total_tokens r'" and "u_total_tokens u \<le> u_total_tokens r'"
    and "saturating_add (u_input_tokens r') (u_output_tokens r') \<le> u_total_tokens r'"
  using assms by (auto simp: accumulate_usage_def Let_def)

lemma merged_snoc:
  assumes "merged us r" "us \<noteq> []" "usage_ok u"
  shows "\<exists>r'. accumulate_usage (Some r) u = Some r' \<and> merged (us @ [u]) r'"
proof -
  obtain r' where r': "accumulate_usage (Some r) u = Some r'" by (simp add: accumulate_usage_def Let_def)
  note f = accumulate_fields [OF r']
  have "usage_ok r'" using accumulate_usage_ok [of r u] assms r' by (simp add: merged_def)
  moreover have "u_model r' = first_known (map u_model (us @ [u]))"
    using assms(1) f(1) by (simp add: first_known_snoc merged_def)
  moreover have "\<forall>v \<in> set (us @ [u]). u_total_tokens v \<le> u_total_tokens r'"
    using assms(1) f(5,6) unfolding merged_def by fastforce
  ultimately have "merged (us @ [u]) r'"
    using assms(1,2) f(2-4,7) unfolding merged_def by (simp add: Max_image_snoc del: set_append)
  with r' show ?thesis by blast
qed

lemma accumulate_merged:
  "us \<noteq> [] \<Longrightarrow> \<forall>u \<in> set us. usage_ok u \<Longrightarrow> \<exists>r. foldl accumulate_usage None us = Some r \<and> merged us r"
proof (induction us rule: rev_nonempty_induct)
  case (single u)
  then show ?case by (simp add: accumulate_usage_def merged_def first_known_def)
next
  case (snoc u us)
  then obtain r where "foldl accumulate_usage None us = Some r" "merged us r" by auto
  with merged_snoc [of us r u] snoc show ?case by auto
qed

section \<open>Properties\<close>

text \<open>
  C16: Accounting never disturbs a streamed response and does not depend on how the network cuts it.
  Whatever chunks the upstream sends, the client receives exactly these chunks in this order. If the
  client goes away after them, the usage on record is the one merged from the complete lines of the
  bytes sent so far; if the upstream then ends or fails, the unterminated rest is examined too. Lines
  longer than \<open>MAX_LINE\<close> (newline included) are the only ones left out. The usage depends on the
  concatenation of the chunks alone.
\<close>

theorem line_stream_accounting:
  fixes e :: 'e and a :: "('e + string) option"
  shows "(case run_polls (line_poll parse) line_stream_new (sent cs :: ('e + string) option list) of (st, outs) \<Rightarrow>
      outs = sent cs \<and> ls_usage st = observe parse None (short_lines (concat cs))) \<and>
   (case run_polls (line_poll parse) line_stream_new ((sent cs :: ('e + string) option list) @ [None]) of (st, outs) \<Rightarrow>
      outs = sent cs @ [None] \<and> ls_phase st = Finished \<and>
      ls_usage st = observe parse None (short_lines (concat cs) @ [short_rest (concat cs)])) \<and>
   (case run_polls (line_poll parse) line_stream_new (sent cs @ [Some (Inl e), a]) of (st, outs) \<Rightarrow>
      outs = sent cs @ [Some (Inl e), None] \<and> ls_phase st = Finished \<and>
      ls_usage st = observe parse None (short_lines (concat cs) @ [short_rest (concat cs)]))"
proof -
  obtain st where run: "run_polls (line_poll parse) line_stream_new (sent cs :: ('e + string) option list) = (st, sent cs)"
    and st: "ls_phase st = Reading" "ls_usage st = observe parse None (short_lines (concat cs))"
      "line_buffer_remainder (ls_lines st) = short_rest (concat cs)"
    using line_stream_forwarded by blast
  have flush: "ls_phase (line_flush parse s) = Finished" for s
    by (simp add: line_flush_def)
  show ?thesis
    using st by (simp add: run run_polls_append line_poll_def line_flush_usage flush observe_append)
qed

text \<open>
  A response that is not a stream of lines is forwarded unchanged too. Its usage is read from the
  whole body once the upstream is done, provided accounting is on and the body fits the buffer of
  8 MiB; a longer body, a switched-off parser or a client that leaves early record nothing.
\<close>

theorem body_stream_accounting:
  "(case run_polls (body_poll finalize parse) body_stream_new ((sent cs :: ('e + string) option list) @ [None]) of (st, outs) \<Rightarrow>
      outs = sent cs @ [None] \<and> bs_phase st = Finished \<and>
      bs_usage st = (if parse \<and> length (concat cs) \<le> MAX_ACCOUNTING_BUFFER
                     then finalize (concat cs) else None)) \<and>
   (case run_polls (body_poll finalize parse) body_stream_new (sent cs :: ('e + string) option list) of (st, outs) \<Rightarrow>
      outs = sent cs \<and> bs_usage st = None \<and>
      length (bb_buf (bs_body st)) \<le> MAX_ACCOUNTING_BUFFER)"
proof -
  define bb where "bb = (if parse then foldl bounded_buffer_push bounded_buffer_new cs else bounded_buffer_new)"
  have run: "run_polls (body_poll finalize parse) body_stream_new (sent cs :: ('e + string) option list) =
      (body_stream_new\<lparr>bs_body := bb\<rparr>, sent cs)"
    by (subst body_run_chunks) (simp_all add: bb_def body_stream_new_def)
  have "parse \<longrightarrow> body_rep (concat cs) bb"
    using body_acc.rep_run [of cs] by (simp add: bb_def)
  moreover have "bb = bounded_buffer_new" if "\<not> parse" using that by (simp add: bb_def)
  ultimately show ?thesis
    unfolding run_polls_append run
    by (cases parse)
       (simp_all add: body_poll_def body_stream_new_def body_finish_def body_rep_def
          bounded_buffer_complete_def bounded_buffer_new_def split: if_splits)
qed

text \<open>
  Merging the usage observations of a stream loses nothing. From well-formed observations the
  record that is written has the largest input, output and cached counts ever reported, a total no
  smaller than any reported one nor, once several events were seen, than input plus output, and the
  first model name that is not \<open>unknown\<close>: an input count announced in the first event survives an
  output count announced in the last. The record is well formed again.
\<close>

theorem accumulate_usage_merges:
  assumes "us \<noteq> []" "\<forall>u \<in> set us. usage_ok u"
  shows "\<exists>r. foldl accumulate_usage None us = Some r \<and> usage_ok r \<and>
     u_model r = first_known (map u_model us) \<and>
     u_input_tokens r = Max (u_input_tokens ` set us) \<and>
     u_output_tokens r = Max (u_output_tokens ` set us) \<and>
     u_cached_tokens r = Max (u_cached_tokens ` set us) \<and>
     (\<forall>u \<in> set us. u_total_tokens u \<le> u_total_tokens r) \<and>
     (1 < length us \<longrightarrow> saturating_add (u_input_tokens r) (u_output_tokens r) \<le> u_total_tokens r)"
  using accumulate_merged [OF assms] unfolding merged_def by blast

text \<open>A message start with 41 input tokens, then a message delta with 9 output tokens.\<close>

definition start_event :: usage where
  "start_event = \<lparr>u_model = ''claude'', u_endpoint = ''/v1/messages'', u_input_tokens = 41,
     u_output_tokens = 0, u_cached_tokens = 0, u_total_tokens = 41, u_api_key_id = None\<rparr>"

definition delta_event :: usage where
  "delta_event = \<lparr>u_model = ''alias'', u_endpoint = ''/v1/messages'', u_input_tokens = 0,
     u_output_tokens = 9, u_cached_tokens = 0, u_total_tokens = 9, u_api_key_id = None\<rparr>"

theorem accumulate_usage_merges_witness:
  "\<exists>r. foldl accumulate_usage None [start_event, delta_event] = Some r \<and> u_model r = ''claude'' \<and>
     u_input_tokens r = 41 \<and> u_output_tokens r = 9 \<and> 50 \<le> u_total_tokens r"
proof -
  have "\<forall>u \<in> set [start_event, delta_event]. usage_ok u"
    by (simp add: start_event_def delta_event_def usage_ok_def i64_max_def)
  from accumulate_usage_merges [OF _ this] show ?thesis
    by (auto simp: start_event_def delta_event_def first_known_def machine_int)
qed

end
