(* ===== verification/Sql.thy ===== *)
theory Sql
  imports Identity "HOL-Library.Multiset" "HOL-Library.Product_Lexorder" "HOL-Library.Option_ord"
begin

text \<open>
  The building blocks of the statistics queries of \<open>twl-store\<close>, as SQLite evaluates them: \<open>SUM\<close> over
  integers with its overflow error, \<open>GROUP BY\<close>, the collection of fallible rows, and the inner and left
  joins; with the facts that a grouping neither loses nor duplicates a row.
\<close>

section \<open>Evaluation\<close>

text \<open>\<open>collect::<Result<Vec<_>>>\<close>: the first failing row fails the query.\<close>

fun map_result :: "('a \<Rightarrow> 'e + 'b) \<Rightarrow> 'a list \<Rightarrow> 'e + 'b list" where
  "map_result f [] = Inr []"
| "map_result f (x # xs) = bind_result (f x) (\<lambda>y. bind_result (map_result f xs) (\<lambda>ys. Inr (y # ys)))"

text \<open>\<open>SUM\<close> fails when an intermediate sum leaves the 64-bit range; \<open>COALESCE(SUM(x), 0)\<close> is 0 on no row.\<close>

definition sum_step :: "db_error + int \<Rightarrow> int \<Rightarrow> db_error + int" where
  "sum_step acc x =
     bind_result acc (\<lambda>s. case checked64 (s + x) of Some t \<Rightarrow> Inr t | None \<Rightarrow> Inl (Sqlite ''integer overflow''))"

definition sql_sum :: "int list \<Rightarrow> db_error + int" where
  "sql_sum xs = foldl sum_step (Inr 0) xs"

text \<open>The groups in the order their keys first occur, and in the order of their keys.\<close>

definition group_of :: "('r \<Rightarrow> 'k) \<Rightarrow> 'r list \<Rightarrow> 'k \<Rightarrow> 'k \<times> 'r list" where
  "group_of key rows k = (k, filter (\<lambda>r. key r = k) rows)"

definition groups :: "('r \<Rightarrow> 'k) \<Rightarrow> 'r list \<Rightarrow> ('k \<times> 'r list) list" where
  "groups key rows = map (group_of key rows) (remdups (map key rows))"

definition sorted_groups :: "('r \<Rightarrow> 'k::linorder) \<Rightarrow> 'r list \<Rightarrow> ('k \<times> 'r list) list" where
  "sorted_groups key rows = map (group_of key rows) (sort (remdups (map key rows)))"

definition inner_join :: "('a \<Rightarrow> 'b \<Rightarrow> bool) \<Rightarrow> 'a list \<Rightarrow> 'b list \<Rightarrow> ('a \<times> 'b) list" where
  "inner_join on xs ys = concat (map (\<lambda>x. map (Pair x) (filter (on x) ys)) xs)"

definition left_join :: "('a \<Rightarrow> 'b \<Rightarrow> bool) \<Rightarrow> 'a list \<Rightarrow> 'b list \<Rightarrow> ('a \<times> 'b option) list" where
  "left_join on xs ys =
     concat (map (\<lambda>x. case filter (on x) ys of [] \<Rightarrow> [(x, None)] | ms \<Rightarrow> map (\<lambda>y. (x, Some y)) ms) xs)"

text \<open>\<open>ORDER BY\<close> permutes the rows into the order of the key and leaves ties open.\<close>

definition orders :: "(('r \<Rightarrow> int) \<Rightarrow> 'r list \<Rightarrow> 'r list) \<Rightarrow> bool" where
  "orders order_by \<longleftrightarrow>
     (\<forall>key rows. mset (order_by key rows) = mset rows \<and> sorted (map key (order_by key rows)))"

section \<open>Facts\<close>

lemma orders_sort_key: "orders sort_key"
  by (simp add: orders_def)

lemma orders_mset: "orders order_by \<Longrightarrow> mset (order_by key rows) = mset rows"
  by (simp add: orders_def)

lemma orders_set: "orders order_by \<Longrightarrow> set (order_by key rows) = set rows"
  using orders_mset mset_eq_setD by blast

lemma orders_sum_list:
  fixes f :: "'r \<Rightarrow> int"
  assumes "orders order_by"
  shows "sum_list (map f (order_by key rows)) = sum_list (map f rows)"
  using orders_mset [OF assms] by (metis mset_map sum_mset_sum_list)

lemma map_result_Inr_iff: "map_result f xs = Inr ys \<longleftrightarrow> list_all2 (\<lambda>x y. f x = Inr y) xs ys"
proof (induction xs arbitrary: ys)
  case (Cons x xs)
  show ?case
    by (cases ys) (auto simp: bind_result_Inr Cons.IH)
qed auto

lemma map_result_length: "map_result f xs = Inr ys \<Longrightarrow> length ys = length xs"
  by (simp add: map_result_Inr_iff list_all2_lengthD)

lemma map_result_total: "(\<And>x. x \<in> set xs \<Longrightarrow> f x = Inr (g x)) \<Longrightarrow> map_result f xs = Inr (map g xs)"
  by (induction xs) auto

lemma map_result_sum:
  fixes h :: "'b \<Rightarrow> int"
  assumes "map_result f xs = Inr ys" "\<And>x y. x \<in> set xs \<Longrightarrow> f x = Inr y \<Longrightarrow> h y = g x"
  shows "sum_list (map h ys) = sum_list (map g xs)"
  using assms
proof (induction xs arbitrary: ys)
  case (Cons x xs)
  then obtain y zs where yz: "f x = Inr y" "map_result f xs = Inr zs" "ys = y # zs"
    by (auto simp: bind_result_Inr)
  have "sum_list (map h zs) = sum_list (map g xs)"
    using Cons.IH [OF yz(2)] Cons.prems(2) by simp
  with yz Cons.prems(2) [of x y] show ?case by simp
qed simp

lemma map_result_set:
  assumes "map_result f xs = Inr ys"
  shows "set ys = {y. \<exists>x \<in> set xs. f x = Inr y}"
  using assms by (induction xs arbitrary: ys) (auto simp: bind_result_Inr)

lemma map_result_map:
  assumes "map_result f xs = Inr ys" "\<And>x y. x \<in> set xs \<Longrightarrow> f x = Inr y \<Longrightarrow> h y = g x"
  shows "map h ys = map g xs"
  using assms by (induction xs arbitrary: ys) (auto simp: bind_result_Inr)

lemma sum_step_Inr:
  "sum_step (Inr s) x = (if in_i64 (s + x) then Inr (s + x) else Inl (Sqlite ''integer overflow''))"
  by (simp add: sum_step_def checked64_def)

lemma sum_step_Inl [simp]: "foldl sum_step (Inl e) xs = Inl e"
  by (induction xs) (simp_all add: sum_step_def)

lemma sum_foldl_exact: "foldl sum_step (Inr s) xs = Inr t \<Longrightarrow> t = s + sum_list xs"
proof (induction xs arbitrary: s)
  case (Cons x xs)
  show ?case
  proof (cases "in_i64 (s + x)")
    case True
    with Cons.prems have "foldl sum_step (Inr (s + x)) xs = Inr t"
      by (simp add: sum_step_Inr)
    from Cons.IH [OF this] show ?thesis by simp
  next
    case False
    with Cons.prems show ?thesis by (simp add: sum_step_Inr)
  qed
qed simp

lemma sql_sum_exact: "sql_sum xs = Inr t \<Longrightarrow> t = sum_list xs"
  using sum_foldl_exact [of 0 xs t] by (simp add: sql_sum_def)

lemma sum_foldl_total:
  assumes "\<forall>x \<in> set xs. 0 \<le> x" "0 \<le> s" "s + sum_list xs \<le> i64_max"
  shows "foldl sum_step (Inr s) xs = Inr (s + sum_list xs)"
  using assms
proof (induction xs arbitrary: s)
  case (Cons x xs)
  have "0 \<le> sum_list xs" using Cons.prems(1) by (auto intro: sum_list_nonneg)
  with Cons.prems have "in_i64 (s + x)" by (simp add: in_i64_def i64_min_def)
  then have "sum_step (Inr s) x = Inr (s + x)" by (simp add: sum_step_Inr)
  with Cons.IH [of "s + x"] Cons.prems show ?case by (simp add: add.assoc)
qed simp

lemma sql_sum_total: "\<forall>x \<in> set xs. 0 \<le> x \<Longrightarrow> sum_list xs \<le> i64_max \<Longrightarrow> sql_sum xs = Inr (sum_list xs)"
  using sum_foldl_total [of xs 0] by (simp add: sql_sum_def)

text \<open>A grouping partitions the rows.\<close>

lemma sum_list_filter_keys:
  fixes f :: "'r \<Rightarrow> int"
  assumes "distinct ks" "key ` set rows \<subseteq> set ks"
  shows "(\<Sum>k\<leftarrow>ks. sum_list (map f (filter (\<lambda>r. key r = k) rows))) = sum_list (map f rows)"
  using assms(2)
proof (induction rows)
  case (Cons r rows)
  let ?g = "\<lambda>k. sum_list (map f (filter (\<lambda>r. key r = k) rows))"
  have "(\<Sum>k\<leftarrow>ks. sum_list (map f (filter (\<lambda>r. key r = k) (r # rows)))) =
      (\<Sum>k\<leftarrow>ks. (if key r = k then f r else 0) + ?g k)"
    by (intro arg_cong [where f = sum_list] map_cong) auto
  also have "\<dots> = (\<Sum>k\<leftarrow>ks. if key r = k then f r else 0) + (\<Sum>k\<leftarrow>ks. ?g k)"
    by (rule sum_list_addf)
  also have "(\<Sum>k\<leftarrow>ks. if key r = k then f r else 0) = f r"
    using assms(1) Cons.prems by (simp add: sum_list_distinct_conv_sum_set sum.delta')
  finally show ?case using Cons.IH Cons.prems by simp
qed simp

lemma groups_sum:
  fixes f :: "'r \<Rightarrow> int"
  shows "(\<Sum>g\<leftarrow>groups key rows. sum_list (map f (snd g))) = sum_list (map f rows)"
  using sum_list_filter_keys [of "remdups (map key rows)" key rows f]
  by (simp add: groups_def group_of_def comp_def)

lemma sorted_groups_sum:
  fixes f :: "'r \<Rightarrow> int"
  shows "(\<Sum>g\<leftarrow>sorted_groups key rows. sum_list (map f (snd g))) = sum_list (map f rows)"
  using sum_list_filter_keys [of "sort (remdups (map key rows))" key rows f]
  by (simp add: sorted_groups_def group_of_def comp_def)

lemma groups_mem: "(k, rs) \<in> set (groups key rows) \<longleftrightarrow> k \<in> key ` set rows \<and> rs = filter (\<lambda>r. key r = k) rows"
  by (auto simp: groups_def group_of_def)

lemma sorted_groups_mem:
  "(k, rs) \<in> set (sorted_groups key rows) \<longleftrightarrow> k \<in> key ` set rows \<and> rs = filter (\<lambda>r. key r = k) rows"
  by (auto simp: sorted_groups_def group_of_def)

lemma groups_keys: "map fst (groups key rows) = remdups (map key rows)"
  by (simp add: groups_def group_of_def comp_def)

lemma sorted_groups_keys: "map fst (sorted_groups key rows) = sort (remdups (map key rows))"
  by (simp add: sorted_groups_def group_of_def comp_def)

text \<open>A left join on a key loses no row and duplicates none; an inner join keeps the matching ones.\<close>

lemma filter_at_most_one:
  assumes "distinct (map f ys)"
  shows "filter (\<lambda>y. f y = k) ys = (case find (\<lambda>y. f y = k) ys of None \<Rightarrow> [] | Some y \<Rightarrow> [y])"
  using assms
proof (induction ys)
  case (Cons y ys)
  show ?case
  proof (cases "f y = k")
    case True
    with Cons.prems have "filter (\<lambda>z. f z = k) ys = []" by (auto simp: filter_empty_conv image_iff)
    with True show ?thesis by simp
  qed (use Cons in simp)
qed simp

lemma left_join_unique:
  assumes "\<And>x. filter (on x) ys = (case m x of None \<Rightarrow> [] | Some y \<Rightarrow> [y])"
  shows "left_join on xs ys = map (\<lambda>x. (x, m x)) xs"
  unfolding left_join_def by (induction xs) (auto simp: assms split: option.splits)

lemma inner_join_unique:
  assumes "\<And>x. filter (on x) ys = (case m x of None \<Rightarrow> [] | Some y \<Rightarrow> [y])"
  shows "inner_join on xs ys = map (\<lambda>x. (x, the (m x))) (filter (\<lambda>x. m x \<noteq> None) xs)"
  unfolding inner_join_def by (induction xs) (auto simp: assms split: option.splits)

end
