(* ===== verification/UsageStore.thy ===== *)
theory UsageStore
  imports Sql
begin

text \<open>
  The usage store (\<open>crates/twl-store/src/usage.rs\<close>): the tables \<open>token_usage\<close> and \<open>energy\<close>, recording,
  the statistics queries of the dashboard, the 288 five-minute buckets of a day, and pruning. Failures
  of the connection pool and of a statement are inputs of the operations. SQLite's conversion of a
  time stamp to a local date and its floating-point summation are parameters.
\<close>

section \<open>Tables\<close>

record token_row =
  tr_id :: int
  tr_ts :: int
  tr_model :: string
  tr_endpoint :: string
  tr_input_tokens :: int
  tr_output_tokens :: int
  tr_cached_tokens :: int
  tr_total_tokens :: int
  tr_api_key_id :: "int option"

record energy_row =
  en_id :: int
  en_ts :: int
  en_elapsed_secs :: f64
  en_gpu_watts :: f64

record usage_db =
  ud_tokens :: "token_row list"
  ud_token_seq :: int
  ud_energy :: "energy_row list"
  ud_energy_seq :: int

definition usage_empty :: usage_db where
  "usage_empty = \<lparr>ud_tokens = [], ud_token_seq = 0, ud_energy = [], ud_energy_seq = 0\<rparr>"

section \<open>Recording\<close>

text \<open>\<open>clock\<close> is \<open>now_unix_secs()\<close>; \<open>pool\<close> and \<open>exec\<close> are the failures, if any, of the pool and the statement.\<close>

definition record_row :: "int option \<Rightarrow> db_error option \<Rightarrow> db_error option \<Rightarrow> usage \<Rightarrow> usage_db \<Rightarrow> usage_db" where
  "record_row clock pool exec u db =
     (case clock of
        None \<Rightarrow> db
      | Some ts \<Rightarrow>
          if pool \<noteq> None \<or> exec \<noteq> None \<or> ud_token_seq db = i64_max then db
          else db\<lparr>ud_tokens := ud_tokens db @ [\<lparr>tr_id = ud_token_seq db + 1, tr_ts = ts, tr_model = u_model u,
                    tr_endpoint = u_endpoint u, tr_input_tokens = u_input_tokens u,
                    tr_output_tokens = u_output_tokens u, tr_cached_tokens = u_cached_tokens u,
                    tr_total_tokens = u_total_tokens u, tr_api_key_id = u_api_key_id u\<rparr>],
                 ud_token_seq := ud_token_seq db + 1\<rparr>)"

definition record_energy ::
    "int option \<Rightarrow> db_error option \<Rightarrow> db_error option \<Rightarrow> f64 \<Rightarrow> f64 \<Rightarrow> usage_db \<Rightarrow> usage_db" where
  "record_energy clock pool exec elapsed_secs gpu_watts db =
     (if list_ex (\<lambda>v. \<not> is_finite v \<or> f_lt v (Fin 0)) [elapsed_secs, gpu_watts] then db
      else (case clock of
              None \<Rightarrow> db
            | Some ts \<Rightarrow>
                if pool \<noteq> None \<or> exec \<noteq> None \<or> ud_energy_seq db = i64_max then db
                else db\<lparr>ud_energy := ud_energy db @ [\<lparr>en_id = ud_energy_seq db + 1, en_ts = ts,
                          en_elapsed_secs = elapsed_secs, en_gpu_watts = gpu_watts\<rparr>],
                       ud_energy_seq := ud_energy_seq db + 1\<rparr>))"

section \<open>Aggregates\<close>

record totals =
  tt_requests :: int
  tt_input :: int
  tt_output :: int
  tt_cached :: int
  tt_total :: int

definition exact_totals :: "token_row list \<Rightarrow> totals" where
  "exact_totals rows =
     \<lparr>tt_requests = int (length rows), tt_input = sum_list (map tr_input_tokens rows),
      tt_output = sum_list (map tr_output_tokens rows), tt_cached = sum_list (map tr_cached_tokens rows),
      tt_total = sum_list (map tr_total_tokens rows)\<rparr>"

definition aggregate :: "token_row list \<Rightarrow> db_error + totals" where
  "aggregate rows =
     bind_result (sql_sum (map tr_input_tokens rows)) (\<lambda>i.
     bind_result (sql_sum (map tr_output_tokens rows)) (\<lambda>out.
     bind_result (sql_sum (map tr_cached_tokens rows)) (\<lambda>c.
     bind_result (sql_sum (map tr_total_tokens rows)) (\<lambda>t.
       Inr \<lparr>tt_requests = int (length rows), tt_input = i, tt_output = out, tt_cached = c, tt_total = t\<rparr>))))"

definition model_stats_of :: "string \<Rightarrow> totals \<Rightarrow> model_stats" where
  "model_stats_of model t =
     \<lparr>ms_model = model, ms_requests = tt_requests t, ms_input_tokens = tt_input t,
      ms_output_tokens = tt_output t, ms_cached_tokens = tt_cached t, ms_total_tokens = tt_total t\<rparr>"

definition key_stats_of :: "int option \<Rightarrow> string \<Rightarrow> totals \<Rightarrow> key_stats" where
  "key_stats_of api_key_id label t =
     \<lparr>ks_api_key_id = api_key_id, ks_label = label, ks_requests = tt_requests t, ks_input_tokens = tt_input t,
      ks_output_tokens = tt_output t, ks_cached_tokens = tt_cached t, ks_total_tokens = tt_total t\<rparr>"

text \<open>The first statement of every query: a connection from the pool.\<close>

definition with_conn :: "db_error option \<Rightarrow> (db_error + 'a) \<Rightarrow> db_error + 'a" where
  "with_conn pool r = (case pool of Some e \<Rightarrow> Inl e | None \<Rightarrow> r)"

definition since :: "int \<Rightarrow> usage_db \<Rightarrow> token_row list" where
  "since ts db = filter (\<lambda>t. ts \<le> tr_ts t) (ud_tokens db)"

section \<open>Totals per model\<close>

type_synonym 'r order_by = "('r \<Rightarrow> int) \<Rightarrow> 'r list \<Rightarrow> 'r list"

definition by_model :: "model_stats order_by \<Rightarrow> token_row list \<Rightarrow> db_error + model_stats list" where
  "by_model order_by rows =
     bind_result (map_result (\<lambda>(m, rs). bind_result (aggregate rs) (\<lambda>t. Inr (model_stats_of m t))) (groups tr_model rows))
       (\<lambda>ms. Inr (order_by (\<lambda>m. - ms_total_tokens m) ms))"

definition stats :: "model_stats order_by \<Rightarrow> db_error option \<Rightarrow> int \<Rightarrow> usage_db \<Rightarrow> db_error + model_stats list" where
  "stats order_by pool since_ts db = with_conn pool (by_model order_by (since since_ts db))"

text \<open>\<open>api_key_attribution a ON a.api_key_id = t.api_key_id\<close>; a \<open>NULL\<close> key matches no row.\<close>

definition on_key :: "token_row \<Rightarrow> attribution_row \<Rightarrow> bool" where
  "on_key t a \<longleftrightarrow> tr_api_key_id t = Some (at_api_key_id a)"

text \<open>The rows of a user: the inner join with the attribution and \<open>a.user_id = ?\<close>.\<close>

definition rows_of_user :: "int \<Rightarrow> database \<Rightarrow> token_row list \<Rightarrow> (token_row \<times> attribution_row) list" where
  "rows_of_user user_id idb rows =
     filter (\<lambda>(t, a). at_user_id a = user_id) (inner_join on_key rows (db_attribution idb))"

definition stats_for_user ::
    "model_stats order_by \<Rightarrow> db_error option \<Rightarrow> int \<Rightarrow> int \<Rightarrow> database \<Rightarrow> usage_db \<Rightarrow> db_error + model_stats list" where
  "stats_for_user order_by pool since_ts user_id idb db =
     with_conn pool (by_model order_by (map fst (rows_of_user user_id idb (since since_ts db))))"

section \<open>Totals per user and per key\<close>

datatype user_group = Generic | DeletedKey int | OwnedBy int

type_synonym joined_row = "(token_row \<times> attribution_row option) \<times> user_row option"

definition user_join :: "database \<Rightarrow> token_row list \<Rightarrow> joined_row list" where
  "user_join idb rows =
     left_join (\<lambda>(t, a) u. map_option at_user_id a = Some (us_id u))
       (left_join on_key rows (db_attribution idb)) (db_users idb)"

definition jr_token :: "joined_row \<Rightarrow> token_row" where
  "jr_token r = fst (fst r)"

text \<open>The key of the \<open>GROUP BY CASE\<close>: \<open>'generic'\<close>, \<open>'deleted:' || id\<close> or \<open>'user:' || id\<close>.\<close>

definition user_group_of :: "joined_row \<Rightarrow> user_group" where
  "user_group_of r =
     (case tr_api_key_id (jr_token r) of
        None \<Rightarrow> Generic
      | Some k \<Rightarrow> (case snd r of None \<Rightarrow> DeletedKey k | Some u \<Rightarrow> OwnedBy (us_id u)))"

text \<open>\<open>MAX\<close> over a column with \<open>NULL\<close>s, and the row SQLite takes the bare columns from: one with the maximum.\<close>

definition sql_max :: "int option list \<Rightarrow> int option" where
  "sql_max xs = foldl max None xs"

definition bare_row :: "joined_row list \<Rightarrow> joined_row" where
  "bare_row rs =
     (case filter (\<lambda>r. tr_api_key_id (jr_token r) = sql_max (map (tr_api_key_id \<circ> jr_token) rs)) rs of
        r # _ \<Rightarrow> r | [] \<Rightarrow> hd rs)"

definition user_label :: "int option \<Rightarrow> string option \<Rightarrow> int option \<Rightarrow> int option \<times> string" where
  "user_label user_id username dangling_key_id =
     (case (user_id, username, dangling_key_id) of
        (Some _, Some name, _) \<Rightarrow> (None, name)
      | (None, None, Some i) \<Rightarrow> (Some i, ''(deleted key #'' @ show_int i @ '')'')
      | _ \<Rightarrow> (None, ''GENERIC''))"

definition stats_by_user ::
    "key_stats order_by \<Rightarrow> db_error option \<Rightarrow> int \<Rightarrow> database \<Rightarrow> usage_db \<Rightarrow> db_error + key_stats list" where
  "stats_by_user order_by pool since_ts idb db =
     with_conn pool
       (bind_result
          (map_result
             (\<lambda>(g, rs). bind_result (aggregate (map jr_token rs)) (\<lambda>t.
                let u = snd (bare_row rs)
                in Inr (case user_label (map_option us_id u) (map_option us_username u)
                               (sql_max (map (tr_api_key_id \<circ> jr_token) rs)) of
                          (api_key_id, label) \<Rightarrow> key_stats_of api_key_id label t)))
             (groups user_group_of (user_join idb (since since_ts db))))
          (\<lambda>ks. Inr (order_by (\<lambda>k. - ks_total_tokens k) ks)))"

definition key_label :: "attribution_row \<Rightarrow> string" where
  "key_label a = (case at_name a of Some n \<Rightarrow> if n \<noteq> [] then n else at_prefix a | None \<Rightarrow> at_prefix a)"

definition stats_by_key_for_user ::
    "key_stats order_by \<Rightarrow> db_error option \<Rightarrow> int \<Rightarrow> int \<Rightarrow> database \<Rightarrow> usage_db \<Rightarrow> db_error + key_stats list" where
  "stats_by_key_for_user order_by pool since_ts user_id idb db =
     with_conn pool
       (bind_result
          (map_result
             (\<lambda>(k, rs). bind_result (aggregate (map fst rs)) (\<lambda>t. Inr (key_stats_of k (key_label (snd (hd rs))) t)))
             (groups (tr_api_key_id \<circ> fst) (rows_of_user user_id idb (since since_ts db))))
          (\<lambda>ks. Inr (order_by (\<lambda>k. - ks_total_tokens k) ks)))"

section \<open>Totals per day\<close>

text \<open>\<open>date_of\<close> is \<open>DATE(ts, 'unixepoch', 'localtime')\<close>, \<open>NULL\<close> out of its range, which the row mapping refuses.\<close>

definition by_day :: "(int \<Rightarrow> string option) \<Rightarrow> token_row list \<Rightarrow> db_error + daily_stats list" where
  "by_day date_of rows =
     map_result
       (\<lambda>((day, m), rs). bind_result (aggregate rs) (\<lambda>t.
          case day of
            None \<Rightarrow> Inl (Sqlite ''Invalid column type Null at index: 0, name: day'')
          | Some d \<Rightarrow> Inr \<lparr>ds_day = d, ds_model = m, ds_requests = tt_requests t, ds_input_tokens = tt_input t,
                           ds_output_tokens = tt_output t, ds_cached_tokens = tt_cached t, ds_total_tokens = tt_total t\<rparr>))
       (sorted_groups (\<lambda>t. (date_of (tr_ts t), tr_model t)) rows)"

definition daily ::
    "(int \<Rightarrow> string option) \<Rightarrow> db_error option \<Rightarrow> int \<Rightarrow> usage_db \<Rightarrow> db_error + daily_stats list" where
  "daily date_of pool since_ts db = with_conn pool (by_day date_of (since (max since_ts 0) db))"

definition daily_for_user ::
    "(int \<Rightarrow> string option) \<Rightarrow> db_error option \<Rightarrow> int \<Rightarrow> int \<Rightarrow> database \<Rightarrow> usage_db \<Rightarrow> db_error + daily_stats list" where
  "daily_for_user date_of pool since_ts user_id idb db =
     with_conn pool (by_day date_of (map fst (rows_of_user user_id idb (since (max since_ts 0) db))))"

text \<open>\<open>sum_real\<close> is SQLite's \<open>SUM\<close> over floating-point values; a NaN is stored and returned as \<open>NULL\<close>.\<close>

definition daily_energy ::
    "(f64 list \<Rightarrow> f64) \<Rightarrow> (int \<Rightarrow> string option) \<Rightarrow> db_error option \<Rightarrow> int \<Rightarrow> usage_db \<Rightarrow> db_error + daily_energy list" where
  "daily_energy sum_real date_of pool since_ts db =
     with_conn pool
       (map_result
          (\<lambda>(day, rs).
             let kwh = f_div (sum_real (map (\<lambda>e. f_mul (en_elapsed_secs e) (en_gpu_watts e)) rs)) (Fin 3600000)
             in case day of
                  None \<Rightarrow> Inl (Sqlite ''Invalid column type Null at index: 0, name: day'')
                | Some d \<Rightarrow> if kwh = NaN then Inl (Sqlite ''Invalid column type Null at index: 1, name: kwh'')
                            else Inr \<lparr>de_day = d, de_kwh = kwh\<rparr>)
          (sorted_groups (\<lambda>e. date_of (en_ts e)) (filter (\<lambda>e. max since_ts 0 \<le> en_ts e) (ud_energy db))))"

section \<open>The buckets of a day\<close>

definition empty_bucket :: "nat \<Rightarrow> today_bucket" where
  "empty_bucket i = \<lparr>tb_bucket = i, tb_input_tokens = 0, tb_output_tokens = 0, tb_cached_tokens = 0, tb_requests = 0\<rparr>"

text \<open>The loop of \<open>fill_288_buckets\<close> over the interval numbers that are left; \<open>sparse\<close> is what is left of the query.\<close>

fun fill_buckets :: "nat list \<Rightarrow> today_bucket list \<Rightarrow> today_bucket list" where
  "fill_buckets [] sparse = []"
| "fill_buckets (i # is) [] = empty_bucket i # fill_buckets is []"
| "fill_buckets (i # is) (b # bs) =
     (if tb_bucket b = i then b # fill_buckets is bs else empty_bucket i # fill_buckets is (b # bs))"

definition fill_288_buckets :: "today_bucket list \<Rightarrow> today_bucket list" where
  "fill_288_buckets sparse = fill_buckets [0..<288] sparse"

definition bucket_of :: "int \<Rightarrow> token_row \<Rightarrow> int" where
  "bucket_of day_start_ts t = min ((tr_ts t - day_start_ts) div 300) 287"

definition bucket_stats :: "int \<Rightarrow> token_row list \<Rightarrow> db_error + today_bucket" where
  "bucket_stats b rows =
     bind_result (sql_sum (map tr_input_tokens rows)) (\<lambda>i.
     bind_result (sql_sum (map tr_output_tokens rows)) (\<lambda>out.
     bind_result (sql_sum (map tr_cached_tokens rows)) (\<lambda>c.
       Inr \<lparr>tb_bucket = nat b, tb_input_tokens = i, tb_output_tokens = out, tb_cached_tokens = c,
            tb_requests = int (length rows)\<rparr>)))"

definition by_bucket :: "int \<Rightarrow> token_row list \<Rightarrow> db_error + today_bucket list" where
  "by_bucket day_start_ts rows =
     bind_result (map_result (\<lambda>(b, rs). bucket_stats b rs) (sorted_groups (bucket_of day_start_ts) rows))
       (\<lambda>bs. Inr (fill_288_buckets bs))"

definition in_day :: "int \<Rightarrow> int \<Rightarrow> usage_db \<Rightarrow> token_row list" where
  "in_day day_start_ts end_ts db = filter (\<lambda>t. day_start_ts \<le> tr_ts t \<and> tr_ts t < end_ts) (ud_tokens db)"

definition today_buckets :: "db_error option \<Rightarrow> int \<Rightarrow> int \<Rightarrow> usage_db \<Rightarrow> db_error + today_bucket list" where
  "today_buckets pool day_start_ts end_ts db =
     with_conn pool (by_bucket day_start_ts (in_day day_start_ts end_ts db))"

definition today_buckets_for_user ::
    "db_error option \<Rightarrow> int \<Rightarrow> int \<Rightarrow> int \<Rightarrow> database \<Rightarrow> usage_db \<Rightarrow> db_error + today_bucket list" where
  "today_buckets_for_user pool day_start_ts end_ts user_id idb db =
     with_conn pool (by_bucket day_start_ts (map fst (rows_of_user user_id idb (in_day day_start_ts end_ts db))))"

section \<open>Pruning\<close>

text \<open>Two statements, not one transaction: a failure of the second leaves the first one done.\<close>

definition prune_older_than ::
    "db_error option \<Rightarrow> db_error option \<Rightarrow> db_error option \<Rightarrow> int \<Rightarrow> usage_db \<Rightarrow> (db_error + nat) \<times> usage_db" where
  "prune_older_than pool exec1 exec2 cutoff db =
     (case pool of
        Some e \<Rightarrow> (Inl e, db)
      | None \<Rightarrow>
          (case exec1 of
             Some e \<Rightarrow> (Inl e, db)
           | None \<Rightarrow>
               (let usage_count = length (filter (\<lambda>t. tr_ts t < cutoff) (ud_tokens db));
                    db1 = db\<lparr>ud_tokens := filter (\<lambda>t. \<not> tr_ts t < cutoff) (ud_tokens db)\<rparr>
                in case exec2 of
                     Some e \<Rightarrow> (Inl e, db1)
                   | None \<Rightarrow>
                       (Inr (usage_count + length (filter (\<lambda>e. en_ts e < cutoff) (ud_energy db1))),
                        db1\<lparr>ud_energy := filter (\<lambda>e. \<not> en_ts e < cutoff) (ud_energy db1)\<rparr>))))"

section \<open>What the aggregates compute\<close>

text \<open>Counts are non-negative and no column sum overflows: then no query fails.\<close>

definition fits :: "token_row list \<Rightarrow> bool" where
  "fits rows \<longleftrightarrow>
     (\<forall>f \<in> {tr_input_tokens, tr_output_tokens, tr_cached_tokens, tr_total_tokens}.
        (\<forall>t \<in> set rows. 0 \<le> f t) \<and> sum_list (map f rows) \<le> i64_max)"

lemma sum_list_filter_le:
  fixes f :: "'r \<Rightarrow> int"
  shows "\<forall>t \<in> set rows. 0 \<le> f t \<Longrightarrow> sum_list (map f (filter P rows)) \<le> sum_list (map f rows)"
  by (induction rows) auto

lemma fits_filter:
  assumes "fits rows"
  shows "fits (filter P rows)"
  unfolding fits_def
proof (intro ballI conjI)
  fix f :: "token_row \<Rightarrow> int"
  assume f: "f \<in> {tr_input_tokens, tr_output_tokens, tr_cached_tokens, tr_total_tokens}"
  with assms have nn: "\<forall>t \<in> set rows. 0 \<le> f t" and le: "sum_list (map f rows) \<le> i64_max"
    by (auto simp: fits_def)
  from sum_list_filter_le [of rows f P, OF nn] le
  show "sum_list (map f (filter P rows)) \<le> i64_max" by linarith
  show "0 \<le> f t" if "t \<in> set (filter P rows)" for t
    using nn that by simp
qed

lemma fits_sql_sum:
  assumes "fits rows" "f \<in> {tr_input_tokens, tr_output_tokens, tr_cached_tokens, tr_total_tokens}"
  shows "sql_sum (map f rows) = Inr (sum_list (map f rows))"
  using assms by (intro sql_sum_total) (auto simp: fits_def)

lemma aggregate_fits: "fits rows \<Longrightarrow> aggregate rows = Inr (exact_totals rows)"
  by (simp add: aggregate_def fits_sql_sum exact_totals_def)

lemma bucket_stats_fits:
  "fits rows \<Longrightarrow> bucket_stats b rows =
     Inr \<lparr>tb_bucket = nat b, tb_input_tokens = sum_list (map tr_input_tokens rows),
          tb_output_tokens = sum_list (map tr_output_tokens rows),
          tb_cached_tokens = sum_list (map tr_cached_tokens rows), tb_requests = int (length rows)\<rparr>"
  by (simp add: bucket_stats_def fits_sql_sum)

lemma fits_group:
  assumes "fits (map tok rows)" "(k, rs) \<in> set (groups key rows) \<or> (k, rs) \<in> set (map (group_of key rows) ks)"
  shows "fits (map tok rs)"
proof -
  have rs: "rs = filter (\<lambda>r. key r = k) rows"
    using assms(2) by (auto simp: groups_def group_of_def)
  have "(\<forall>t \<in> set (map tok rs). 0 \<le> f t) \<and> sum_list (map f (map tok rs)) \<le> i64_max"
    if "f \<in> {tr_input_tokens, tr_output_tokens, tr_cached_tokens, tr_total_tokens}" for f :: "token_row \<Rightarrow> int"
  proof -
    from that assms(1) have nn: "\<forall>r \<in> set rows. 0 \<le> (f \<circ> tok) r" and le: "sum_list (map (f \<circ> tok) rows) \<le> i64_max"
      by (auto simp: fits_def)
    from sum_list_filter_le [of rows "f \<circ> tok", OF nn] le nn show ?thesis
      unfolding rs by (force simp: comp_def intro: order_trans)
  qed
  then show ?thesis by (simp add: fits_def)
qed

text \<open>The grouped queries on rows that fit: one result row per group, with the exact totals.\<close>

lemma grouped_fits:
  assumes "fits (map tok rows)"
  shows "map_result (\<lambda>(k, rs). bind_result (aggregate (map tok rs)) (\<lambda>t. Inr (mk k rs t))) (groups key rows) =
    Inr (map (\<lambda>(k, rs). mk k rs (exact_totals (map tok rs))) (groups key rows))"
proof (intro map_result_total)
  fix g
  assume "g \<in> set (groups key rows)"
  then have "fits (map tok (snd g))"
    using fits_group [OF assms, of "fst g" "snd g" key] by simp
  then show "(case g of (k, rs) \<Rightarrow> bind_result (aggregate (map tok rs)) (\<lambda>t. Inr (mk k rs t))) =
      Inr (case g of (k, rs) \<Rightarrow> mk k rs (exact_totals (map tok rs)))"
    by (simp add: split_beta aggregate_fits)
qed

definition model_totals :: "model_stats list \<Rightarrow> totals" where
  "model_totals ms =
     \<lparr>tt_requests = sum_list (map ms_requests ms), tt_input = sum_list (map ms_input_tokens ms),
      tt_output = sum_list (map ms_output_tokens ms), tt_cached = sum_list (map ms_cached_tokens ms),
      tt_total = sum_list (map ms_total_tokens ms)\<rparr>"

definition key_totals :: "key_stats list \<Rightarrow> totals" where
  "key_totals ks =
     \<lparr>tt_requests = sum_list (map ks_requests ks), tt_input = sum_list (map ks_input_tokens ks),
      tt_output = sum_list (map ks_output_tokens ks), tt_cached = sum_list (map ks_cached_tokens ks),
      tt_total = sum_list (map ks_total_tokens ks)\<rparr>"

definition daily_totals :: "daily_stats list \<Rightarrow> totals" where
  "daily_totals ds =
     \<lparr>tt_requests = sum_list (map ds_requests ds), tt_input = sum_list (map ds_input_tokens ds),
      tt_output = sum_list (map ds_output_tokens ds), tt_cached = sum_list (map ds_cached_tokens ds),
      tt_total = sum_list (map ds_total_tokens ds)\<rparr>"

lemma length_as_sum: "int (length rows) = sum_list (map (\<lambda>_. 1) rows)"
  by (induction rows) auto

lemma partition_totals:
  assumes "\<And>f :: 'r \<Rightarrow> int. (\<Sum>g\<leftarrow>gs. sum_list (map f (snd g))) = sum_list (map f rows)"
  shows "\<lparr>tt_requests = (\<Sum>g\<leftarrow>gs. tt_requests (exact_totals (map tok (snd g)))),
          tt_input = (\<Sum>g\<leftarrow>gs. tt_input (exact_totals (map tok (snd g)))),
          tt_output = (\<Sum>g\<leftarrow>gs. tt_output (exact_totals (map tok (snd g)))),
          tt_cached = (\<Sum>g\<leftarrow>gs. tt_cached (exact_totals (map tok (snd g)))),
          tt_total = (\<Sum>g\<leftarrow>gs. tt_total (exact_totals (map tok (snd g))))\<rparr> = exact_totals (map tok rows)"
  by (simp add: exact_totals_def length_as_sum assms map_map del: length_map)

lemma by_model_fits:
  assumes "fits rows" "orders order_by"
  shows "\<exists>ms. by_model order_by rows = Inr ms \<and> model_totals ms = exact_totals rows \<and>
    sorted (map (\<lambda>m. - ms_total_tokens m) ms) \<and>
    set ms = (\<lambda>m. model_stats_of m (exact_totals (filter (\<lambda>t. tr_model t = m) rows))) ` tr_model ` set rows"
proof -
  let ?gs = "groups tr_model rows"
  let ?row = "\<lambda>(m, rs). model_stats_of m (exact_totals rs)"
  let ?ms = "order_by (\<lambda>m. - ms_total_tokens m) (map ?row ?gs)"
  have "by_model order_by rows = Inr ?ms"
    using grouped_fits [of id rows "\<lambda>m _ t. model_stats_of m t" tr_model] assms(1)
    by (simp add: by_model_def)
  moreover have "model_totals ?ms = exact_totals rows"
    using partition_totals [of ?gs rows id] groups_sum [where key = tr_model and rows = rows]
    by (simp add: model_totals_def orders_sum_list [OF assms(2)] comp_def split_beta model_stats_of_def)
  moreover have "sorted (map (\<lambda>m. - ms_total_tokens m) ?ms)"
    using assms(2) unfolding orders_def by blast
  moreover have "set ?ms = (\<lambda>m. model_stats_of m (exact_totals (filter (\<lambda>t. tr_model t = m) rows))) ` tr_model ` set rows"
    unfolding orders_set [OF assms(2)] by (force simp: groups_mem image_iff)
  ultimately show ?thesis by blast
qed

section \<open>Attribution\<close>

definition attribution_of :: "database \<Rightarrow> token_row \<Rightarrow> attribution_row option" where
  "attribution_of idb t = Option.bind (tr_api_key_id t) (\<lambda>k. find (\<lambda>a. at_api_key_id a = k) (db_attribution idb))"

definition owner_of :: "database \<Rightarrow> token_row \<Rightarrow> user_row option" where
  "owner_of idb t = Option.bind (attribution_of idb t) (\<lambda>a. get_user_by_id (at_user_id a) idb)"

definition owned_rows :: "int \<Rightarrow> database \<Rightarrow> token_row list \<Rightarrow> token_row list" where
  "owned_rows user_id idb rows = filter (\<lambda>t. map_option us_id (owner_of idb t) = Some user_id) rows"

lemma filter_on_key:
  assumes "db_inv idb"
  shows "filter (on_key t) (db_attribution idb) = (case attribution_of idb t of None \<Rightarrow> [] | Some a \<Rightarrow> [a])"
proof (cases "tr_api_key_id t")
  case (Some k)
  have "filter (on_key t) (db_attribution idb) = filter (\<lambda>a. at_api_key_id a = k) (db_attribution idb)"
    by (intro filter_cong) (auto simp: on_key_def Some)
  with filter_at_most_one [of at_api_key_id "db_attribution idb" k] assms Some show ?thesis
    by (simp add: db_inv_def attribution_of_def)
qed (simp add: on_key_def attribution_of_def)

lemma filter_on_user:
  assumes "db_inv idb"
  shows "filter (\<lambda>u. map_option at_user_id a = Some (us_id u)) (db_users idb) =
    (case Option.bind a (\<lambda>a. get_user_by_id (at_user_id a) idb) of None \<Rightarrow> [] | Some u \<Rightarrow> [u])"
proof (cases a)
  case (Some x)
  have "filter (\<lambda>u. map_option at_user_id a = Some (us_id u)) (db_users idb) =
      filter (\<lambda>u. us_id u = at_user_id x) (db_users idb)"
    by (intro filter_cong) (auto simp: Some)
  with filter_at_most_one [of us_id "db_users idb" "at_user_id x"] assms Some show ?thesis
    by (simp add: db_inv_def get_user_by_id_def)
qed simp

lemma user_join_map:
  assumes "db_inv idb"
  shows "user_join idb rows = map (\<lambda>t. ((t, attribution_of idb t), owner_of idb t)) rows"
proof -
  have "left_join on_key rows (db_attribution idb) = map (\<lambda>t. (t, attribution_of idb t)) rows"
    by (rule left_join_unique) (rule filter_on_key [OF assms])
  moreover have "left_join (\<lambda>(t, a) u. map_option at_user_id a = Some (us_id u)) xs (db_users idb) =
      map (\<lambda>x. (x, Option.bind (snd x) (\<lambda>a. get_user_by_id (at_user_id a) idb))) xs"
    for xs :: "(token_row \<times> attribution_row option) list"
    by (rule left_join_unique) (simp only: split_beta filter_on_user [OF assms])
  ultimately show ?thesis
    by (simp add: user_join_def owner_of_def)
qed

lemma attribution_of_owner:
  assumes "db_inv idb" "attribution_of idb t = Some a"
  obtains u where "owner_of idb t = Some u" "us_id u = at_user_id a" "u \<in> set (db_users idb)"
proof -
  from assms(2) have "a \<in> set (db_attribution idb)"
    by (auto simp: attribution_of_def bind_eq_Some_conv find_Some_iff)
  with assms(1) have "at_user_id a \<in> us_id ` set (db_users idb)"
    by (auto simp: db_inv_def)
  then obtain u where u: "get_user_by_id (at_user_id a) idb = Some u"
    unfolding get_user_by_id_def by (metis (mono_tags, lifting) find_None_iff imageE not_None_eq)
  then have "us_id u = at_user_id a" "u \<in> set (db_users idb)"
    by (auto simp: get_user_by_id_def find_Some_iff)
  with u assms(2) that show ?thesis by (simp add: owner_of_def)
qed

lemma rows_of_user_owned:
  assumes "db_inv idb"
  shows "rows_of_user user_id idb rows = map (\<lambda>t. (t, the (attribution_of idb t))) (owned_rows user_id idb rows)"
proof -
  have ij: "inner_join on_key rows (db_attribution idb) =
      map (\<lambda>t. (t, the (attribution_of idb t))) (filter (\<lambda>t. attribution_of idb t \<noteq> None) rows)"
    by (rule inner_join_unique) (rule filter_on_key [OF assms])
  have own: "attribution_of idb t \<noteq> None \<and> at_user_id (the (attribution_of idb t)) = user_id \<longleftrightarrow>
      map_option us_id (owner_of idb t) = Some user_id" for t
  proof (cases "attribution_of idb t")
    case (Some a)
    from attribution_of_owner [OF assms Some] obtain u where "owner_of idb t = Some u" "us_id u = at_user_id a" .
    with Some show ?thesis by simp
  qed (simp add: owner_of_def)
  have "rows_of_user user_id idb rows = map (\<lambda>t. (t, the (attribution_of idb t)))
      (filter (\<lambda>t. attribution_of idb t \<noteq> None \<and> at_user_id (the (attribution_of idb t)) = user_id) rows)"
    unfolding rows_of_user_def ij by (simp add: filter_map comp_def conj_commute)
  then show ?thesis unfolding own owned_rows_def .
qed

lemma user_group_joined:
  assumes "db_inv idb"
  shows "user_group_of ((t, attribution_of idb t), owner_of idb t) = OwnedBy i \<longleftrightarrow>
    map_option us_id (owner_of idb t) = Some i"
  by (auto simp: user_group_of_def jr_token_def owner_of_def attribution_of_def split: option.splits)

lemma bare_row_mem: "rs \<noteq> [] \<Longrightarrow> bare_row rs \<in> set rs"
proof -
  assume "rs \<noteq> []"
  let ?fs = "filter (\<lambda>r. tr_api_key_id (jr_token r) = sql_max (map (tr_api_key_id \<circ> jr_token) rs)) rs"
  have "set ?fs \<subseteq> set rs" by auto
  with \<open>rs \<noteq> []\<close> show ?thesis
    unfolding bare_row_def by (cases ?fs) auto
qed

lemma stats_by_user_fits:
  assumes "db_inv idb" "fits (since ts db)" "orders order_by"
  shows "\<exists>ks. stats_by_user order_by None ts idb db = Inr ks \<and> key_totals ks = exact_totals (since ts db) \<and>
    (\<forall>u \<in> set (db_users idb). owned_rows (us_id u) idb (since ts db) \<noteq> [] \<longrightarrow>
       key_stats_of None (us_username u) (exact_totals (owned_rows (us_id u) idb (since ts db))) \<in> set ks)"
proof -
  let ?J = "\<lambda>t. ((t, attribution_of idb t), owner_of idb t)"
  let ?rows = "since ts db"
  let ?gs = "groups user_group_of (map ?J ?rows)"
  let ?mk = "\<lambda>g rs t. let u = snd (bare_row rs)
    in case user_label (map_option us_id u) (map_option us_username u) (sql_max (map (tr_api_key_id \<circ> jr_token) rs)) of
         (api_key_id, label) \<Rightarrow> key_stats_of api_key_id label t"
  let ?out = "map (\<lambda>(g, rs). ?mk g rs (exact_totals (map jr_token rs))) ?gs"
  let ?ks = "order_by (\<lambda>k. - ks_total_tokens k) ?out"
  have tok: "map jr_token (map ?J xs) = xs" for xs by (simp add: comp_def jr_token_def)
  have "stats_by_user order_by None ts idb db = Inr ?ks"
    using grouped_fits [of jr_token "map ?J ?rows" ?mk user_group_of] assms(2)
    unfolding tok by (simp add: stats_by_user_def with_conn_def user_join_map [OF assms(1)] Let_def)
  moreover have "key_totals ?ks = exact_totals ?rows"
    using partition_totals [of ?gs "map ?J ?rows" jr_token]
      groups_sum [where key = user_group_of and rows = "map ?J ?rows"]
    unfolding tok
    by (simp add: key_totals_def orders_sum_list [OF assms(3)] comp_def split_beta key_stats_of_def Let_def)
  moreover have "key_stats_of None (us_username u) (exact_totals (owned_rows (us_id u) idb ?rows)) \<in> set ?ks"
    if u: "u \<in> set (db_users idb)" and ne: "owned_rows (us_id u) idb ?rows \<noteq> []" for u
  proof -
    let ?own = "owned_rows (us_id u) idb ?rows"
    have rs: "filter (\<lambda>r. user_group_of r = OwnedBy (us_id u)) (map ?J ?rows) = map ?J ?own"
      by (simp add: filter_map comp_def user_group_joined [OF assms(1)] owned_rows_def)
    have "OwnedBy (us_id u) \<in> user_group_of ` set (map ?J ?rows)"
      using ne rs by (metis (mono_tags, lifting) filter_empty_conv image_eqI map_is_Nil_conv)
    then have mem: "(OwnedBy (us_id u), map ?J ?own) \<in> set ?gs"
      using rs by (simp add: groups_mem)
    have "bare_row (map ?J ?own) \<in> set (map ?J ?own)" using ne by (intro bare_row_mem) simp
    then obtain t where t: "t \<in> set ?own" "snd (bare_row (map ?J ?own)) = owner_of idb t" by auto
    then obtain v where v: "owner_of idb t = Some v" "us_id v = us_id u" by (auto simp: owned_rows_def)
    then have "v \<in> set (db_users idb)"
      by (auto simp: owner_of_def bind_eq_Some_conv get_user_by_id_def find_Some_iff)
    moreover from assms(1) have "inj_on us_id (set (db_users idb))" by (simp add: db_inv_def distinct_map)
    ultimately have "v = u" using u v(2) by (simp add: inj_on_eq_iff)
    with t v have "?mk (OwnedBy (us_id u)) (map ?J ?own) x = key_stats_of None (us_username u) x" for x
      by (simp add: user_label_def)
    then have "key_stats_of None (us_username u) (exact_totals ?own) =
        (\<lambda>(g, rs). ?mk g rs (exact_totals (map jr_token rs))) (OwnedBy (us_id u), map ?J ?own)"
      unfolding prod.case tok by simp
    then have "key_stats_of None (us_username u) (exact_totals ?own) \<in> set ?out"
      unfolding set_map using mem by (rule image_eqI)
    then show ?thesis unfolding orders_set [OF assms(3)] .
  qed
  ultimately show ?thesis by blast
qed

lemma by_day_fits:
  assumes "fits rows" "\<forall>t \<in> set rows. date_of (tr_ts t) \<noteq> None"
  shows "\<exists>ds. by_day date_of rows = Inr ds \<and> daily_totals ds = exact_totals rows \<and>
    sorted_wrt (<) (map (\<lambda>d. (ds_day d, ds_model d)) ds)"
proof -
  let ?key = "\<lambda>t. (date_of (tr_ts t), tr_model t)"
  let ?gs = "sorted_groups ?key rows"
  let ?row = "\<lambda>g. \<lparr>ds_day = the (fst (fst g)), ds_model = snd (fst g), ds_requests = tt_requests (exact_totals (snd g)),
      ds_input_tokens = tt_input (exact_totals (snd g)), ds_output_tokens = tt_output (exact_totals (snd g)),
      ds_cached_tokens = tt_cached (exact_totals (snd g)), ds_total_tokens = tt_total (exact_totals (snd g))\<rparr>"
  have day: "\<exists>d. fst (fst g) = Some d" if "g \<in> set ?gs" for g
    using that assms(2) sorted_groups_mem [of "fst g" "snd g" ?key rows] by auto
  have fit: "fits (snd g)" if "g \<in> set ?gs" for g
    using that fits_group [of id rows "fst g" "snd g" ?key "sort (remdups (map ?key rows))"] assms(1)
    by (simp add: sorted_groups_def)
  have "by_day date_of rows = Inr (map ?row ?gs)"
    unfolding by_day_def
  proof (rule map_result_total)
    fix g
    assume g: "g \<in> set ?gs"
    from day [OF g] obtain d where "fst (fst g) = Some d" by blast
    with fit [OF g] show "(case g of (x, rs) \<Rightarrow> (case x of (day, m) \<Rightarrow> \<lambda>rs. bind_result (aggregate rs) (\<lambda>t.
          case day of
            None \<Rightarrow> Inl (Sqlite ''Invalid column type Null at index: 0, name: day'')
          | Some d \<Rightarrow> Inr \<lparr>ds_day = d, ds_model = m, ds_requests = tt_requests t, ds_input_tokens = tt_input t,
                           ds_output_tokens = tt_output t, ds_cached_tokens = tt_cached t, ds_total_tokens = tt_total t\<rparr>)) rs) = Inr (?row g)"
      by (simp add: split_beta aggregate_fits)
  qed
  moreover have "daily_totals (map ?row ?gs) = exact_totals rows"
    using partition_totals [of ?gs rows id] sorted_groups_sum [where key = ?key and rows = rows]
    by (simp add: daily_totals_def comp_def)
  moreover have "sorted_wrt (<) (map (\<lambda>d. (ds_day d, ds_model d)) (map ?row ?gs))"
  proof -
    have "sorted_wrt (<) (map fst ?gs)"
      unfolding sorted_groups_keys by (simp add: strict_sorted_iff)
    then have "sorted_wrt (\<lambda>g h. fst g < fst h) ?gs" by (simp add: sorted_wrt_map)
    then have "sorted_wrt (\<lambda>g h. (the (fst (fst g)), snd (fst g)) < (the (fst (fst h)), snd (fst h))) ?gs"
    proof (rule sorted_wrt_mono_rel [rotated])
      fix g h
      assume "g \<in> set ?gs" "h \<in> set ?gs" "fst g < fst h"
      moreover from calculation day obtain d e where "fst (fst g) = Some d" "fst (fst h) = Some e" by meson
      ultimately show "(the (fst (fst g)), snd (fst g)) < (the (fst (fst h)), snd (fst h))"
        by (cases "fst g"; cases "fst h") (auto simp: less_prod_def)
    qed
    then show ?thesis by (simp add: sorted_wrt_map)
  qed
  ultimately show ?thesis by blast
qed

lemma by_key_fits:
  assumes "db_inv idb" "fits (since ts db)" "orders order_by"
  shows "\<exists>ks. stats_by_key_for_user order_by None ts user_id idb db = Inr ks \<and>
    key_totals ks = exact_totals (owned_rows user_id idb (since ts db))"
proof -
  let ?J = "\<lambda>t. (t, the (attribution_of idb t))"
  let ?rows = "owned_rows user_id idb (since ts db)"
  let ?gs = "groups (tr_api_key_id \<circ> fst) (map ?J ?rows)"
  let ?mk = "\<lambda>k rs t. key_stats_of k (key_label (snd (hd rs))) t"
  let ?ks = "order_by (\<lambda>k. - ks_total_tokens k) (map (\<lambda>(k, rs). ?mk k rs (exact_totals (map fst rs))) ?gs)"
  have tok: "map fst (map ?J xs) = xs" for xs by (simp add: comp_def)
  have "fits ?rows" unfolding owned_rows_def using assms(2) by (rule fits_filter)
  then have "stats_by_key_for_user order_by None ts user_id idb db = Inr ?ks"
    using grouped_fits [of fst "map ?J ?rows" ?mk "tr_api_key_id \<circ> fst"]
    unfolding tok by (simp add: stats_by_key_for_user_def with_conn_def rows_of_user_owned [OF assms(1)])
  moreover have "key_totals ?ks = exact_totals ?rows"
    using partition_totals [of ?gs "map ?J ?rows" fst]
      groups_sum [where key = "tr_api_key_id \<circ> fst" and rows = "map ?J ?rows"]
    unfolding tok by (simp add: key_totals_def orders_sum_list [OF assms(3)] comp_def split_beta key_stats_of_def)
  ultimately show ?thesis by blast
qed

section \<open>What the buckets hold\<close>

definition exact_bucket :: "nat \<Rightarrow> token_row list \<Rightarrow> today_bucket" where
  "exact_bucket i rows =
     \<lparr>tb_bucket = i, tb_input_tokens = sum_list (map tr_input_tokens rows),
      tb_output_tokens = sum_list (map tr_output_tokens rows),
      tb_cached_tokens = sum_list (map tr_cached_tokens rows), tb_requests = int (length rows)\<rparr>"

lemma exact_bucket_Nil: "exact_bucket i [] = empty_bucket i"
  by (simp add: exact_bucket_def empty_bucket_def)

lemma fill_buckets_dense:
  assumes "sorted_wrt (<) is" "sorted_wrt (<) (map tb_bucket sparse)" "tb_bucket ` set sparse \<subseteq> set is"
  shows "fill_buckets is sparse =
    map (\<lambda>i. case find (\<lambda>b. tb_bucket b = i) sparse of Some b \<Rightarrow> b | None \<Rightarrow> empty_bucket i) is"
  using assms
proof (induction "is" sparse rule: fill_buckets.induct)
  case (3 i "is" b bs)
  show ?case
  proof (cases "tb_bucket b = i")
    case True
    have later: "\<forall>x \<in> set bs. tb_bucket b < tb_bucket x" using "3.prems"(2) by auto
    with "3.prems"(3) True have "tb_bucket ` set bs \<subseteq> set is" by fastforce
    with "3.IH"(1) [OF True] "3.prems" have IH: "fill_buckets is bs =
        map (\<lambda>i. case find (\<lambda>b. tb_bucket b = i) bs of Some b \<Rightarrow> b | None \<Rightarrow> empty_bucket i) is" by simp
    have "\<forall>j \<in> set is. tb_bucket b \<noteq> j" using "3.prems"(1) True by auto
    with True IH show ?thesis by simp
  next
    case False
    have gt: "i < tb_bucket b" using "3.prems"(1,3) False by auto
    with "3.prems"(2) have above: "\<forall>x \<in> set (b # bs). i < tb_bucket x" by auto
    with "3.prems"(3) have "tb_bucket ` set (b # bs) \<subseteq> set is" by fastforce
    with "3.IH"(2) [OF False] "3.prems" have IH: "fill_buckets is (b # bs) =
        map (\<lambda>i. case find (\<lambda>b. tb_bucket b = i) (b # bs) of Some b \<Rightarrow> b | None \<Rightarrow> empty_bucket i) is" by simp
    from above have "find (\<lambda>b. tb_bucket b = i) (b # bs) = None"
      unfolding find_None_iff by auto
    with False IH show ?thesis by simp
  qed
qed simp_all

lemma by_bucket_exact:
  assumes "fits rows" "\<forall>t \<in> set rows. start \<le> tr_ts t"
  shows "by_bucket start rows =
    Inr (map (\<lambda>i. exact_bucket i (filter (\<lambda>t. bucket_of start t = int i) rows)) [0..<288])"
proof -
  let ?key = "bucket_of start"
  let ?gs = "sorted_groups ?key rows"
  let ?b = "\<lambda>g. exact_bucket (nat (fst g)) (snd g)"
  let ?sparse = "map ?b ?gs"
  have fit: "fits (snd g)" if "g \<in> set ?gs" for g
    using that fits_group [of id rows "fst g" "snd g" ?key "sort (remdups (map ?key rows))"] assms(1)
    by (simp add: sorted_groups_def)
  have mr: "map_result (\<lambda>(b, rs). bucket_stats b rs) ?gs = Inr ?sparse"
    by (rule map_result_total) (simp add: split_beta bucket_stats_fits [OF fit] exact_bucket_def)
  have range: "0 \<le> fst g \<and> fst g < 288" if "g \<in> set ?gs" for g
    using that assms(2) sorted_groups_mem [of "fst g" "snd g" ?key rows] by (auto simp: bucket_of_def)
  have "sorted_wrt (<) (map fst ?gs)" unfolding sorted_groups_keys by (simp add: strict_sorted_iff)
  then have "sorted_wrt (\<lambda>g h. fst g < fst h) ?gs" by (simp add: sorted_wrt_map)
  then have "sorted_wrt (\<lambda>g h. nat (fst g) < nat (fst h)) ?gs"
    by (rule sorted_wrt_mono_rel [rotated]) (use range in force)
  then have sorted: "sorted_wrt (<) (map tb_bucket ?sparse)" by (simp add: sorted_wrt_map exact_bucket_def)
  have sub: "tb_bucket ` set ?sparse \<subseteq> set [0..<288]"
    using range by (fastforce simp: exact_bucket_def)
  have "(case find (\<lambda>b. tb_bucket b = i) ?sparse of Some b \<Rightarrow> b | None \<Rightarrow> empty_bucket i) =
      exact_bucket i (filter (\<lambda>t. ?key t = int i) rows)" for i
  proof (cases "find (\<lambda>b. tb_bucket b = i) ?sparse")
    case None
    then have no: "\<forall>g \<in> set ?gs. nat (fst g) \<noteq> i" by (simp add: find_None_iff exact_bucket_def)
    have "filter (\<lambda>t. ?key t = int i) rows = []"
    proof (rule ccontr)
      assume "filter (\<lambda>t. ?key t = int i) rows \<noteq> []"
      then have "(int i, filter (\<lambda>t. ?key t = int i) rows) \<in> set ?gs"
        by (auto simp: sorted_groups_mem filter_empty_conv intro: rev_image_eqI)
      with no show False by force
    qed
    with None show ?thesis by (simp add: exact_bucket_Nil)
  next
    case (Some b)
    from find_SomeD [OF Some] obtain g where g: "g \<in> set ?gs" "b = ?b g" "tb_bucket b = i" by auto
    then have "nat (fst g) = i" by (simp add: exact_bucket_def)
    with range [OF g(1)] have "fst g = int i" by auto
    with g(1) sorted_groups_mem [of "int i" "snd g" ?key rows] have "snd g = filter (\<lambda>t. ?key t = int i) rows"
      by (metis prod.collapse)
    with g(2) Some \<open>fst g = int i\<close> show ?thesis by simp
  qed
  then show ?thesis
    by (simp add: by_bucket_def mr fill_288_buckets_def fill_buckets_dense [OF _ sorted sub] del: upt.simps)
qed

lemma bucket_of_interval:
  assumes "start \<le> tr_ts t" "i < 288"
  shows "bucket_of start t = int i \<longleftrightarrow>
    start + 300 * int i \<le> tr_ts t \<and> (i < 287 \<longrightarrow> tr_ts t < start + 300 * (int i + 1))"
  using assms unfolding bucket_of_def by (cases "i = 287") (auto simp: min_def)

section \<open>Properties\<close>

text \<open>Two users of which one has a revoked key, and three rows, for the instances below.\<close>

definition example_identities :: database where
  "example_identities =
     \<lparr>db_users = [\<lparr>us_id = 1, us_username = ''ann'', us_password_hash = ''h1'', us_is_admin = True, us_created_ts = 10\<rparr>,
                  \<lparr>us_id = 2, us_username = ''bob'', us_password_hash = ''h2'', us_is_admin = False, us_created_ts = 11\<rparr>],
      db_user_seq = 2,
      db_keys = [\<lparr>kr_id = 1, kr_user_id = 1, kr_name = None, kr_key_hash = ''k1'', kr_prefix = ''twl_a'', kr_created_ts = 12\<rparr>],
      db_key_seq = 2,
      db_attribution = [\<lparr>at_api_key_id = 1, at_user_id = 1, at_name = None, at_prefix = ''twl_a''\<rparr>,
                        \<lparr>at_api_key_id = 2, at_user_id = 2, at_name = Some ''old'', at_prefix = ''twl_b''\<rparr>]\<rparr>"

definition example_row :: "int \<Rightarrow> int \<Rightarrow> int option \<Rightarrow> token_row" where
  "example_row i ts key =
     \<lparr>tr_id = i, tr_ts = ts, tr_model = ''m'', tr_endpoint = ''/v1/chat/completions'', tr_input_tokens = 5,
      tr_output_tokens = 7, tr_cached_tokens = 2, tr_total_tokens = 12, tr_api_key_id = key\<rparr>"

definition example_usage :: usage_db where
  "example_usage =
     \<lparr>ud_tokens = [example_row 1 1000 (Some 1), example_row 2 1100 None, example_row 3 1700 (Some 2)],
      ud_token_seq = 3, ud_energy = [], ud_energy_seq = 0\<rparr>"

lemma example_identities_inv: "db_inv example_identities"
  by (simp add: db_inv_def example_identities_def)

lemma example_usage_fits: "fits (since 0 example_usage)" "fits (in_day 900 2000 example_usage)"
  by (simp_all add: fits_def since_def in_day_def example_usage_def example_row_def i64_max_def)

lemma example_owned:
  "owned_rows 2 example_identities (since 0 example_usage) = [example_row 3 1700 (Some 2)]"
  by (simp add: owned_rows_def owner_of_def attribution_of_def get_user_by_id_def since_def example_usage_def
        example_row_def example_identities_def)

text \<open>
  C17: The statistics neither lose nor invent usage. As long as the counts are non-negative and no column
  overflows 64 bits, the per-model, the per-user and the per-day query all return, and the columns of each
  add up to the same totals, those of the recorded rows since the given time: deleted users, revoked keys
  and traffic without a key included. The per-model rows are in descending order of tokens, the daily ones
  in strictly ascending order of day and model.
\<close>

theorem statistics_conserve_usage:
  assumes "db_inv idb" "fits (since ts db)" "orders order_m" "orders order_k" "0 \<le> ts"
    and "\<forall>t \<in> set (since ts db). date_of (tr_ts t) \<noteq> None"
  shows "\<exists>ms ks ds. stats order_m None ts db = Inr ms \<and> stats_by_user order_k None ts idb db = Inr ks \<and>
    daily date_of None ts db = Inr ds \<and>
    model_totals ms = exact_totals (since ts db) \<and> key_totals ks = exact_totals (since ts db) \<and>
    daily_totals ds = exact_totals (since ts db) \<and>
    sorted (map (\<lambda>m. - ms_total_tokens m) ms) \<and> sorted_wrt (<) (map (\<lambda>d. (ds_day d, ds_model d)) ds)"
proof -
  from by_model_fits [OF assms(2,3)] obtain ms where ms: "by_model order_m (since ts db) = Inr ms"
    "model_totals ms = exact_totals (since ts db)" "sorted (map (\<lambda>m. - ms_total_tokens m) ms)" by blast
  from stats_by_user_fits [OF assms(1,2,4)] obtain ks where ks: "stats_by_user order_k None ts idb db = Inr ks"
    "key_totals ks = exact_totals (since ts db)" by blast
  from by_day_fits [OF assms(2,6)] obtain ds where ds: "by_day date_of (since ts db) = Inr ds"
    "daily_totals ds = exact_totals (since ts db)" "sorted_wrt (<) (map (\<lambda>d. (ds_day d, ds_model d)) ds)" by blast
  have "daily date_of None ts db = Inr ds" using ds(1) assms(5) by (simp add: daily_def with_conn_def max_def)
  moreover have "stats order_m None ts db = Inr ms" using ms(1) by (simp add: stats_def with_conn_def)
  ultimately show ?thesis using ms ks ds by blast
qed

theorem statistics_conserve_usage_witness:
  "\<exists>ms ks ds. stats sort_key None 0 example_usage = Inr ms \<and>
    stats_by_user sort_key None 0 example_identities example_usage = Inr ks \<and>
    daily (\<lambda>_. Some ''1970-01-01'') None 0 example_usage = Inr ds \<and>
    model_totals ms = \<lparr>tt_requests = 3, tt_input = 15, tt_output = 21, tt_cached = 6, tt_total = 36\<rparr> \<and>
    key_totals ks = model_totals ms \<and> daily_totals ds = model_totals ms"
proof -
  have "exact_totals (since 0 example_usage) =
      \<lparr>tt_requests = 3, tt_input = 15, tt_output = 21, tt_cached = 6, tt_total = 36\<rparr>"
    by (simp add: exact_totals_def since_def example_usage_def example_row_def)
  moreover note statistics_conserve_usage [of example_identities 0 example_usage sort_key sort_key
      "\<lambda>_. Some ''1970-01-01''", OF example_identities_inv example_usage_fits(1) orders_sort_key orders_sort_key]
  ultimately show ?thesis by fastforce
qed

text \<open>
  Users see of themselves what the administrator sees of them. For every existing user the user's own
  per-model and per-key statistics add up to the same totals, those of the rows recorded under keys the
  user owns or owned (revoked keys included), and the administrator's per-user query shows exactly these
  totals under the user's name, in one row.
\<close>

theorem user_statistics_agree:
  assumes "db_inv idb" "fits (since ts db)" "orders order_m" "orders order_k" "u \<in> set (db_users idb)"
    and "owned_rows (us_id u) idb (since ts db) \<noteq> []"
  shows "\<exists>ms ks all. stats_for_user order_m None ts (us_id u) idb db = Inr ms \<and>
    stats_by_key_for_user order_k None ts (us_id u) idb db = Inr ks \<and>
    stats_by_user order_k None ts idb db = Inr all \<and>
    model_totals ms = exact_totals (owned_rows (us_id u) idb (since ts db)) \<and> key_totals ks = model_totals ms \<and>
    key_stats_of None (us_username u) (model_totals ms) \<in> set all"
proof -
  have fst_map: "map fst (map (\<lambda>t. (t, the (attribution_of idb t))) xs) = xs" for xs
    by (simp add: comp_def)
  have "fits (owned_rows (us_id u) idb (since ts db))"
    unfolding owned_rows_def using assms(2) by (rule fits_filter)
  from by_model_fits [OF this assms(3)] obtain ms where
    ms: "by_model order_m (owned_rows (us_id u) idb (since ts db)) = Inr ms"
      "model_totals ms = exact_totals (owned_rows (us_id u) idb (since ts db))" by blast
  then have "stats_for_user order_m None ts (us_id u) idb db = Inr ms"
    unfolding stats_for_user_def with_conn_def rows_of_user_owned [OF assms(1)] fst_map by simp
  moreover from by_key_fits [OF assms(1,2,4)] obtain ks where
    "stats_by_key_for_user order_k None ts (us_id u) idb db = Inr ks"
    "key_totals ks = exact_totals (owned_rows (us_id u) idb (since ts db))" by blast
  moreover from stats_by_user_fits [OF assms(1,2,4)] assms(5,6) obtain all where
    "stats_by_user order_k None ts idb db = Inr all"
    "key_stats_of None (us_username u) (exact_totals (owned_rows (us_id u) idb (since ts db))) \<in> set all" by blast
  ultimately show ?thesis using ms(2) by metis
qed

theorem user_statistics_agree_witness:
  "\<exists>ms ks all. stats_for_user sort_key None 0 2 example_identities example_usage = Inr ms \<and>
    stats_by_key_for_user sort_key None 0 2 example_identities example_usage = Inr ks \<and>
    stats_by_user sort_key None 0 example_identities example_usage = Inr all \<and>
    model_totals ms = exact_totals [example_row 3 1700 (Some 2)] \<and> key_totals ks = model_totals ms \<and>
    key_stats_of None ''bob'' (model_totals ms) \<in> set all"
proof -
  let ?u = "\<lparr>us_id = 2, us_username = ''bob'', us_password_hash = ''h2'', us_is_admin = False, us_created_ts = 11\<rparr>"
  have "?u \<in> set (db_users example_identities)" by (simp add: example_identities_def)
  from user_statistics_agree [OF example_identities_inv example_usage_fits(1) orders_sort_key orders_sort_key this]
  show ?thesis by (simp add: example_owned)
qed

text \<open>
  A day is always shown as exactly 288 five-minute buckets. The \<open>i\<close>-th one has the number \<open>i\<close> and the
  requests and tokens of the rows of that interval and no others; the last one also takes what is recorded
  up to the end of a day that is longer because of daylight saving time. A user's buckets are those of the
  rows of the user's own keys.
\<close>

theorem today_buckets_exact:
  assumes "db_inv idb" "fits (in_day start end_ts db)"
  shows "\<exists>bs us. today_buckets None start end_ts db = Inr bs \<and>
    today_buckets_for_user None start end_ts user_id idb db = Inr us \<and> length bs = 288 \<and> length us = 288 \<and>
    (\<forall>i < 288. let slot = filter (\<lambda>t. start + 300 * int i \<le> tr_ts t \<and> tr_ts t < end_ts \<and>
                                    (i < 287 \<longrightarrow> tr_ts t < start + 300 * (int i + 1))) (ud_tokens db)
       in bs ! i = exact_bucket i slot \<and> us ! i = exact_bucket i (owned_rows user_id idb slot))"
proof -
  let ?rows = "in_day start end_ts db"
  let ?own = "owned_rows user_id idb ?rows"
  let ?mk = "\<lambda>rows. map (\<lambda>i. exact_bucket i (filter (\<lambda>t. bucket_of start t = int i) rows)) [0..<288]"
  let ?slot = "\<lambda>i. filter (\<lambda>t. start + 300 * int i \<le> tr_ts t \<and> tr_ts t < end_ts \<and>
                                    (i < 287 \<longrightarrow> tr_ts t < start + 300 * (int i + 1))) (ud_tokens db)"
  have fst_map: "map fst (map (\<lambda>t. (t, the (attribution_of idb t))) xs) = xs" for xs
    by (simp add: comp_def)
  have ge: "\<forall>t \<in> set ?rows. start \<le> tr_ts t" by (simp add: in_day_def)
  then have "\<forall>t \<in> set ?own. start \<le> tr_ts t" by (simp add: owned_rows_def)
  moreover have "fits ?own" unfolding owned_rows_def using assms(2) by (rule fits_filter)
  ultimately have us: "today_buckets_for_user None start end_ts user_id idb db = Inr (?mk ?own)"
    unfolding today_buckets_for_user_def with_conn_def rows_of_user_owned [OF assms(1)] fst_map
    by (simp add: by_bucket_exact)
  have bs: "today_buckets None start end_ts db = Inr (?mk ?rows)"
    using by_bucket_exact [OF assms(2) ge] by (simp add: today_buckets_def with_conn_def)
  have slot: "filter (\<lambda>t. bucket_of start t = int i) ?rows = ?slot i" if "i < 288" for i
  proof -
    have "start \<le> tr_ts t \<and> tr_ts t < end_ts \<and> bucket_of start t = int i \<longleftrightarrow>
        start + 300 * int i \<le> tr_ts t \<and> tr_ts t < end_ts \<and> (i < 287 \<longrightarrow> tr_ts t < start + 300 * (int i + 1))" for t
      using bucket_of_interval [of start t i] that by (cases "start \<le> tr_ts t") auto
    then show ?thesis by (simp add: in_day_def conj_ac)
  qed
  have "filter (\<lambda>t. bucket_of start t = int i) ?own = owned_rows user_id idb (?slot i)" if "i < 288" for i
    unfolding slot [OF that, symmetric] owned_rows_def by (simp add: conj_ac)
  with slot us bs show ?thesis
    by (intro exI [of _ "?mk ?rows"] exI [of _ "?mk ?own"]) (simp add: Let_def del: upt.simps)
qed

theorem today_buckets_exact_witness:
  "\<exists>bs. today_buckets None 900 2000 example_usage = Inr bs \<and> length bs = 288 \<and>
     bs ! 0 = exact_bucket 0 [example_row 1 1000 (Some 1), example_row 2 1100 None] \<and> bs ! 1 = empty_bucket 1 \<and>
     bs ! 2 = exact_bucket 2 [example_row 3 1700 (Some 2)]"
proof -
  from today_buckets_exact [OF example_identities_inv example_usage_fits(2), of 2] obtain bs where
    bs: "today_buckets None 900 2000 example_usage = Inr bs" "length bs = 288"
      "\<forall>i < 288. bs ! i = exact_bucket i (filter (\<lambda>t. 900 + 300 * int i \<le> tr_ts t \<and> tr_ts t < 2000 \<and>
         (i < 287 \<longrightarrow> tr_ts t < 900 + 300 * (int i + 1))) (ud_tokens example_usage))"
    unfolding Let_def by blast
  from bs(3) [rule_format, of 0] bs(3) [rule_format, of 1] bs(3) [rule_format, of 2] bs(1,2) show ?thesis
    by (simp add: example_usage_def example_row_def exact_bucket_Nil)
qed

end
