(* ===== verification/Sink.thy ===== *)
theory Sink
  imports UsageStore Energy
begin

text \<open>
  Persistence off the runtime: the accounting writer (\<open>crates/twl-server/src/sink.rs\<close>), a bounded channel
  in front of one writer thread, and the retention pruner (\<open>retention.rs\<close>). The channel is
  \<open>mpsc::sync_channel\<close>: \<open>try_send\<close> never waits, \<open>recv\<close> takes the oldest record.
\<close>

section \<open>Accounting writer\<close>

definition ACCOUNTING_QUEUE_CAPACITY :: nat where
  "ACCOUNTING_QUEUE_CAPACITY = 1024"

datatype accounting_record = Usage usage | Energy f64 f64

datatype try_send_error = Full | Disconnected

text \<open>
  The channel and what became of the records: \<open>aw_persisted\<close> are the records the thread has taken, in
  order, which \<open>persist\<close> writes to the store; \<open>aw_receiver\<close> says whether the thread is still running.
\<close>

record accounting_writer =
  aw_capacity :: nat
  aw_queue :: "accounting_record list"
  aw_receiver :: bool
  aw_persisted :: "accounting_record list"

definition spawn_with :: "nat \<Rightarrow> accounting_writer" where
  "spawn_with capacity = \<lparr>aw_capacity = capacity, aw_queue = [], aw_receiver = True, aw_persisted = []\<rparr>"

definition spawn :: accounting_writer where
  "spawn = spawn_with ACCOUNTING_QUEUE_CAPACITY"

definition try_send :: "accounting_record \<Rightarrow> accounting_writer \<Rightarrow> (try_send_error + unit) \<times> accounting_writer" where
  "try_send r w =
     (if \<not> aw_receiver w then (Inl Disconnected, w)
      else if length (aw_queue w) < aw_capacity w then (Inr (), w\<lparr>aw_queue := aw_queue w @ [r]\<rparr>)
      else (Inl Full, w))"

definition enqueue :: "accounting_record \<Rightarrow> accounting_writer \<Rightarrow> bool \<times> accounting_writer" where
  "enqueue r w =
     (case try_send r w of
        (Inr _, w') \<Rightarrow> (True, w')
      | (Inl Full, w') \<Rightarrow> (False, w')
      | (Inl Disconnected, w') \<Rightarrow> (False, w'))"

definition record_usage :: "usage \<Rightarrow> accounting_writer \<Rightarrow> bool \<times> accounting_writer" where
  "record_usage u w = enqueue (Usage u) w"

definition sink_record_energy :: "f64 \<Rightarrow> f64 \<Rightarrow> accounting_writer \<Rightarrow> accounting_writer" where
  "sink_record_energy elapsed_secs watts w = snd (enqueue (Energy elapsed_secs watts) w)"

text \<open>One turn of the thread: take the oldest record and persist it.\<close>

definition writer_turn :: "accounting_writer \<Rightarrow> accounting_writer" where
  "writer_turn w =
     (case aw_queue w of
        [] \<Rightarrow> w
      | r # rs \<Rightarrow> if aw_receiver w then w\<lparr>aw_queue := rs, aw_persisted := aw_persisted w @ [r]\<rparr> else w)"

text \<open>The closure of \<open>spawn\<close>: what persisting a record does to the store.\<close>

definition persist ::
    "int option \<Rightarrow> db_error option \<Rightarrow> db_error option \<Rightarrow> accounting_record \<Rightarrow> usage_db \<Rightarrow> usage_db" where
  "persist clock pool exec r db =
     (case r of
        Usage u \<Rightarrow> record_row clock pool exec u db
      | Energy elapsed_secs watts \<Rightarrow> record_energy clock pool exec elapsed_secs watts db)"

section \<open>Runs of the writer\<close>

datatype writer_event = Offer accounting_record | Turn | Stop

fun writer_exec :: "writer_event \<Rightarrow> accounting_writer \<Rightarrow> accounting_writer" where
  "writer_exec (Offer r) w = snd (enqueue r w)"
| "writer_exec Turn w = writer_turn w"
| "writer_exec Stop w = w\<lparr>aw_receiver := False\<rparr>"

fun offered :: "writer_event list \<Rightarrow> accounting_record list" where
  "offered [] = []"
| "offered (Offer r # es) = r # offered es"
| "offered (_ # es) = offered es"

definition accepted :: "accounting_writer \<Rightarrow> accounting_record list" where
  "accepted w = aw_persisted w @ aw_queue w"

definition writer_inv :: "accounting_writer \<Rightarrow> bool" where
  "writer_inv w \<longleftrightarrow> length (aw_queue w) \<le> aw_capacity w"

lemma enqueue_cases:
  "enqueue r w =
     (if aw_receiver w \<and> length (aw_queue w) < aw_capacity w then (True, w\<lparr>aw_queue := aw_queue w @ [r]\<rparr>) else (False, w))"
  by (simp add: enqueue_def try_send_def)

lemma writer_exec_accepted:
  "accepted (writer_exec e w) = accepted w @ (case e of Offer r \<Rightarrow> if fst (enqueue r w) then [r] else [] | _ \<Rightarrow> [])"
  by (cases e) (auto simp: accepted_def enqueue_cases writer_turn_def split: list.splits)

lemma writer_exec_inv: "writer_inv w \<Longrightarrow> writer_inv (writer_exec e w) \<and> aw_capacity (writer_exec e w) = aw_capacity w"
  by (cases e) (auto simp: writer_inv_def enqueue_cases writer_turn_def split: list.splits)

interpretation writer: total_system "\<lambda>w e. writer_exec e w" "\<lambda>w. writer_inv w \<and> aw_capacity w = capacity" for capacity :: nat
  by unfold_locales (simp add: writer_exec_inv)

lemma writer_run_inv:
  "writer_inv w \<Longrightarrow> writer_inv (foldl (\<lambda>w e. writer_exec e w) w es) \<and>
     aw_capacity (foldl (\<lambda>w e. writer_exec e w) w es) = aw_capacity w"
  using writer.fold_inv [of w "aw_capacity w" es] by blast

lemma writer_run_accepted:
  "\<exists>rs. accepted (foldl (\<lambda>w e. writer_exec e w) w es) = accepted w @ rs \<and> subseq rs (offered es)"
proof (induction es arbitrary: w)
  case (Cons e es)
  from Cons.IH [of "writer_exec e w"] obtain rs where
    rs: "accepted (foldl (\<lambda>w e. writer_exec e w) w (e # es)) = accepted (writer_exec e w) @ rs" "subseq rs (offered es)"
    by auto
  show ?case
  proof (cases e)
    case (Offer r)
    with rs show ?thesis
      unfolding writer_exec_accepted
      by (cases "fst (enqueue r w)") (auto intro: exI [of _ "r # rs"] exI [of _ rs] list_emb_Cons)
  qed (use rs writer_exec_accepted [of e w] in auto)
qed simp

text \<open>Energy records on the writer: what the meter hands over is accepted or dropped, never altered or reordered.\<close>

definition energy_accepted :: "accounting_writer \<Rightarrow> (f64 \<times> f64) list" where
  "energy_accepted w = List.map_filter (\<lambda>r. case r of Energy e p \<Rightarrow> Some (e, p) | Usage _ \<Rightarrow> None) (accepted w)"

interpretation writer_sink: energy_sink sink_record_energy energy_accepted
  by unfold_locales
     (simp add: energy_accepted_def accepted_def sink_record_energy_def enqueue_cases List.map_filter_def)

section \<open>Retention\<close>

definition SECONDS_PER_DAY :: int where
  "SECONDS_PER_DAY = 86400"

definition retention_seconds :: "64 word \<Rightarrow> int option" where
  "retention_seconds retention_days =
     Option.bind (checked64 (uint retention_days)) (\<lambda>d. checked_mul d SECONDS_PER_DAY)"

definition cutoff_timestamp :: "int \<Rightarrow> int \<Rightarrow> int option" where
  "cutoff_timestamp now retention_secs = checked_sub now retention_secs"

text \<open>One iteration of the loop, and the task: \<open>None\<close> when no pruner is started.\<close>

definition prune_iteration ::
    "int \<Rightarrow> int option \<times> db_error option \<times> db_error option \<times> db_error option \<Rightarrow> usage_db \<Rightarrow> usage_db" where
  "prune_iteration retention_secs env db =
     (case env of (clock, pool, exec1, exec2) \<Rightarrow>
        (case clock of
           None \<Rightarrow> db
         | Some now \<Rightarrow>
             (case cutoff_timestamp now retention_secs of
                None \<Rightarrow> db
              | Some cutoff \<Rightarrow> snd (prune_older_than pool exec1 exec2 cutoff db))))"

definition spawn_pruner ::
    "64 word \<Rightarrow> (int option \<times> db_error option \<times> db_error option \<times> db_error option \<Rightarrow> usage_db \<Rightarrow> usage_db) option" where
  "spawn_pruner retention_days =
     (if retention_days = 0 then None
      else map_option prune_iteration (retention_seconds retention_days))"

lemma spawn_pruner_Some:
  "spawn_pruner days = Some it \<longleftrightarrow>
     days \<noteq> 0 \<and> uint days * 86400 \<le> i64_max \<and> it = prune_iteration (uint days * 86400)"
proof -
  obtain n where n: "uint days = n" "0 \<le> n" by simp
  have "retention_seconds days = (if uint days * 86400 \<le> i64_max then Some (uint days * 86400) else None)"
    unfolding retention_seconds_def SECONDS_PER_DAY_def checked_mul_def checked64_def in_i64_def i64_min_def i64_max_def n(1)
    using n(2) by (cases "n \<le> 9223372036854775807") auto
  then show ?thesis by (auto simp: spawn_pruner_def)
qed

lemma prune_iteration_rows:
  "prune_iteration secs (Some now, pool, exec1, exec2) db =
     (if \<not> in_i64 (now - secs) \<or> pool \<noteq> None \<or> exec1 \<noteq> None then db
      else if exec2 \<noteq> None then db\<lparr>ud_tokens := filter (\<lambda>t. now - secs \<le> tr_ts t) (ud_tokens db)\<rparr>
      else db\<lparr>ud_tokens := filter (\<lambda>t. now - secs \<le> tr_ts t) (ud_tokens db),
              ud_energy := filter (\<lambda>e. now - secs \<le> en_ts e) (ud_energy db)\<rparr>)"
  by (auto simp: prune_iteration_def cutoff_timestamp_def checked_sub_def checked64_def prune_older_than_def
        Let_def not_less split: option.splits)

lemma prune_iteration_no_clock: "prune_iteration secs (None, pool, exec1, exec2) db = db"
  by (simp add: prune_iteration_def)

lemma writer_drain:
  "aw_receiver w \<Longrightarrow> (writer_turn ^^ length (aw_queue w)) w = w\<lparr>aw_queue := [], aw_persisted := accepted w\<rparr>"
proof (induction "aw_queue w" arbitrary: w)
  case (Cons r rs)
  let ?w = "w\<lparr>aw_queue := rs, aw_persisted := aw_persisted w @ [r]\<rparr>"
  have "writer_turn w = ?w" using Cons.hyps(2) [symmetric] Cons.prems by (simp add: writer_turn_def)
  moreover have "(writer_turn ^^ length rs) ?w = ?w\<lparr>aw_queue := [], aw_persisted := accepted ?w\<rparr>"
    using Cons.hyps(1) [of ?w] Cons.prems by simp
  ultimately show ?case
    using Cons.hyps(2) [symmetric] by (simp add: accepted_def funpow_swap1 [symmetric] funpow_Suc_right del: funpow.simps)
qed (simp add: accepted_def)

section \<open>Properties\<close>

text \<open>
  Accounting is bounded, in order and never blocks. However requests and the writer thread interleave,
  at most 1024 records wait; the records taken by the thread followed by those waiting are a subsequence of
  the records offered, unaltered and in their order; a record is refused exactly when the queue is full or
  the thread has stopped, and then nothing changes; as many turns as records wait persist all of them. The
  energy records of a meter reach the queue in the order the meter closed its intervals.
\<close>

theorem accounting_queue_bounded:
  "case foldl (\<lambda>w e. writer_exec e w) spawn es of w \<Rightarrow>
     length (aw_queue w) \<le> 1024 \<and> subseq (aw_persisted w @ aw_queue w) (offered es) \<and>
     enqueue r w = (if aw_receiver w \<and> length (aw_queue w) < 1024
                    then (True, w\<lparr>aw_queue := aw_queue w @ [r]\<rparr>) else (False, w)) \<and>
     (if aw_receiver w
      then (writer_turn ^^ length (aw_queue w)) w = w\<lparr>aw_queue := [], aw_persisted := aw_persisted w @ aw_queue w\<rparr>
      else writer_turn w = w) \<and>
     (\<exists>rs. energy_accepted (fold (\<lambda>(e, p). sink_record_energy e p) calls w) = energy_accepted w @ rs \<and> subseq rs calls)"
proof -
  let ?w = "foldl (\<lambda>w e. writer_exec e w) spawn es"
  have start: "writer_inv spawn" "aw_capacity spawn = 1024" "accepted spawn = []"
    by (simp_all add: spawn_def spawn_with_def writer_inv_def ACCOUNTING_QUEUE_CAPACITY_def accepted_def)
  from writer_run_inv [OF start(1), of es] start(2) have inv: "length (aw_queue ?w) \<le> 1024" "aw_capacity ?w = 1024"
    by (auto simp: writer_inv_def)
  from writer_run_accepted [of spawn es] start(3) have "subseq (aw_persisted ?w @ aw_queue ?w) (offered es)"
    by (auto simp: accepted_def)
  moreover have "if aw_receiver ?w
      then (writer_turn ^^ length (aw_queue ?w)) ?w = ?w\<lparr>aw_queue := [], aw_persisted := aw_persisted ?w @ aw_queue ?w\<rparr>
      else writer_turn ?w = ?w"
    using writer_drain [of ?w] by (auto simp: accepted_def writer_turn_def split: list.splits)
  ultimately show ?thesis
    using inv writer_sink.record_all_subseq [of calls ?w] by (simp add: enqueue_cases)
qed

text \<open>
  Retention deletes what is older than the configured number of days and nothing else. Zero days, or a
  period that does not fit 64 bits, start no pruner. An iteration at time \<open>now\<close> never touches a row of the
  last \<open>days * 86400\<close> seconds whatever fails, and when nothing fails it leaves exactly these rows in both
  tables; without a clock it does nothing.
\<close>

theorem retention_prunes_exactly:
  "(spawn_pruner days = None \<longleftrightarrow> days = 0 \<or> i64_max < uint days * 86400) \<and>
   (spawn_pruner days = Some it \<and> in_i64 (now - uint days * 86400) \<longrightarrow>
      (case it (Some now, pool, exec1, exec2) db of db' \<Rightarrow>
         filter (\<lambda>t. now - uint days * 86400 \<le> tr_ts t) (ud_tokens db') =
           filter (\<lambda>t. now - uint days * 86400 \<le> tr_ts t) (ud_tokens db) \<and>
         filter (\<lambda>e. now - uint days * 86400 \<le> en_ts e) (ud_energy db') =
           filter (\<lambda>e. now - uint days * 86400 \<le> en_ts e) (ud_energy db)) \<and>
      it (Some now, None, None, None) db =
        db\<lparr>ud_tokens := filter (\<lambda>t. now - uint days * 86400 \<le> tr_ts t) (ud_tokens db),
           ud_energy := filter (\<lambda>e. now - uint days * 86400 \<le> en_ts e) (ud_energy db)\<rparr> \<and>
      it (None, pool, exec1, exec2) db = db)"
proof (intro conjI impI)
  show "spawn_pruner days = None \<longleftrightarrow> days = 0 \<or> i64_max < uint days * 86400"
    using spawn_pruner_Some [of days] by (cases "spawn_pruner days") (force simp: not_le)+
qed (auto simp: spawn_pruner_Some prune_iteration_rows prune_iteration_no_clock intro: filter_cong)

theorem retention_prunes_exactly_witness:
  "spawn_pruner 1 = Some (prune_iteration 86400) \<and>
   ud_tokens (prune_iteration 86400 (Some 87500, None, None, None) example_usage) =
     [example_row 2 1100 None, example_row 3 1700 (Some 2)] \<and>
   prune_iteration 86400 (None, None, None, None) example_usage = example_usage"
proof -
  have "spawn_pruner 1 = Some (prune_iteration 86400)" by (simp add: spawn_pruner_Some i64_max_def)
  moreover have "in_i64 (87500 - uint (1 :: 64 word) * 86400)" by (simp add: machine_int)
  ultimately show ?thesis
    using retention_prunes_exactly [of 1 "prune_iteration 86400" 87500 None None None example_usage]
    by (simp add: example_usage_def example_row_def)
qed

end
