(* ===== verification/Routing.thy ===== *)
theory Routing
  imports Backends
begin

text \<open>
  The guarantees of the backend registry: its invariant and the preservation of it by every
  operation, the order in which candidates are tried, the load bound, and the isolation of catalog
  updates.
\<close>

section \<open>Invariant\<close>

definition catalog_allowed :: "backend list \<Rightarrow> catalog_entry list list \<Rightarrow> bool" where
  "catalog_allowed backends entries \<longleftrightarrow>
     (\<forall>i < length backends. \<forall>e \<in> set (entries ! i). model_allowed (b_model_filter (backends ! i)) (ce_id e))"

definition reg_inv :: "registry \<Rightarrow> bool" where
  "reg_inv reg \<longleftrightarrow>
     reg_backends reg \<noteq> [] \<and> length (reg_backends reg) \<le> 2 ^ 32 \<and>
     length (reg_inflight reg) = length (reg_backends reg) \<and>
     length (cat_entries (reg_catalog reg)) = length (reg_backends reg) \<and>
     (\<forall>m. cands (cat_routing (reg_catalog reg)) m = map of_nat (serving (cat_entries (reg_catalog reg)) m)) \<and>
     (\<forall>m e. cat_routing (reg_catalog reg) m = Some e \<longrightarrow> re_candidates e \<noteq> []) \<and>
     prev_ok (Some (cat_routing (reg_catalog reg))) (reg_rotations reg) \<and>
     catalog_allowed (reg_backends reg) (cat_entries (reg_catalog reg)) \<and>
     (reg_mode reg = FlatPassthrough \<longrightarrow> length (reg_backends reg) = 1)"

lemma retain_unseen_subset: "set (retain_unseen seen es) \<subseteq> set es"
  by (induction seen es rule: retain_unseen.induct) auto

lemma retain_unseen_ids: "ce_id ` set (retain_unseen seen es) = ce_id ` set es - seen"
  by (induction seen es rule: retain_unseen.induct) auto

lemma dedup_subset: "set (deduplicate_backend_entries es) \<subseteq> set es"
  by (simp add: deduplicate_backend_entries_def retain_unseen_subset)

lemma dedup_ids: "ce_id ` set (deduplicate_backend_entries es) = ce_id ` set es"
  by (simp add: deduplicate_backend_entries_def retain_unseen_ids)

lemma table_ok_prev:
  assumes "table_ok previous base (R, H)" "prev_ok previous base"
  shows "prev_ok (Some R) H"
proof -
  from assms(1) obtain k where H: "H = base @ replicate k 0" by (auto dest: table_ok_base)
  have "re_rotation e < length H" if "R m = Some e" for m e
    using entry_rot_less [OF table_ok_entry [OF assms(1) that] assms(2)] by (simp add: H)
  then show ?thesis
    using table_ok_inj [OF assms(1)] by (auto simp: prev_ok_def rotation_of_def)
qed

lemma table_ok_nonempty: "table_ok previous base (R, H) \<Longrightarrow> R m = Some e \<Longrightarrow> re_candidates e \<noteq> []"
  by (auto dest: table_ok_entry simp: entry_rot_def)

lemma build_routing_inv:
  assumes "build_routing entries previous base = (R, H)" "prev_ok previous base" "length entries \<le> 2 ^ 32"
  shows "prev_ok (Some R) H" "\<And>m. cands R m = map of_nat (serving entries m)"
    "\<And>m e. R m = Some e \<Longrightarrow> re_candidates e \<noteq> []"
  using build_routing_spec [OF assms(2,3)] table_ok_prev [OF _ assms(2)] table_ok_nonempty assms(1)
  by auto

lemma prev_ok_None: "prev_ok None base"
  by (simp add: prev_ok_def rotation_of_def)

lemma registry_new_inv:
  assumes "registry_new backends static_models mode = Inr reg" "length backends \<le> 2 ^ 32"
  shows "reg_inv reg"
proof -
  let ?entries = "map (\<lambda>(b, models). static_entries b models) (zip backends static_models)"
  obtain R H where R: "build_routing ?entries None [] = (R, H)" by (metis surj_pair)
  from assms(1) have len: "length static_models = length backends"
    by (simp add: registry_new_def split: if_splits)
  have "catalog_allowed backends ?entries"
    using dedup_subset by (fastforce simp: catalog_allowed_def static_entries_def static_entry_def len)
  with assms R build_routing_inv [OF R prev_ok_None] len show ?thesis
    by (auto simp: registry_new_def reg_inv_def Let_def split: if_splits)
qed

lemma with_load_balancing_inv: "reg_inv reg \<Longrightarrow> reg_inv (with_load_balancing strategy factor reg)"
  by (simp add: reg_inv_def with_load_balancing_def)

lemma begin_load_inv: "reg_inv reg \<Longrightarrow> begin_load i reg = Inr reg' \<Longrightarrow> reg_inv reg'"
  by (auto simp: reg_inv_def begin_load_def split: if_splits)

lemma load_guard_drop_inv: "reg_inv reg \<Longrightarrow> load_guard_drop i reg = Inr reg' \<Longrightarrow> reg_inv reg'"
  by (auto simp: reg_inv_def load_guard_drop_def split: if_splits)

lemma set_backend_models_Inr:
  assumes "set_backend_models idx es reg = Inr reg'"
  obtains R H where
    "idx < length (reg_backends reg)" "idx < length (cat_entries (reg_catalog reg))"
    "build_routing ((cat_entries (reg_catalog reg))[idx := polled_entries (reg_backends reg ! idx) es])
       (Some (cat_routing (reg_catalog reg))) (reg_rotations reg) = (R, H)"
    "reg' = reg\<lparr>reg_catalog := \<lparr>cat_entries = (cat_entries (reg_catalog reg))
       [idx := polled_entries (reg_backends reg ! idx) es], cat_routing = R\<rparr>, reg_rotations := H\<rparr>"
  using assms by (auto simp: set_backend_models_def Let_def split: if_splits prod.splits)

lemma set_backend_models_total:
  assumes "reg_inv reg" "idx < length (reg_backends reg)"
  shows "\<exists>reg'. set_backend_models idx es reg = Inr reg'"
proof -
  have "idx < length (cat_entries (reg_catalog reg))" using assms by (simp add: reg_inv_def)
  with assms(2) show ?thesis by (simp add: set_backend_models_def Let_def split: prod.splits)
qed

lemma set_backend_models_inv:
  assumes "reg_inv reg" "set_backend_models idx es reg = Inr reg'"
  shows "reg_inv reg'"
proof -
  let ?entries = "(cat_entries (reg_catalog reg))[idx := polled_entries (reg_backends reg ! idx) es]"
  from assms(2) obtain R H where idx: "idx < length (reg_backends reg)"
    and R: "build_routing ?entries (Some (cat_routing (reg_catalog reg))) (reg_rotations reg) = (R, H)"
    and reg': "reg' = reg\<lparr>reg_catalog := \<lparr>cat_entries = ?entries, cat_routing = R\<rparr>, reg_rotations := H\<rparr>"
    by (rule set_backend_models_Inr)
  from assms(1) have prev: "prev_ok (Some (cat_routing (reg_catalog reg))) (reg_rotations reg)"
    and len: "length ?entries \<le> 2 ^ 32"
    and old: "catalog_allowed (reg_backends reg) (cat_entries (reg_catalog reg))"
    by (auto simp: reg_inv_def)
  have "model_allowed (b_model_filter (reg_backends reg ! idx)) (ce_id e)"
    if "e \<in> set (polled_entries (reg_backends reg ! idx) es)" for e
    using that dedup_subset by (fastforce simp: polled_entries_def)
  then have "model_allowed (b_model_filter (reg_backends reg ! i)) (ce_id e)"
    if "i < length (reg_backends reg)" "e \<in> set (?entries ! i)" for i e
    using that old by (cases "i = idx"; cases "idx < length (cat_entries (reg_catalog reg))")
      (auto simp: catalog_allowed_def list_update_beyond)
  then have "catalog_allowed (reg_backends reg) ?entries" by (simp add: catalog_allowed_def)
  with assms(1) build_routing_inv [OF R prev len] show ?thesis
    unfolding reg' reg_inv_def by simp
qed

section \<open>Candidates\<close>

text \<open>What \<open>sort_unstable_by\<close> on descending scores guarantees.\<close>

definition score_sort :: "((64 word \<times> nat) list \<Rightarrow> (64 word \<times> nat) list) \<Rightarrow> bool" where
  "score_sort sort_scores \<longleftrightarrow>
     (\<forall>xs. mset (sort_scores xs) = mset xs \<and> sorted_wrt (\<lambda>a b. fst b \<le> fst a) (sort_scores xs))"

lemma load_all_ok:
  "\<forall>i \<in> set is. i < length inflight \<Longrightarrow> load_all inflight is = Inr (map ((!) inflight) is)"
  by (induction "is") (simp_all add: load_of_def)

lemma reg_entry:
  assumes "reg_inv reg" "cat_routing (reg_catalog reg) m = Some e"
  shows "re_candidates e = map of_nat (serving (cat_entries (reg_catalog reg)) m)"
    and "map unat (re_candidates e) = serving (cat_entries (reg_catalog reg)) m"
    and "re_rotation e < length (reg_rotations reg)"
    and "serving (cat_entries (reg_catalog reg)) m \<noteq> []"
proof -
  from assms have "cands (cat_routing (reg_catalog reg)) m = map of_nat (serving (cat_entries (reg_catalog reg)) m)"
    by (simp add: reg_inv_def)
  with assms(2) show c: "re_candidates e = map of_nat (serving (cat_entries (reg_catalog reg)) m)"
    by (simp add: cands_def)
  have "i < 2 ^ 32" if "i \<in> set (serving (cat_entries (reg_catalog reg)) m)" for i
    using serving_less [OF that] assms(1) by (simp add: reg_inv_def)
  then show "map unat (re_candidates e) = serving (cat_entries (reg_catalog reg)) m"
    unfolding c by (simp add: map_idI unat_of_nat_32)
  show "re_rotation e < length (reg_rotations reg)"
    using assms by (fastforce simp: reg_inv_def prev_ok_def rotation_of_def)
  show "serving (cat_entries (reg_catalog reg)) m \<noteq> []"
    using assms c by (auto simp: reg_inv_def)
qed

lemma reg_no_entry:
  assumes "reg_inv reg"
  shows "cat_routing (reg_catalog reg) m = None \<longleftrightarrow> serving (cat_entries (reg_catalog reg)) m = []"
proof
  assume "cat_routing (reg_catalog reg) m = None"
  moreover have "cands (cat_routing (reg_catalog reg)) m = map of_nat (serving (cat_entries (reg_catalog reg)) m)"
    using assms by (simp add: reg_inv_def)
  ultimately show "serving (cat_entries (reg_catalog reg)) m = []" by (simp add: cands_def)
next
  assume "serving (cat_entries (reg_catalog reg)) m = []"
  with reg_entry(4) [OF assms] show "cat_routing (reg_catalog reg) m = None" by (metis option.exhaust)
qed

lemma serving_inflight: "reg_inv reg \<Longrightarrow> i \<in> set (serving (cat_entries (reg_catalog reg)) m) \<Longrightarrow> i < length (reg_inflight reg)"
  using serving_less by (fastforce simp: reg_inv_def)

lemma mset_rotate: "mset (rotate n xs) = mset xs"
proof (induction n)
  case (Suc n)
  then show ?case by (cases "rotate n xs") (auto simp: rotate_def)
qed simp

lemma mset_sort_by_load: "mset (map snd (sort_key fst (zip (map f xs) xs))) = mset xs"
proof -
  have "mset (map snd (sort_key fst (zip (map f xs) xs))) = mset (map snd (zip (map f xs) xs))"
    by (simp only: mset_map mset_sort)
  then show ?thesis by simp
qed

lemma strategy_placement_perm:
  assumes "reg_inv reg" "cat_routing (reg_catalog reg) m = Some e"
  shows "\<exists>cs counters. strategy_placement reg e = Inr (cs, counters) \<and> length counters = length (reg_rotations reg) \<and>
    mset cs = mset (serving (cat_entries (reg_catalog reg)) m)"
proof (cases "reg_strategy reg")
  case RoundRobin
  with reg_entry [OF assms] show ?thesis
    by (auto simp: strategy_placement_def Let_def mset_rotate)
next
  case LeastLoaded
  let ?s = "serving (cat_entries (reg_catalog reg)) m"
  have "load_all (reg_inflight reg) ?s = Inr (map ((!) (reg_inflight reg)) ?s)"
    using serving_inflight [OF assms(1)] by (intro load_all_ok) auto
  moreover have "mset (map snd (sort_key fst (zip (map ((!) (reg_inflight reg)) ?s) ?s))) = mset ?s"
    by (rule mset_sort_by_load)
  ultimately show ?thesis
    using LeastLoaded reg_entry(2) [OF assms] by (auto simp: strategy_placement_def Let_def)
qed

lemma spill_target_ok:
  assumes "\<forall>i \<in> set is. i < length inflight"
  shows "spill_target inflight primary is bound =
    Inr (case find (\<lambda>i. inflight ! i < bound) is of None \<Rightarrow> primary | Some i \<Rightarrow> i)"
  using assms by (induction "is") (auto simp: load_of_def)

lemma mset_front:
  assumes "distinct xs" "x \<in> set xs"
  shows "mset (x # filter (\<lambda>y. y \<noteq> x) xs) = mset xs"
proof -
  from assms(2) obtain ys zs where xs: "xs = ys @ x # zs" by (metis split_list)
  with assms(1) have "x \<notin> set ys" "x \<notin> set zs" by auto
  then have "filter (\<lambda>y. y \<noteq> x) ys = ys" "filter (\<lambda>y. y \<noteq> x) zs = zs"
    by (auto simp: filter_id_conv)
  then show ?thesis by (simp add: xs del: mset_filter)
qed

text \<open>The rendezvous order of the candidates for a prefix, and the one that is chosen.\<close>

definition rendezvous ::
    "((64 word \<times> nat) list \<Rightarrow> (64 word \<times> nat) list) \<Rightarrow> (64 word \<Rightarrow> 32 word \<Rightarrow> 64 word) \<Rightarrow> nat list \<Rightarrow> 64 word \<Rightarrow> nat list" where
  "rendezvous sort_scores score candidates h =
     map snd (sort_scores (map (\<lambda>idx. (score h (of_nat idx), idx)) candidates))"

definition under_bound :: "32 word list \<Rightarrow> f64 \<Rightarrow> nat list \<Rightarrow> nat \<Rightarrow> bool" where
  "under_bound inflight factor candidates i \<longleftrightarrow>
     inflight ! i < load_bound factor (sum_list (map ((!) inflight) candidates)) (length candidates)"

definition chosen_backend :: "32 word list \<Rightarrow> f64 \<Rightarrow> nat list \<Rightarrow> nat" where
  "chosen_backend inflight factor order =
     (case find (under_bound inflight factor order) order of Some i \<Rightarrow> i | None \<Rightarrow> hd order)"

lemma rendezvous_mset:
  assumes "score_sort sort_scores"
  shows "mset (rendezvous sort_scores score candidates h) = mset candidates"
proof -
  have "mset (rendezvous sort_scores score candidates h) =
      mset (map snd (map (\<lambda>idx. (score h (of_nat idx), idx)) candidates))"
    using assms by (simp only: rendezvous_def score_sort_def mset_map)
  then show ?thesis by (simp add: comp_def)
qed

lemma prefix_order_rendezvous:
  assumes "reg_inv reg" "cat_routing (reg_catalog reg) m = Some e"
  shows "prefix_order sort_scores score e h =
    rendezvous sort_scores score (serving (cat_entries (reg_catalog reg)) m) h"
proof -
  have "(\<lambda>idx. (score h idx, unat idx)) (of_nat i) = (score h (of_nat i), i)"
    if "i \<in> set (serving (cat_entries (reg_catalog reg)) m)" for i
    using serving_less [OF that] assms(1) by (simp add: reg_inv_def unat_of_nat_32)
  then show ?thesis
    unfolding prefix_order_def rendezvous_def reg_entry(1) [OF assms] map_map
    by (intro arg_cong [of _ _ "\<lambda>xs. map snd (sort_scores xs)"] map_cong) auto
qed

lemma under_bound_mset: "mset xs = mset ys \<Longrightarrow> under_bound inflight factor xs = under_bound inflight factor ys"
proof -
  assume m: "mset xs = mset ys"
  have "sum_list (map f xs) = sum_mset (image_mset f (mset xs))" for f :: "nat \<Rightarrow> 32 word" and xs
    by (simp add: sum_mset_sum_list [symmetric])
  then have "sum_list (map ((!) inflight) xs) = sum_list (map ((!) inflight) ys)" using m by metis
  moreover have "length xs = length ys" using m by (metis size_mset)
  ultimately show ?thesis by (simp add: under_bound_def fun_eq_iff)
qed

lemma ordered_candidates_prefix:
  assumes inv: "reg_inv reg" and e: "cat_routing (reg_catalog reg) m = Some e" and srt: "score_sort sort_scores"
    and order_def: "order = rendezvous sort_scores score (serving (cat_entries (reg_catalog reg)) m) h"
    and chosen_def: "chosen = chosen_backend (reg_inflight reg) (reg_overload_factor reg) order"
  shows "ordered_candidates sort_scores score reg e (Some h) =
    Inr (chosen # filter (\<lambda>i. i \<noteq> chosen) order, reg_rotations reg)"
    and "chosen \<in> set order" and "mset (chosen # filter (\<lambda>i. i \<noteq> chosen) order) = mset order"
proof -
  let ?s = "serving (cat_entries (reg_catalog reg)) m"
  let ?f = "reg_inflight reg" and ?fac = "reg_overload_factor reg"
  have ms: "mset order = mset ?s" unfolding order_def by (rule rendezvous_mset [OF srt])
  then have set_eq: "set order = set ?s" and dist: "distinct order"
    by (metis set_mset_mset) (metis ms mset_eq_imp_distinct_iff serving_distinct)
  have range: "\<forall>i \<in> set order. i < length ?f" using serving_inflight [OF inv] set_eq by auto
  obtain p rest where order: "order = p # rest"
    using reg_entry(4) [OF inv e] set_eq by (cases order) auto
  then have load_p: "load_of ?f p = Inr (?f ! p)" using range by (simp add: load_of_def)
  have at_head: "(case order of [] \<Rightarrow> z | x # _ \<Rightarrow> F x) = F p" for z :: "reg_panic + nat list \<times> 32 word list" and F
    by (simp add: order)
  have ub: "under_bound ?f ?fac ?s = under_bound ?f ?fac order" using ms by (rule under_bound_mset [symmetric])
  show mem: "chosen \<in> set order"
    by (auto simp: chosen_def chosen_backend_def order find_Some_iff2 split: option.splits)
       (metis find_Some_iff order in_set_conv_nth set_ConsD)
  show "mset (chosen # filter (\<lambda>i. i \<noteq> chosen) order) = mset order" by (rule mset_front [OF dist mem])
  let ?b = "load_bound ?fac (sum_list (map ((!) ?f) ?s)) (length ?s)"
  have find: "(case find (\<lambda>i. ?f ! i < ?b) order of None \<Rightarrow> p | Some i \<Rightarrow> i) = chosen"
  proof -
    have "(\<lambda>i. ?f ! i < ?b) = under_bound ?f ?fac ?s" by (simp add: under_bound_def fun_eq_iff)
    then show ?thesis unfolding chosen_def chosen_backend_def ub [symmetric]
      by (simp add: order split: option.splits)
  qed
  have "(if ?f ! p < ?b then Inr p else spill_target ?f p order ?b) = Inr chosen"
    unfolding spill_target_ok [OF range] find by (cases "?f ! p < ?b") (use find order in simp_all)
  moreover have "load_all ?f ?s = Inr (map ((!) ?f) ?s)"
    using range set_eq by (intro load_all_ok) auto
  moreover have "length (re_candidates e) = length ?s" using reg_entry(1) [OF inv e] by simp
  ultimately show "ordered_candidates sort_scores score reg e (Some h) =
      Inr (chosen # filter (\<lambda>i. i \<noteq> chosen) order, reg_rotations reg)"
    by (simp add: ordered_candidates_def Let_def prefix_order_rendezvous [OF inv e] reg_entry(2) [OF inv e]
          order_def [symmetric] at_head load_p)
qed

lemma route_known:
  assumes inv: "reg_inv reg" and srt: "score_sort sort_scores"
    and m: "rr_model req = Some m" and s: "serving (cat_entries (reg_catalog reg)) m \<noteq> []"
  shows "\<exists>cs counters. route_candidates sort_scores score reg req = Inr (Inr cs, reg\<lparr>reg_rotations := counters\<rparr>) \<and>
    length counters = length (reg_rotations reg) \<and> mset cs = mset (serving (cat_entries (reg_catalog reg)) m)"
proof -
  from reg_no_entry [OF inv, of m] s obtain e where e: "cat_routing (reg_catalog reg) m = Some e" by auto
  note ent = reg_entry [OF inv e]
  show ?thesis
  proof (cases "length (re_candidates e) = 1")
    case True
    then have "[unat (re_candidates e ! 0)] = map unat (re_candidates e)"
      by (cases "re_candidates e") auto
    then show ?thesis using True m e ent(2)
      by (intro exI [of _ "[unat (re_candidates e ! 0)]"] exI [of _ "reg_rotations reg"])
         (simp add: route_candidates_def)
  next
    case False
    have "\<exists>cs counters. ordered_candidates sort_scores score reg e (rr_prefix_hash req) = Inr (cs, counters) \<and>
        length counters = length (reg_rotations reg) \<and> mset cs = mset (serving (cat_entries (reg_catalog reg)) m)"
    proof (cases "rr_prefix_hash req")
      case None
      then show ?thesis using strategy_placement_perm [OF inv e] by (simp add: ordered_candidates_def)
    next
      case (Some h)
      show ?thesis
        unfolding Some ordered_candidates_prefix(1) [OF inv e srt refl refl]
        using ordered_candidates_prefix(3) [OF inv e srt refl refl, of score h] rendezvous_mset [OF srt] by auto
    qed
    then show ?thesis using False m e by (auto simp: route_candidates_def)
  qed
qed

section \<open>The load bound\<close>

lemma representable_step:
  assumes "k < 2 ^ 32"
  shows "representable (of_nat k + 1 / 2 ^ 20)"
proof -
  have "(of_nat k + 1 / 2 ^ 20 :: rat) = of_int (int k * 2 ^ 20 + 1) * 2 powi (-20)"
    by (simp add: power_int_minus field_simps)
  moreover have "\<bar>int k * 2 ^ 20 + 1\<bar> < 2 ^ 53" using assms by simp
  ultimately show ?thesis unfolding representable_def by (intro exI [of _ "int k * 2 ^ 20 + 1"] exI [of _ "-20"]) simp
qed

lemma f_mul_ge:
  assumes "f_le (Fin 1) factor" "0 < x" "representable x"
  shows "f_le (Fin x) (f_mul factor (Fin x))"
proof (cases factor)
  case (Fin f)
  with assms have "x \<le> f * x" by simp
  with ieee.rnd_ge_exact [OF assms(3)] Fin show ?thesis by simp
qed (use assms in auto)

lemma f_div_ge:
  assumes "f_le (Fin x) a" "0 < n" "representable g" "g * n \<le> x"
  shows "f_le (Fin g) (f_div a (Fin n))"
proof (cases a)
  case (Fin y)
  with assms have "g \<le> y / n" by (simp add: pos_le_divide_eq)
  with ieee.rnd_ge_exact [OF assms(3)] Fin assms(2) show ?thesis by simp
qed (use assms in auto)

lemma unat_max_32: "unat (- 1 :: 32 word) = 4294967295"
  by (simp add: unat_eq_nat_uint uint_word_ariths)

lemma u32_ceil_gt:
  assumes "f_le (Fin g) v" "of_nat k < g" "k < 2 ^ 32 - 1"
  shows "k < unat (f_as_u32 (f_ceil v))"
proof (cases v)
  case (Fin y)
  with assms have ky: "int k < \<lceil>y\<rceil>" by (simp add: less_ceiling_iff)
  show ?thesis
  proof (cases "(4294967295 :: rat) \<le> of_int \<lceil>y\<rceil>")
    case True
    with Fin ky assms(3) show ?thesis by (simp add: unat_max_32)
  next
    case False
    then have "\<lceil>y\<rceil> < 4294967295" by (simp add: not_le)
    moreover have nn: "0 \<le> \<lceil>y\<rceil>" using ky by linarith
    ultimately have "\<lceil>y\<rceil> mod 4294967296 = \<lceil>y\<rceil>" by (intro mod_pos_pos_trivial) linarith+
    then have "unat (word_of_int \<lceil>y\<rceil> :: 32 word) = nat \<lceil>y\<rceil>"
      by (simp add: unat_eq_nat_uint uint_word_of_int)
    moreover have "f_as_u32 (f_ceil v) = word_of_int \<lceil>y\<rceil>"
      using nn False by (auto simp only: Fin f_ceil.simps f_as_u32.simps of_int_less_0_iff floor_of_int split: if_splits)
    ultimately show ?thesis using ky by simp
  qed
qed (use assms in \<open>auto simp: unat_max_32\<close>)

lemma load_bound_gt:
  assumes "f_le (Fin 1) factor" "0 < n" "n \<le> 2 ^ 20" "n * k \<le> t" "t + 1 < 2 ^ 32"
  shows "k < unat (load_bound factor (of_nat t) n)"
proof -
  let ?t = "of_nat (t + 1) :: rat" and ?g = "of_nat k + 1 / 2 ^ 20 :: rat"
  have k: "k \<le> t" using assms(2,4) by (metis le_trans mult.commute mult_le_mono2 nat_mult_1_right One_nat_def Suc_leI)
  have t: "representable ?t" using assms(5) representable_int [of "int (t + 1)"] by simp
  have "uint (of_nat t :: 32 word) = int t"
    using assms(5) unat_of_nat_32 [of t] by (simp add: uint_nat)
  then have add: "f_add (f_of_int (uint (of_nat t :: 32 word))) (Fin 1) = Fin ?t"
    using assms(5) t by (simp add: f_of_int_exact round64_exact add.commute)
  have n: "f_of_int (int n) = Fin (of_nat n)" using assms(3) by (simp add: f_of_int_exact)
  have "(of_nat n :: rat) \<le> 2 ^ 20" using assms(3) by (metis of_nat_le_iff of_nat_numeral of_nat_power)
  moreover have "(of_nat (n * k) :: rat) \<le> of_nat t" using assms(4) by (simp only: of_nat_le_iff)
  ultimately have "?g * of_nat n \<le> ?t" by (simp add: field_simps)
  then have "f_le (Fin ?g) (f_div (f_mul factor (Fin ?t)) (Fin (of_nat n)))"
    using assms k by (intro f_div_ge [OF f_mul_ge [OF assms(1) _ t]] representable_step) simp_all
  then have "k < unat (f_as_u32 (f_ceil (f_div (f_mul factor (Fin ?t)) (Fin (of_nat n)))))"
    by (rule u32_ceil_gt) (use k assms(5) in \<open>simp_all only: less_add_same_cancel1\<close>, simp_all)
  then show ?thesis
    unfolding load_bound_def add n by (simp add: max_def word_le_nat_alt)
qed


text \<open>Some candidate is always under the bound: the least loaded one.\<close>

lemma some_under_bound:
  assumes "f_le (Fin 1) factor" "candidates \<noteq> []" "length candidates \<le> 2 ^ 20"
    "(\<Sum>i\<leftarrow>candidates. unat (inflight ! i)) + 1 < 2 ^ 32"
  shows "\<exists>i \<in> set candidates. under_bound inflight factor candidates i"
proof -
  let ?load = "\<lambda>i. unat (inflight ! i)"
  let ?k = "Min (?load ` set candidates)"
  have "?k \<in> ?load ` set candidates" using assms(2) by (intro Min_in) simp_all
  then obtain i where i: "i \<in> set candidates" "?load i = ?k" by auto
  have "(\<Sum>j\<leftarrow>candidates. ?k) \<le> (\<Sum>j\<leftarrow>candidates. ?load j)"
    by (rule sum_list_mono) simp
  then have "length candidates * ?k \<le> (\<Sum>j\<leftarrow>candidates. ?load j)" by (simp add: sum_list_triv)
  from load_bound_gt [OF assms(1) _ assms(3) this assms(4)] assms(2)
  have "?k < unat (load_bound factor (of_nat (\<Sum>j\<leftarrow>candidates. ?load j)) (length candidates))" by simp
  moreover have "(of_nat (\<Sum>j\<leftarrow>xs. unat (inflight ! j)) :: 32 word) = (\<Sum>j\<leftarrow>xs. inflight ! j)" for xs
    by (induction xs) simp_all
  ultimately have "under_bound inflight factor candidates i"
    unfolding under_bound_def word_less_nat_alt i(2) by simp
  with i(1) show ?thesis by blast
qed

section \<open>The registry in use\<close>

text \<open>
  A registry together with the load guards that are alive. Callers hand in indices the registry gave
  them, so \<open>BeginLoad\<close> and \<open>SetModels\<close> are events on existing backends only, and a guard can be
  dropped only while it is alive.
\<close>

datatype reg_event =
    Route route_request
  | BeginLoad nat
  | DropLoad nat
  | SetModels nat "model_entry list"

fun reg_exec ::
    "((64 word \<times> nat) list \<Rightarrow> (64 word \<times> nat) list) \<Rightarrow> (64 word \<Rightarrow> 32 word \<Rightarrow> 64 word)
     \<Rightarrow> reg_event \<Rightarrow> registry \<times> nat list \<Rightarrow> (reg_panic + registry \<times> nat list) option" where
  "reg_exec sort_scores score (Route req) (reg, guards) =
     Some (map_sum id (\<lambda>(_, reg'). (reg', guards)) (route_candidates sort_scores score reg req))"
| "reg_exec sort_scores score (BeginLoad i) (reg, guards) =
     (if i < length (reg_backends reg) then Some (map_sum id (\<lambda>reg'. (reg', i # guards)) (begin_load i reg)) else None)"
| "reg_exec sort_scores score (DropLoad i) (reg, guards) =
     (if i \<in> set guards then Some (map_sum id (\<lambda>reg'. (reg', remove1 i guards)) (load_guard_drop i reg)) else None)"
| "reg_exec sort_scores score (SetModels i es) (reg, guards) =
     (if i < length (reg_backends reg) then Some (map_sum id (\<lambda>reg'. (reg', guards)) (set_backend_models i es reg)) else None)"

definition loads_ok :: "registry \<Rightarrow> nat list \<Rightarrow> bool" where
  "loads_ok reg guards \<longleftrightarrow> (\<forall>i \<in> set guards. i < length (reg_inflight reg)) \<and>
     (\<forall>i < length (reg_inflight reg). reg_inflight reg ! i = of_nat (count_list guards i))"

definition reg_world_inv ::
    "((64 word \<times> nat) list \<Rightarrow> (64 word \<times> nat) list) \<Rightarrow> registry \<times> nat list \<Rightarrow> bool" where
  "reg_world_inv sort_scores s \<longleftrightarrow> score_sort sort_scores \<and> reg_inv (fst s) \<and> loads_ok (fst s) (snd s)"

lemma route_candidates_total:
  assumes "reg_inv reg" "score_sort sort_scores"
  shows "\<exists>r counters. route_candidates sort_scores score reg req = Inr (r, reg\<lparr>reg_rotations := counters\<rparr>) \<and>
    length counters = length (reg_rotations reg)"
proof (cases "rr_model req")
  case None
  then show ?thesis by (intro exI [of _ "Inl MissingModel"] exI [of _ "reg_rotations reg"]) (simp add: route_candidates_def)
next
  case (Some m)
  show ?thesis
  proof (cases "serving (cat_entries (reg_catalog reg)) m = []")
    case False
    from route_known [OF assms Some False] show ?thesis by blast
  next
    case True
    with reg_no_entry [OF assms(1)] have "cat_routing (reg_catalog reg) m = None" by blast
    then have "route_candidates sort_scores score reg req =
        Inr (if reg_mode reg = FlatPassthrough then Inr [0] else Inl (UnknownModel m), reg\<lparr>reg_rotations := reg_rotations reg\<rparr>)"
      using Some by (simp add: route_candidates_def)
    then show ?thesis by blast
  qed
qed

lemma reg_inv_rotations: "reg_inv reg \<Longrightarrow> length counters = length (reg_rotations reg) \<Longrightarrow> reg_inv (reg\<lparr>reg_rotations := counters\<rparr>)"
  by (simp add: reg_inv_def prev_ok_def)

lemma count_list_remove1: "i \<in> set xs \<Longrightarrow> count_list xs j = count_list (remove1 i xs) j + (if i = j then 1 else 0)"
  by (induction xs) auto

lemma reg_exec_world:
  assumes inv: "reg_world_inv sort_scores s" and ex: "reg_exec sort_scores score e s = Some r"
  shows "\<exists>t. r = Inr t \<and> reg_world_inv sort_scores t"
proof -
  obtain reg guards where s: "s = (reg, guards)" by (cases s)
  from inv have srt: "score_sort sort_scores" and reg: "reg_inv reg" and loads: "loads_ok reg guards"
    by (simp_all add: reg_world_inv_def s)
  show ?thesis
  proof (cases e)
    case (Route req)
    obtain rt counters where rt: "route_candidates sort_scores score reg req = Inr (rt, reg\<lparr>reg_rotations := counters\<rparr>)"
      and len: "length counters = length (reg_rotations reg)"
      using route_candidates_total [OF reg srt] by blast
    have "loads_ok (reg\<lparr>reg_rotations := counters\<rparr>) guards" using loads by (simp add: loads_ok_def)
    with ex rt srt reg_inv_rotations [OF reg len] show ?thesis
      by (auto simp: s Route reg_world_inv_def)
  next
    case (BeginLoad i)
    with ex reg have i: "i < length (reg_inflight reg)" by (auto simp: s reg_inv_def split: if_splits)
    then obtain reg' where b: "begin_load i reg = Inr reg'" by (simp add: begin_load_def)
    with i loads have "loads_ok reg' (i # guards)"
      by (auto simp: begin_load_def loads_ok_def nth_list_update)
    with ex b begin_load_inv [OF reg b] srt show ?thesis
      by (auto simp: s BeginLoad reg_world_inv_def split: if_splits)
  next
    case (DropLoad i)
    with ex have i: "i \<in> set guards" by (auto simp: s split: if_splits)
    with loads have i': "i < length (reg_inflight reg)" by (simp add: loads_ok_def)
    then obtain reg' where b: "load_guard_drop i reg = Inr reg'" by (simp add: load_guard_drop_def)
    with i' have reg': "reg' = reg\<lparr>reg_inflight := (reg_inflight reg)[i := reg_inflight reg ! i - 1]\<rparr>"
      by (simp add: load_guard_drop_def)
    have "reg_inflight reg' ! j = of_nat (count_list (remove1 i guards) j)" if "j < length (reg_inflight reg)" for j
    proof -
      have "reg_inflight reg ! j = of_nat (count_list (remove1 i guards) j + (if i = j then 1 else 0))"
        using that loads unfolding count_list_remove1 [OF i, symmetric] by (simp add: loads_ok_def)
      with that show ?thesis by (cases "i = j") (simp_all add: reg')
    qed
    with loads have "loads_ok reg' (remove1 i guards)"
      by (auto simp: loads_ok_def reg' dest: notin_set_remove1)
    with ex b load_guard_drop_inv [OF reg b] srt i show ?thesis
      by (auto simp: s DropLoad reg_world_inv_def)
  next
    case (SetModels i es)
    with ex have i: "i < length (reg_backends reg)" by (auto simp: s split: if_splits)
    then obtain reg' where b: "set_backend_models i es reg = Inr reg'"
      using set_backend_models_total [OF reg] by blast
    then have "loads_ok reg' guards"
      using loads by (auto elim!: set_backend_models_Inr simp: loads_ok_def)
    with ex b set_backend_models_inv [OF reg b] srt i show ?thesis
      by (auto simp: s SetModels reg_world_inv_def)
  qed
qed

interpretation registry: guarded_system "reg_exec sort_scores score" "reg_world_inv sort_scores"
  for sort_scores score
  by unfold_locales (blast dest: reg_exec_world)+

lemma registry_new_idle: "registry_new backends models mode = Inr reg \<Longrightarrow> loads_ok reg []"
  by (auto simp: registry_new_def loads_ok_def Let_def split: if_splits prod.splits)

lemma reg_world_start:
  assumes "registry_new backends models mode = Inr reg" "length backends \<le> 2 ^ 32" "score_sort sort_scores"
  shows "reg_world_inv sort_scores (with_load_balancing strategy factor reg, [])"
proof -
  from registry_new_idle [OF assms(1)] have "loads_ok (with_load_balancing strategy factor reg) []"
    by (simp add: loads_ok_def with_load_balancing_def)
  with registry_new_inv [OF assms(1,2)] assms(3) show ?thesis
    by (simp add: reg_world_inv_def with_load_balancing_inv)
qed

text \<open>The first choices of a number of equal requests, one after the other.\<close>

fun route_heads ::
    "((64 word \<times> nat) list \<Rightarrow> (64 word \<times> nat) list) \<Rightarrow> (64 word \<Rightarrow> 32 word \<Rightarrow> 64 word)
     \<Rightarrow> route_request \<Rightarrow> nat \<Rightarrow> registry \<Rightarrow> nat list" where
  "route_heads sort_scores score req 0 reg = []"
| "route_heads sort_scores score req (Suc k) reg =
     (case route_candidates sort_scores score reg req of
        Inr (Inr (i # _), reg') \<Rightarrow> i # route_heads sort_scores score req k reg'
      | _ \<Rightarrow> [])"

lemma round_robin_step:
  assumes inv: "reg_inv reg" and e: "cat_routing (reg_catalog reg) m = Some e"
    and rr: "reg_strategy reg = RoundRobin" and n: "2 \<le> length (serving (cat_entries (reg_catalog reg)) m)"
  shows "route_candidates sort_scores score reg \<lparr>rr_model = Some m, rr_prefix_hash = None\<rparr> =
    Inr (Inr (rotate (unat (reg_rotations reg ! re_rotation e) mod length (serving (cat_entries (reg_catalog reg)) m))
                (serving (cat_entries (reg_catalog reg)) m)),
         reg\<lparr>reg_rotations := (reg_rotations reg)[re_rotation e := reg_rotations reg ! re_rotation e + 1]\<rparr>)"
proof -
  have "length (re_candidates e) = length (serving (cat_entries (reg_catalog reg)) m)"
    using reg_entry(1) [OF inv e] by simp
  then show ?thesis
    using e rr n reg_entry(2) [OF inv e]
    by (auto simp: route_candidates_def ordered_candidates_def strategy_placement_def Let_def)
qed

lemma route_heads_round_robin:
  assumes "reg_inv reg" "cat_routing (reg_catalog reg) m = Some e" "reg_strategy reg = RoundRobin"
    "2 \<le> length (serving (cat_entries (reg_catalog reg)) m)"
    "unat (reg_rotations reg ! re_rotation e) + k \<le> 2 ^ 32"
  shows "route_heads sort_scores score \<lparr>rr_model = Some m, rr_prefix_hash = None\<rparr> k reg =
    map (\<lambda>j. serving (cat_entries (reg_catalog reg)) m !
          ((unat (reg_rotations reg ! re_rotation e) + j) mod length (serving (cat_entries (reg_catalog reg)) m))) [0..<k]"
  using assms
proof (induction k arbitrary: reg)
  case (Suc k)
  let ?s = "serving (cat_entries (reg_catalog reg)) m" and ?c = "reg_rotations reg ! re_rotation e"
  let ?reg = "reg\<lparr>reg_rotations := (reg_rotations reg)[re_rotation e := ?c + 1]\<rparr>"
  have s: "?s \<noteq> []" using Suc.prems(4) by auto
  have r: "re_rotation e < length (reg_rotations reg)" by (rule reg_entry(3) [OF Suc.prems(1,2)])
  obtain rest where head: "rotate (unat ?c mod length ?s) ?s = ?s ! (unat ?c mod length ?s) # rest"
    using hd_rotate_conv_nth [OF s, of "unat ?c mod length ?s"] s
    by (cases "rotate (unat ?c mod length ?s) ?s") (auto simp: mod_mod_trivial)
  have "route_heads sort_scores score \<lparr>rr_model = Some m, rr_prefix_hash = None\<rparr> k ?reg =
      map (\<lambda>j. ?s ! ((unat (?c + 1) + j) mod length ?s)) [0..<k]"
    if "k \<noteq> 0"
  proof -
    have "unat (?c + 1) = unat ?c + 1"
      using Suc.prems(5) that by (simp add: unat_word_ariths)
    with Suc.IH [of ?reg] Suc.prems r show ?thesis by (simp add: reg_inv_rotations)
  qed
  moreover have "unat (?c + 1) = Suc (unat ?c)" if "k \<noteq> 0"
    using Suc.prems(5) that by (simp add: unat_word_ariths)
  moreover have "[0..<Suc k] = 0 # map Suc [0..<k]" by (simp add: upt_conv_Cons map_Suc_upt)
  ultimately show ?case
    unfolding route_heads.simps round_robin_step [OF Suc.prems(1-4)] head by (cases "k = 0") (simp_all del: upt_Suc)
qed simp

lemma polled_ids:
  "ce_id ` set (polled_entries b es) = {m \<in> me_id ` set es. model_allowed (b_model_filter b) m}"
  by (auto simp: polled_entries_def dedup_ids image_image)

lemma rebuilt_rotation:
  assumes "table_ok (Some R) base (R', H)" "prev_ok (Some R) base" "R' m = Some e'"
  shows "H ! re_rotation e' = (case R m of Some e \<Rightarrow> base ! re_rotation e | None \<Rightarrow> 0)"
proof -
  from table_ok_base [OF assms(1)] obtain k where H: "H = base @ replicate k 0" ..
  show ?thesis
  proof (cases "R m")
    case None
    with table_ok_entry [OF assms(1,3)] have "length base \<le> re_rotation e'" "re_rotation e' - length base < k"
      by (auto simp: entry_rot_def rotation_of_def H)
    with None show ?thesis by (simp add: H nth_append)
  next
    case (Some e)
    then have "re_rotation e < length base" using assms(2) by (fastforce simp: prev_ok_def rotation_of_def)
    with Some table_ok_entry [OF assms(1,3)] show ?thesis
      by (simp add: entry_rot_def rotation_of_def H nth_append)
  qed
qed

lemma route_candidates_spec:
  assumes "reg_inv reg" "score_sort sort_scores"
  shows "\<exists>r reg'. route_candidates sort_scores score reg req = Inr (r, reg') \<and>
    (case rr_model req of
       None \<Rightarrow> r = Inl MissingModel
     | Some m \<Rightarrow>
         if serving (cat_entries (reg_catalog reg)) m = []
         then r = (if reg_mode reg = FlatPassthrough then Inr [0] else Inl (UnknownModel m))
         else (\<exists>cs. r = Inr cs \<and> mset cs = mset (serving (cat_entries (reg_catalog reg)) m) \<and>
                (\<forall>i \<in> set cs. i < length (reg_backends reg) \<and> model_allowed (b_model_filter (reg_backends reg ! i)) m)))"
proof (cases "rr_model req")
  case None
  then show ?thesis by (simp add: route_candidates_def)
next
  case (Some m)
  show ?thesis
  proof (cases "serving (cat_entries (reg_catalog reg)) m = []")
    case True
    with reg_no_entry [OF assms(1)] have "cat_routing (reg_catalog reg) m = None" by blast
    with Some True show ?thesis by (simp add: route_candidates_def)
  next
    case False
    from route_known [OF assms Some False] obtain cs counters where
      "route_candidates sort_scores score reg req = Inr (Inr cs, reg\<lparr>reg_rotations := counters\<rparr>)"
      and cs: "mset cs = mset (serving (cat_entries (reg_catalog reg)) m)" by blast
    moreover have "i < length (reg_backends reg) \<and> model_allowed (b_model_filter (reg_backends reg ! i)) m"
      if "i \<in> set cs" for i
      using that assms(1) mset_eq_setD [OF cs]
      by (auto simp: serving_def reg_inv_def catalog_allowed_def)
    ultimately show ?thesis using Some False by auto
  qed
qed

text \<open>What a caller relies on when it walks down the candidates.\<close>

lemma routed_candidates:
  assumes "reg_inv reg" "score_sort sort_scores" "route_candidates sort_scores score reg req = Inr (Inr cs, reg')"
  shows "cs \<noteq> [] \<and> distinct cs \<and> (\<forall>i \<in> set cs. i < length (reg_backends reg))"
proof -
  note spec = route_candidates_spec [OF assms(1,2), of score req]
  from spec assms(3) obtain m where m: "rr_model req = Some m"
    by (cases "rr_model req") auto
  show ?thesis
  proof (cases "serving (cat_entries (reg_catalog reg)) m = []")
    case True
    with spec assms(3) m have "cs = [0]" "reg_mode reg = FlatPassthrough" by (auto split: if_splits)
    with assms(1) show ?thesis by (simp add: reg_inv_def)
  next
    case False
    with spec assms(3) m have cs: "mset cs = mset (serving (cat_entries (reg_catalog reg)) m)"
      "\<forall>i \<in> set cs. i < length (reg_backends reg)" by auto
    from cs(1) have "distinct cs" by (metis mset_eq_imp_distinct_iff serving_distinct)
    with cs False show ?thesis by auto
  qed
qed

section \<open>Properties\<close>

definition demo_backend :: backend where
  "demo_backend = \<lparr>b_upstream = ''http://a'', b_provider = Vllm, b_auth_headers = [], b_gpu_watts = Fin 0,
     b_meter = meter_new (Fin 0), b_models_poll_secs = None, b_model_types = Map.empty, b_model_filter = None\<rparr>"

definition demo_entry :: catalog_entry where
  "demo_entry = static_entry demo_backend ''m''"

definition demo_reg :: registry where
  "demo_reg = \<lparr>reg_catalog = \<lparr>cat_entries = [[demo_entry], [demo_entry]],
       cat_routing = [''m'' \<mapsto> \<lparr>re_candidates = [0, 1], re_rotation = 0\<rparr>]\<rparr>,
     reg_backends = [demo_backend, demo_backend], reg_mode = CatalogMode, reg_inflight = [0, 0],
     reg_strategy = LeastLoaded, reg_overload_factor = OVERLOAD_FACTOR, reg_rotations = [0]\<rparr>"

definition demo_sort :: "(64 word \<times> nat) list \<Rightarrow> (64 word \<times> nat) list" where
  "demo_sort xs = rev (sort_key fst xs)"

lemma demo_new: "registry_new [demo_backend, demo_backend] [[''m''], [''m'']] CatalogMode = Inr demo_reg"
  by (simp add: registry_new_def static_entries_def deduplicate_backend_entries_def model_allowed_def
        demo_backend_def static_entry_def build_routing_def routing_add_def demo_reg_def demo_entry_def)

lemma demo_inv: "reg_inv demo_reg"
  by (rule registry_new_inv [OF demo_new]) simp

lemma demo_sort_ok: "score_sort demo_sort"
proof -
  have "sorted_wrt (\<lambda>a b. fst b \<le> fst a) (rev (sort_key fst xs))" for xs :: "(64 word \<times> nat) list"
    using sorted_sort_key [of fst xs] by (simp add: sorted_wrt_rev sorted_wrt_map)
  then show ?thesis by (simp add: score_sort_def demo_sort_def)
qed

lemma demo_serving: "serving (cat_entries (reg_catalog demo_reg)) ''m'' = [0, 1]"
  by (simp add: serving_def demo_reg_def demo_entry_def static_entry_def upt_rec)

text \<open>
  C12: A registry never panics in use. Whatever requests are routed, loads begun and ended and model
  lists polled, no index is out of bounds and no remainder is taken by zero; and at every moment the
  in-flight counter of a backend is the number of its live load guards, modulo 2 to the 32.
\<close>

theorem registry_never_panics:
  assumes "registry_new backends models mode = Inr reg" "length backends \<le> 2 ^ 32"
    and "score_sort sort_scores"
    and "run_events (reg_exec sort_scores score) es (with_load_balancing strategy factor reg, []) = Some r"
  shows "\<exists>reg' guards. r = Inr (reg', guards) \<and>
    (\<forall>i < length (reg_backends reg'). reg_inflight reg' ! i = of_nat (count_list guards i)) \<and>
    (\<forall>m. cands (cat_routing (reg_catalog reg')) m = map of_nat (serving (cat_entries (reg_catalog reg')) m))"
proof -
  note start = reg_world_start [OF assms(1-3), of strategy factor]
  from registry.run_safe [OF start] assms(4) obtain t where r: "r = Inr t" by (cases r) auto
  with registry.run_inv [OF start] assms(4) have "reg_world_inv sort_scores t" by blast
  then show ?thesis
    by (intro exI [of _ "fst t"] exI [of _ "snd t"])
       (simp add: r reg_world_inv_def loads_ok_def reg_inv_def)
qed

theorem registry_never_panics_witness:
  "\<exists>reg' guards. run_events (reg_exec demo_sort (\<lambda>_ _. 0))
       [Route \<lparr>rr_model = Some ''m'', rr_prefix_hash = None\<rparr>, BeginLoad 1]
       (with_load_balancing RoundRobin (Fin 2) demo_reg, []) = Some (Inr (reg', guards))"
proof -
  obtain r where r: "run_events (reg_exec demo_sort (\<lambda>_ _. 0))
       [Route \<lparr>rr_model = Some ''m'', rr_prefix_hash = None\<rparr>, BeginLoad 1]
       (with_load_balancing RoundRobin (Fin 2) demo_reg, []) = Some r"
    by (simp add: demo_reg_def with_load_balancing_def route_candidates_def ordered_candidates_def
          strategy_placement_def Let_def begin_load_def)
  from registry_never_panics [OF demo_new _ demo_sort_ok r] r show ?thesis by auto
qed

text \<open>
  C13: Routing is complete and exact. A request without a model is refused; a model some backend
  advertises gets an ordering of exactly the backends that advertise it, each once, none of them
  excluded by its model filter; any other model is refused, or goes to the sole backend in
  flat-passthrough mode. It holds for both strategies, with and without a prompt prefix.
\<close>

theorem route_candidates_exact:
  assumes "reg_inv reg" "score_sort sort_scores"
  shows "\<exists>r reg'. route_candidates sort_scores score reg req = Inr (r, reg') \<and>
    (case rr_model req of
       None \<Rightarrow> r = Inl MissingModel
     | Some m \<Rightarrow>
         if serving (cat_entries (reg_catalog reg)) m = []
         then r = (if reg_mode reg = FlatPassthrough then Inr [0] else Inl (UnknownModel m))
         else (\<exists>cs. r = Inr cs \<and> mset cs = mset (serving (cat_entries (reg_catalog reg)) m) \<and>
                (\<forall>i \<in> set cs. i < length (reg_backends reg) \<and> model_allowed (b_model_filter (reg_backends reg ! i)) m)))"
  by (rule route_candidates_spec [OF assms])

theorem route_candidates_exact_witness:
  "\<exists>cs reg'. route_candidates demo_sort (\<lambda>_ _. 0) demo_reg \<lparr>rr_model = Some ''m'', rr_prefix_hash = Some 7\<rparr> =
     Inr (Inr cs, reg') \<and> mset cs = {#0, 1#}"
  using route_candidates_exact [OF demo_inv demo_sort_ok, of "\<lambda>_ _. 0" "\<lparr>rr_model = Some ''m'', rr_prefix_hash = Some 7\<rparr>"]
  by (simp add: demo_serving) blast



text \<open>
  Round robin is even. Requests without a prefix for a model with \<open>n\<close> backends are given to them
  in turn, continuing where the model's counter stands, so that any \<open>n\<close> consecutive requests use each
  backend exactly once (short of the moment the 32-bit counter wraps).
\<close>

theorem round_robin_even:
  assumes "reg_inv reg" "reg_strategy reg = RoundRobin" "cat_routing (reg_catalog reg) m = Some e"
    and "s = serving (cat_entries (reg_catalog reg)) m" "2 \<le> length s"
    and "unat (reg_rotations reg ! re_rotation e) + k \<le> 2 ^ 32"
  shows "route_heads sort_scores score \<lparr>rr_model = Some m, rr_prefix_hash = None\<rparr> k reg =
      map (\<lambda>j. s ! ((unat (reg_rotations reg ! re_rotation e) + j) mod length s)) [0..<k] \<and>
    (k = length s \<longrightarrow>
       mset (route_heads sort_scores score \<lparr>rr_model = Some m, rr_prefix_hash = None\<rparr> k reg) = mset s)"
proof -
  let ?c = "unat (reg_rotations reg ! re_rotation e)"
  have heads: "route_heads sort_scores score \<lparr>rr_model = Some m, rr_prefix_hash = None\<rparr> k reg =
      map (\<lambda>j. s ! ((?c + j) mod length s)) [0..<k]"
    using route_heads_round_robin [OF assms(1,3,2) _ assms(6)] assms(4,5) by simp
  have "rotate ?c s = map (\<lambda>j. s ! ((?c + j) mod length s)) [0..<length s]"
    by (rule nth_equalityI) (simp_all add: nth_rotate)
  with heads have "k = length s \<longrightarrow> route_heads sort_scores score \<lparr>rr_model = Some m, rr_prefix_hash = None\<rparr> k reg = rotate ?c s"
    by auto
  with heads mset_rotate [of ?c s] show ?thesis by metis
qed

theorem round_robin_even_witness:
  "route_heads demo_sort (\<lambda>_ _. 0) \<lparr>rr_model = Some ''m'', rr_prefix_hash = None\<rparr> 2
     (with_load_balancing RoundRobin (Fin 2) demo_reg) = [0, 1]"
proof -
  let ?reg = "with_load_balancing RoundRobin (Fin 2) demo_reg"
  have "cat_routing (reg_catalog ?reg) ''m'' = Some \<lparr>re_candidates = [0, 1], re_rotation = 0\<rparr>"
    "[0, 1] = serving (cat_entries (reg_catalog ?reg)) ''m''" "reg_strategy ?reg = RoundRobin"
    "unat (reg_rotations ?reg ! 0) = 0"
    using demo_serving by (simp_all add: with_load_balancing_def demo_reg_def)
  with round_robin_even [OF with_load_balancing_inv [OF demo_inv] this(3,1,2), of 2 demo_sort "\<lambda>_ _. 0"]
  show ?thesis by (simp add: upt_rec)
qed

text \<open>
  A poll of one backend changes what that backend serves and nothing else. Afterwards the polled
  backend serves exactly the polled models its filter allows; the entries of every other backend and
  the in-flight counters are untouched; a model that stays keeps the position of its rotation and a
  new one starts at zero.
\<close>

theorem catalog_update_isolated:
  assumes "reg_inv reg" "set_backend_models idx es reg = Inr reg'"
  shows "reg_inv reg' \<and> reg_inflight reg' = reg_inflight reg \<and>
    (\<forall>j. j \<noteq> idx \<longrightarrow> cat_entries (reg_catalog reg') ! j = cat_entries (reg_catalog reg) ! j) \<and>
    (\<forall>m j. j \<in> set (serving (cat_entries (reg_catalog reg')) m) \<longleftrightarrow>
       (if j = idx then m \<in> me_id ` set es \<and> model_allowed (b_model_filter (reg_backends reg ! idx)) m
        else j \<in> set (serving (cat_entries (reg_catalog reg)) m))) \<and>
    (\<forall>m e'. cat_routing (reg_catalog reg') m = Some e' \<longrightarrow>
       reg_rotations reg' ! re_rotation e' =
         (case cat_routing (reg_catalog reg) m of Some e \<Rightarrow> reg_rotations reg ! re_rotation e | None \<Rightarrow> 0))"
proof -
  let ?b = "reg_backends reg ! idx"
  let ?entries = "(cat_entries (reg_catalog reg))[idx := polled_entries ?b es]"
  from assms(2) obtain R H where idx: "idx < length (cat_entries (reg_catalog reg))"
    and R: "build_routing ?entries (Some (cat_routing (reg_catalog reg))) (reg_rotations reg) = (R, H)"
    and reg': "reg' = reg\<lparr>reg_catalog := \<lparr>cat_entries = ?entries, cat_routing = R\<rparr>, reg_rotations := H\<rparr>"
    by (rule set_backend_models_Inr)
  have prev: "prev_ok (Some (cat_routing (reg_catalog reg))) (reg_rotations reg)" and len: "length ?entries \<le> 2 ^ 32"
    using assms(1) by (simp_all add: reg_inv_def)
  have tab: "table_ok (Some (cat_routing (reg_catalog reg))) (reg_rotations reg) (R, H)"
    using build_routing_spec [OF prev len] R by simp
  have "j \<in> set (serving ?entries m) \<longleftrightarrow>
      (if j = idx then m \<in> me_id ` set es \<and> model_allowed (b_model_filter ?b) m
       else j \<in> set (serving (cat_entries (reg_catalog reg)) m))" for m j
    using idx polled_ids [of ?b es] by (auto simp: serving_def nth_list_update)
  then show ?thesis
    using set_backend_models_inv [OF assms] rebuilt_rotation [OF tab prev] by (simp add: reg')
qed

theorem catalog_update_isolated_witness:
  "\<exists>reg'. set_backend_models 0 [] demo_reg = Inr reg' \<and>
     set (serving (cat_entries (reg_catalog reg')) ''m'') = {1}"
proof -
  obtain reg' where r: "set_backend_models 0 [] demo_reg = Inr reg'"
    using set_backend_models_total [OF demo_inv, of 0 "[]"] by (auto simp: demo_reg_def)
  from catalog_update_isolated [OF demo_inv r] demo_serving
  have "j \<in> set (serving (cat_entries (reg_catalog reg')) ''m'') \<longleftrightarrow> j = 1" for j by auto
  with r show ?thesis by auto
qed

end
