(* ===== verification/FairQueue.thy ===== *)
theory FairQueue
  imports Prelude "HOL-Library.Product_Lexorder"
begin

text \<open>
  The rolling-window admission queue (\<open>crates/twl-server/src/fair_queue.rs\<close>): its configuration and
  its locked state, \<open>prune\<close>, \<open>record_grant\<close>, both halves of \<open>acquire\<close>, \<open>release\<close>, the
  \<open>admit_waiters\<close> loop and the two \<open>Drop\<close> implementations. The mutex makes every critical section
  one atomic step; the oneshot channels, the guards held by callers and the cancelled acquire
  futures are the rest of a world whose steps the events of \<open>fq_exec\<close> enumerate.
\<close>

section \<open>State\<close>

text \<open>
  \<open>Instant\<close> is the time in nanoseconds of the monotonic clock. Its representation keeps the seconds
  in an \<open>i64\<close>, so \<open>Instant::checked_sub\<close> fails only below that range.
\<close>

type_synonym instant = int

type_synonym user_id = "int option"

definition instant_min :: instant where
  "instant_min = i64_min * 1000000000"

definition instant_checked_sub :: "instant \<Rightarrow> int \<Rightarrow> instant option" where
  "instant_checked_sub t d = (if t - d < instant_min then None else Some (t - d))"

text \<open>
  A waiter. The sending half of its oneshot channel is represented by whether the receiving half is
  still alive: \<open>send\<close> succeeds exactly then.
\<close>

record waiter =
  w_user :: user_id
  w_sequence :: "64 word"
  w_open :: bool

record fq_inner =
  in_flight :: nat
  next_sequence :: "64 word"
  grants :: "user_id \<rightharpoonup> instant list"
  waiters :: "waiter list"

record fair_queue =
  fq_capacity :: nat
  fq_window :: int
  fq_enabled :: bool

datatype fq_panic = CapacityZero | PermitUnderflow

definition fq_new :: "nat \<Rightarrow> bool \<Rightarrow> int \<Rightarrow> fq_panic + (fair_queue \<times> fq_inner)" where
  "fq_new capacity enabled window =
     (if \<not> capacity > 0 then Inl CapacityZero
      else Inr (\<lparr>fq_capacity = capacity, fq_window = window, fq_enabled = enabled\<rparr>,
                \<lparr>in_flight = 0, next_sequence = 0, grants = Map.empty, waiters = []\<rparr>))"

section \<open>Grant history\<close>

definition prune :: "fq_inner \<Rightarrow> instant \<Rightarrow> int \<Rightarrow> fq_inner" where
  "prune inner now window =
     (case instant_checked_sub now window of
        None \<Rightarrow> inner
      | Some cutoff \<Rightarrow> inner\<lparr>grants := (\<lambda>u.
          case grants inner u of
            None \<Rightarrow> None
          | Some ats \<Rightarrow> (let ats' = dropWhile (\<lambda>at. at \<le> cutoff) ats
                         in if ats' = [] then None else Some ats'))\<rparr>)"

definition push_grant :: "fq_inner \<Rightarrow> user_id \<Rightarrow> instant \<Rightarrow> fq_inner" where
  "push_grant inner user now =
     inner\<lparr>grants := (grants inner)(user \<mapsto>
       (case grants inner user of None \<Rightarrow> [] | Some ats \<Rightarrow> ats) @ [now])\<rparr>"

definition record_grant :: "fq_inner \<Rightarrow> user_id \<Rightarrow> instant \<Rightarrow> int \<Rightarrow> fq_inner" where
  "record_grant inner user now window = push_grant (prune inner now window) user now"

definition usage_of :: "fq_inner \<Rightarrow> user_id \<Rightarrow> nat" where
  "usage_of inner user = (case grants inner user of None \<Rightarrow> 0 | Some ats \<Rightarrow> length ats)"

section \<open>Admission\<close>

text \<open>
  The first critical section of \<open>acquire\<close>: either a slot is taken at once (\<open>None\<close>) or a waiter is
  queued and its sequence number returned.
\<close>

definition acquire_enter :: "fair_queue \<Rightarrow> user_id \<Rightarrow> instant \<Rightarrow> fq_inner \<Rightarrow> fq_inner \<times> 64 word option" where
  "acquire_enter q user now inner =
     (if in_flight inner < fq_capacity q \<and> waiters inner = []
      then (let inner' = inner\<lparr>in_flight := in_flight inner + 1\<rparr>
            in (if fq_enabled q then record_grant inner' user now (fq_window q) else inner', None))
      else (let seq = next_sequence inner
            in (inner\<lparr>next_sequence := seq + 1,
                      waiters := waiters inner @ [\<lparr>w_user = user, w_sequence = seq, w_open = True\<rparr>]\<rparr>,
                Some seq)))"

text \<open>
  The choice of the next waiter: the first one with the least \<open>(usage, sequence)\<close> after pruning when
  fairness is enabled, the front of the queue otherwise.
\<close>

definition select_waiter :: "fair_queue \<Rightarrow> instant \<Rightarrow> fq_inner \<Rightarrow> (waiter \<times> fq_inner) option" where
  "select_waiter q now inner =
     (if fq_enabled q
      then (let inner' = prune inner now (fq_window q)
            in case min_index_by (\<lambda>w. (usage_of inner' (w_user w), w_sequence w)) (waiters inner') of
                 None \<Rightarrow> None
               | Some i \<Rightarrow> (case remove_at i (waiters inner') of
                   None \<Rightarrow> None
                 | Some (w, ws) \<Rightarrow> Some (w, inner'\<lparr>waiters := ws\<rparr>)))
      else (case waiters inner of
              [] \<Rightarrow> None
            | w # ws \<Rightarrow> Some (w, inner\<lparr>waiters := ws\<rparr>)))"

text \<open>
  One turn of the loop after the choice: the slot is taken, the guard is sent, and a failed send
  gives the slot back. The result says whether a guard now sits in the waiter's channel.
\<close>

definition deliver :: "fair_queue \<Rightarrow> instant \<Rightarrow> waiter \<Rightarrow> fq_inner \<Rightarrow> fq_inner \<times> bool" where
  "deliver q now w inner =
     (let inner' = inner\<lparr>in_flight := in_flight inner + 1\<rparr>
      in if w_open w
         then (if fq_enabled q then push_grant inner' (w_user w) now else inner', True)
         else (inner'\<lparr>in_flight := in_flight inner' - 1\<rparr>, False))"

lemma prune_fields [simp]:
  "in_flight (prune inner now w) = in_flight inner"
  "next_sequence (prune inner now w) = next_sequence inner"
  "waiters (prune inner now w) = waiters inner"
  by (simp_all add: prune_def split: option.splits)

lemma push_grant_fields [simp]:
  "in_flight (push_grant inner u now) = in_flight inner"
  "next_sequence (push_grant inner u now) = next_sequence inner"
  "waiters (push_grant inner u now) = waiters inner"
  by (simp_all add: push_grant_def)

lemma record_grant_fields [simp]:
  "in_flight (record_grant inner u now w) = in_flight inner"
  "next_sequence (record_grant inner u now w) = next_sequence inner"
  "waiters (record_grant inner u now w) = waiters inner"
  by (simp_all add: record_grant_def)

lemma deliver_fields:
  "waiters (fst (deliver q now w inner)) = waiters inner"
  "next_sequence (fst (deliver q now w inner)) = next_sequence inner"
  "in_flight (fst (deliver q now w inner)) = in_flight inner + (if snd (deliver q now w inner) then 1 else 0)"
  "snd (deliver q now w inner) = w_open w"
  by (auto simp: deliver_def Let_def)

lemma select_waiter_SomeD:
  assumes "select_waiter q now inner = Some (w, inner')"
  obtains i where "i < length (waiters inner)" "w = waiters inner ! i"
    "waiters inner' = take i (waiters inner) @ drop (Suc i) (waiters inner)"
    "in_flight inner' = in_flight inner" "next_sequence inner' = next_sequence inner"
proof (cases "fq_enabled q")
  case True
  with assms obtain i ws where ws: "remove_at i (waiters inner) = Some (w, ws)"
    and i': "inner' = (prune inner now (fq_window q))\<lparr>waiters := ws\<rparr>"
    by (auto simp: select_waiter_def Let_def split: option.splits)
  from remove_at_Some(1-3) [OF ws] show ?thesis
    by (intro that [of i]) (simp_all add: i')
next
  case False
  with assms obtain ws where ws: "waiters inner = w # ws" and i': "inner' = inner\<lparr>waiters := ws\<rparr>"
    by (auto simp: select_waiter_def split: list.splits)
  show ?thesis
    by (rule that [of 0]) (simp_all add: ws i')
qed

lemma select_waiter_length:
  "select_waiter q now inner = Some (w, inner') \<Longrightarrow> length (waiters inner) = Suc (length (waiters inner'))"
  by (erule select_waiter_SomeD) simp

lemma select_waiter_Some:
  assumes ne: "waiters inner \<noteq> []"
  shows "\<exists>w inner'. select_waiter q now inner = Some (w, inner')"
proof (cases "fq_enabled q")
  case True
  let ?inner = "prune inner now (fq_window q)"
  let ?key = "\<lambda>w. (usage_of ?inner (w_user w), w_sequence w)"
  obtain i where i: "min_index_by ?key (waiters ?inner) = Some i"
    using ne by (cases "min_index_by ?key (waiters ?inner)") simp_all
  then have "i < length (waiters ?inner)" using min_index_by_Some by blast
  then have "remove_at i (waiters ?inner) =
      Some (waiters ?inner ! i, take i (waiters ?inner) @ drop (Suc i) (waiters ?inner))"
    by (rule remove_at_nth)
  with True i show ?thesis unfolding select_waiter_def Let_def by simp
next
  case False
  with ne show ?thesis by (cases "waiters inner") (simp_all add: select_waiter_def)
qed

lemma deliver_waiters: "deliver q now w inner = (inner', sent) \<Longrightarrow> waiters inner' = waiters inner"
  using deliver_fields(1) [of q now w inner] by simp

text \<open>
  The \<open>admit_waiters\<close> loop. \<open>clk k\<close> is the clock reading of turn \<open>k\<close>; the second component of the
  result lists, in order, the sequence numbers whose channels received a guard.
\<close>

function admit_waiters :: "fair_queue \<Rightarrow> (nat \<Rightarrow> instant) \<Rightarrow> nat \<Rightarrow> fq_inner \<Rightarrow> fq_inner \<times> 64 word list" where
  "admit_waiters q clk k inner =
     (if in_flight inner < fq_capacity q \<and> waiters inner \<noteq> []
      then (case select_waiter q (clk k) inner of
              None \<Rightarrow> (inner, [])
            | Some (w, inner1) \<Rightarrow>
                (case deliver q (clk k) w inner1 of (inner2, sent) \<Rightarrow>
                   (case admit_waiters q clk (Suc k) inner2 of (inner3, seqs) \<Rightarrow>
                      (inner3, if sent then w_sequence w # seqs else seqs))))
      else (inner, []))"
  by pat_completeness auto
termination
  by (relation "measure (\<lambda>(q, clk, k, inner). length (waiters inner))")
     (auto dest!: select_waiter_length deliver_waiters [OF sym])

declare admit_waiters.simps [simp del]

definition release :: "fair_queue \<Rightarrow> (nat \<Rightarrow> instant) \<Rightarrow> fq_inner \<Rightarrow> fq_panic + (fq_inner \<times> 64 word list)" where
  "release q clk inner =
     (if \<not> in_flight inner > 0 then Inl PermitUnderflow
      else Inr (admit_waiters q clk 0 (inner\<lparr>in_flight := in_flight inner - 1\<rparr>)))"

text \<open>\<open>WaiterRegistration::drop\<close>: an armed registration removes its waiter if it is still queued.\<close>

definition registration_drop :: "64 word option \<Rightarrow> fq_inner \<Rightarrow> fq_inner" where
  "registration_drop armed inner =
     (case armed of
        None \<Rightarrow> inner
      | Some seq \<Rightarrow>
          (case position (\<lambda>w. w_sequence w = seq) (waiters inner) of
             None \<Rightarrow> inner
           | Some i \<Rightarrow>
               (case remove_at i (waiters inner) of
                  None \<Rightarrow> inner
                | Some (w, ws) \<Rightarrow> inner\<lparr>waiters := ws\<rparr>)))"

section \<open>The world around the queue\<close>

text \<open>
  Guards owned by callers are counted, guards sent and not yet received are listed by sequence
  number, and so are the registrations of dropped acquire futures that have not been dropped yet:
  dropping a pending future first drops the receiver and then the registration, and other threads
  may run in between.
\<close>

record fq_world =
  fqw_inner :: fq_inner
  fqw_held :: nat
  fqw_channel :: "64 word list"
  fqw_cancelled :: "64 word list"

datatype fq_event =
    Acquire user_id instant
  | Receive "64 word"
  | DropGuard "nat \<Rightarrow> instant"
  | DropReceiver "64 word" "nat \<Rightarrow> instant"
  | DropRegistration "64 word"

fun close_waiter :: "64 word \<Rightarrow> waiter list \<Rightarrow> waiter list" where
  "close_waiter seq [] = []"
| "close_waiter seq (w # ws) =
     (if w_sequence w = seq \<and> w_open w then w\<lparr>w_open := False\<rparr> # ws else w # close_waiter seq ws)"

definition put_released :: "fq_world \<Rightarrow> fq_inner \<times> 64 word list \<Rightarrow> fq_world" where
  "put_released s r = s\<lparr>fqw_inner := fst r, fqw_channel := fqw_channel s @ snd r\<rparr>"

text \<open>
  One event. \<open>None\<close> is an event that cannot happen in the state (receiving a guard that was not sent,
  dropping a guard nobody holds); a panic of the code is \<open>Some (Inl _)\<close>.
\<close>

fun fq_exec :: "fair_queue \<Rightarrow> fq_event \<Rightarrow> fq_world \<Rightarrow> (fq_panic + fq_world) option" where
  "fq_exec q (Acquire user now) s =
     (case acquire_enter q user now (fqw_inner s) of
        (inner, None) \<Rightarrow> Some (Inr (s\<lparr>fqw_inner := inner, fqw_held := fqw_held s + 1\<rparr>))
      | (inner, Some _) \<Rightarrow> Some (Inr (s\<lparr>fqw_inner := inner\<rparr>)))"
| "fq_exec q (Receive seq) s =
     (if seq \<in> set (fqw_channel s)
      then Some (Inr (s\<lparr>fqw_channel := remove1 seq (fqw_channel s), fqw_held := fqw_held s + 1\<rparr>))
      else None)"
| "fq_exec q (DropGuard clk) s =
     (if fqw_held s = 0 then None
      else (let s' = s\<lparr>fqw_held := fqw_held s - 1\<rparr>
            in case release q clk (fqw_inner s') of
                 Inl p \<Rightarrow> Some (Inl p)
               | Inr r \<Rightarrow> Some (Inr (put_released s' r))))"
| "fq_exec q (DropReceiver seq clk) s =
     (if seq \<in> set (fqw_channel s)
      then (let s' = s\<lparr>fqw_channel := remove1 seq (fqw_channel s), fqw_cancelled := seq # fqw_cancelled s\<rparr>
            in case release q clk (fqw_inner s') of
                 Inl p \<Rightarrow> Some (Inl p)
               | Inr r \<Rightarrow> Some (Inr (put_released s' r)))
      else if (\<exists>w \<in> set (waiters (fqw_inner s)). w_sequence w = seq \<and> w_open w)
      then Some (Inr (s\<lparr>fqw_inner := (fqw_inner s)\<lparr>waiters := close_waiter seq (waiters (fqw_inner s))\<rparr>,
                        fqw_cancelled := seq # fqw_cancelled s\<rparr>))
      else None)"
| "fq_exec q (DropRegistration seq) s =
     (if seq \<in> set (fqw_cancelled s)
      then Some (Inr (s\<lparr>fqw_inner := registration_drop (Some seq) (fqw_inner s),
                        fqw_cancelled := remove1 seq (fqw_cancelled s)\<rparr>))
      else None)"

inductive fq_reach :: "fair_queue \<Rightarrow> fq_world \<Rightarrow> bool" for q :: fair_queue where
  fq_start: "fq_new (fq_capacity q) (fq_enabled q) (fq_window q) = Inr (q, inner) \<Longrightarrow>
     fq_reach q \<lparr>fqw_inner = inner, fqw_held = 0, fqw_channel = [], fqw_cancelled = []\<rparr>"
| fq_next: "fq_reach q s \<Longrightarrow> fq_exec q e s = Some (Inr t) \<Longrightarrow> fq_reach q t"

inductive_cases fq_reachE: "fq_reach q s"


section \<open>The loop\<close>

lemma admit_waiters_stop:
  "\<not> (in_flight inner < fq_capacity q \<and> waiters inner \<noteq> []) \<Longrightarrow> admit_waiters q clk k inner = (inner, [])"
  by (subst admit_waiters.simps) (rule if_not_P)

lemma admit_waiters_turn:
  assumes "in_flight inner < fq_capacity q" "select_waiter q (clk k) inner = Some (w, inner1)"
  shows "admit_waiters q clk k inner =
    (fst (admit_waiters q clk (Suc k) (fst (deliver q (clk k) w inner1))),
     (if w_open w then [w_sequence w] else []) @
       snd (admit_waiters q clk (Suc k) (fst (deliver q (clk k) w inner1))))"
proof -
  from assms(2) have ne: "waiters inner \<noteq> []" by (auto dest: select_waiter_length)
  show ?thesis
    by (subst admit_waiters.simps)
       (use assms ne deliver_fields(4) [of q "clk k" w inner1] in \<open>auto split: prod.splits\<close>)
qed

text \<open>
  The induction principle of the loop: a relation between the state, the final state and the
  delivered sequence numbers that holds when the loop stops and is kept by one more turn.
\<close>

lemma admit_waiters_rule [consumes 0, case_names stop turn]:
  assumes stop: "\<And>inner. in_flight inner \<ge> fq_capacity q \<or> waiters inner = [] \<Longrightarrow> P inner (inner, [])"
    and turn: "\<And>k inner w inner1 r.
      in_flight inner < fq_capacity q \<Longrightarrow> select_waiter q (clk k) inner = Some (w, inner1) \<Longrightarrow>
      P (fst (deliver q (clk k) w inner1)) r \<Longrightarrow>
      P inner (fst r, (if w_open w then [w_sequence w] else []) @ snd r)"
  shows "P inner (admit_waiters q clk k inner)"
proof (induction "length (waiters inner)" arbitrary: k inner rule: less_induct)
  case less
  show ?case
  proof (cases "in_flight inner < fq_capacity q \<and> waiters inner \<noteq> []")
    case True
    then obtain w inner1 where sel: "select_waiter q (clk k) inner = Some (w, inner1)"
      using select_waiter_Some by blast
    let ?next = "fst (deliver q (clk k) w inner1)"
    have "length (waiters ?next) < length (waiters inner)"
      using select_waiter_length [OF sel] by (simp add: deliver_fields)
    from turn [where inner = inner, OF _ sel less [OF this]] True show ?thesis
      by (simp add: admit_waiters_turn [where q = q and clk = clk and k = k and inner = inner, OF _ sel])
  next
    case False
    then show ?thesis by (auto simp: admit_waiters_stop intro!: stop)
  qed
qed

lemma admit_in_flight:
  "in_flight (fst (admit_waiters q clk k inner)) =
     in_flight inner + length (snd (admit_waiters q clk k inner))"
  by (rule admit_waiters_rule [where clk = clk and
        P = "\<lambda>inner r. in_flight (fst r) = in_flight inner + length (snd r)"])
     (auto simp: deliver_fields elim!: select_waiter_SomeD)

lemma admit_capacity:
  assumes "in_flight inner \<le> fq_capacity q"
  shows "in_flight (fst (admit_waiters q clk k inner)) \<le> fq_capacity q"
proof -
  have "in_flight inner \<le> fq_capacity q \<longrightarrow> in_flight (fst (admit_waiters q clk k inner)) \<le> fq_capacity q"
    by (rule admit_waiters_rule [where clk = clk and
          P = "\<lambda>inner r. in_flight inner \<le> fq_capacity q \<longrightarrow> in_flight (fst r) \<le> fq_capacity q"])
       (auto simp: deliver_fields elim!: select_waiter_SomeD split: if_splits)
  with assms show ?thesis by simp
qed

lemma admit_work_conserving:
  "waiters (fst (admit_waiters q clk k inner)) \<noteq> [] \<longrightarrow>
     fq_capacity q \<le> in_flight (fst (admit_waiters q clk k inner))"
  by (rule admit_waiters_rule [where clk = clk and
        P = "\<lambda>inner r. waiters (fst r) \<noteq> [] \<longrightarrow> fq_capacity q \<le> in_flight (fst r)"]) auto

lemma admit_disabled_grants:
  assumes "\<not> fq_enabled q"
  shows "grants (fst (admit_waiters q clk k inner)) = grants inner"
  by (rule admit_waiters_rule [where clk = clk and P = "\<lambda>inner r. grants (fst r) = grants inner"])
     (use assms in \<open>auto simp: deliver_def Let_def select_waiter_def split: if_splits list.splits\<close>)

lemma select_waiter_set:
  assumes "select_waiter q now inner = Some (w, inner1)"
  shows "set (waiters inner) = insert w (set (waiters inner1))" "in_flight inner1 = in_flight inner"
proof -
  from assms obtain i where i: "i < length (waiters inner)" "w = waiters inner ! i"
      "waiters inner1 = take i (waiters inner) @ drop (Suc i) (waiters inner)"
      "in_flight inner1 = in_flight inner" by (rule select_waiter_SomeD)
  have "waiters inner = take i (waiters inner) @ w # drop (Suc i) (waiters inner)"
    using i(1,2) id_take_nth_drop by blast
  then show "set (waiters inner) = insert w (set (waiters inner1))"
    unfolding i(3) by (metis Un_insert_right list.simps(15) set_append)
  show "in_flight inner1 = in_flight inner" by (fact i(4))
qed

lemma admit_delivers_open:
  assumes "in_flight inner < fq_capacity q" "\<exists>w \<in> set (waiters inner). w_open w"
  shows "snd (admit_waiters q clk k inner) \<noteq> []"
proof -
  let ?P = "\<lambda>inner r. in_flight inner < fq_capacity q \<and> (\<exists>w \<in> set (waiters inner). w_open w) \<longrightarrow> snd r \<noteq> []"
  have "?P inner (admit_waiters q clk k inner)"
  proof (rule admit_waiters_rule [where clk = clk and P = ?P], goal_cases stop turn)
    case (turn k inner w inner1 r)
    with select_waiter_set [OF turn(2)] show ?case by (auto simp: deliver_fields)
  qed auto
  with assms show ?thesis by blast
qed

lemma admit_fifo:
  assumes "\<not> fq_enabled q"
  shows "\<exists>m. waiters (fst (admit_waiters q clk k inner)) = drop m (waiters inner) \<and>
     snd (admit_waiters q clk k inner) = map w_sequence (filter w_open (take m (waiters inner)))"
proof (rule admit_waiters_rule [where clk = clk and P = "\<lambda>inner r. \<exists>m. waiters (fst r) =
      drop m (waiters inner) \<and> snd r = map w_sequence (filter w_open (take m (waiters inner)))"],
      goal_cases stop turn)
  case (stop inner)
  show ?case by (rule exI [of _ 0]) simp
next
  case (turn k inner w inner1 r)
  with assms obtain ws where ws: "waiters inner = w # ws" "waiters inner1 = ws"
    by (auto simp: select_waiter_def split: list.splits)
  from turn(3) ws obtain m where "waiters (fst r) = drop m ws"
    "snd r = map w_sequence (filter w_open (take m ws))" by (auto simp: deliver_fields)
  then show ?case using ws by (intro exI [of _ "Suc m"]) simp
qed

section \<open>The invariant\<close>

text \<open>
  Every slot in use is owned by a caller or sits in a channel; the capacity is respected; nobody
  waits while a slot is free; and without fairness no history is kept.
\<close>

definition fq_inv :: "fair_queue \<Rightarrow> fq_world \<Rightarrow> bool" where
  "fq_inv q s \<longleftrightarrow>
     in_flight (fqw_inner s) = fqw_held s + length (fqw_channel s) \<and>
     in_flight (fqw_inner s) \<le> fq_capacity q \<and>
     (waiters (fqw_inner s) \<noteq> [] \<longrightarrow> in_flight (fqw_inner s) = fq_capacity q) \<and>
     (fq_enabled q \<or> grants (fqw_inner s) = Map.empty)"

lemma close_waiter_Nil [simp]: "close_waiter seq ws = [] \<longleftrightarrow> ws = []"
  by (induction ws) auto

lemma registration_drop_fields:
  "in_flight (registration_drop a inner) = in_flight inner"
  "grants (registration_drop a inner) = grants inner"
  "waiters inner = [] \<Longrightarrow> waiters (registration_drop a inner) = []"
  by (auto simp: registration_drop_def split: option.splits)

lemma release_put_inv:
  assumes "in_flight inner = Suc (fqw_held s + length (fqw_channel s))" "in_flight inner \<le> fq_capacity q"
    and "fq_enabled q \<or> grants inner = Map.empty"
    and "release q clk inner = Inr r"
  shows "fq_inv q (put_released s r)"
proof -
  let ?start = "inner\<lparr>in_flight := in_flight inner - 1\<rparr>"
  from assms(4) have r: "r = admit_waiters q clk 0 ?start"
    by (simp add: release_def split: if_splits)
  have "in_flight (fst r) = fqw_held s + length (fqw_channel s) + length (snd r)"
    unfolding r using assms(1) by (simp add: admit_in_flight)
  moreover have "in_flight (fst r) \<le> fq_capacity q"
    unfolding r using assms(2) by (intro admit_capacity) simp
  moreover have "waiters (fst r) \<noteq> [] \<longrightarrow> fq_capacity q \<le> in_flight (fst r)"
    unfolding r by (rule admit_work_conserving)
  moreover have "fq_enabled q \<or> grants (fst r) = Map.empty"
    unfolding r using assms(3) admit_disabled_grants [of q clk 0 ?start] by auto
  ultimately show ?thesis by (auto simp: fq_inv_def put_released_def)
qed

lemma release_safe: "0 < in_flight inner \<Longrightarrow> release q clk inner \<noteq> Inl p"
  by (simp add: release_def)

lemma fq_exec_inv: "fq_inv q s \<Longrightarrow> fq_exec q e s = Some (Inr t) \<Longrightarrow> fq_inv q t"
proof (cases e)
  case (Acquire user now)
  assume "fq_inv q s" "fq_exec q e s = Some (Inr t)"
  with Acquire show ?thesis
    by (auto simp: fq_inv_def acquire_enter_def Let_def split: if_splits)
next
  case (DropGuard clk)
  assume inv: "fq_inv q s" and ex: "fq_exec q e s = Some (Inr t)"
  from ex DropGuard obtain r where "fqw_held s \<noteq> 0" "release q clk (fqw_inner s) = Inr r"
    "t = put_released (s\<lparr>fqw_held := fqw_held s - 1\<rparr>) r"
    by (auto simp: Let_def split: if_splits sum.splits)
  with inv show ?thesis
    by (simp only:) (rule release_put_inv [where inner = "fqw_inner s"], auto simp: fq_inv_def)
next
  case (DropReceiver seq clk)
  assume inv: "fq_inv q s" and ex: "fq_exec q e s = Some (Inr t)"
  show ?thesis
  proof (cases "seq \<in> set (fqw_channel s)")
    case True
    let ?s = "s\<lparr>fqw_channel := remove1 seq (fqw_channel s), fqw_cancelled := seq # fqw_cancelled s\<rparr>"
    from ex DropReceiver True obtain r where r: "release q clk (fqw_inner s) = Inr r"
      and t: "t = put_released ?s r"
      by (auto simp: Let_def split: sum.splits)
    from inv length_remove1_Suc [OF True] show ?thesis
      unfolding t by (intro release_put_inv [OF _ _ _ r]) (auto simp: fq_inv_def)
  next
    case False
    with inv ex DropReceiver show ?thesis by (auto simp: fq_inv_def split: if_splits)
  qed
next
  case (Receive seq)
  assume inv: "fq_inv q s" and ex: "fq_exec q e s = Some (Inr t)"
  from ex Receive have "seq \<in> set (fqw_channel s)" by (auto split: if_splits)
  from inv ex Receive length_remove1_Suc [OF this] show ?thesis
    by (auto simp: fq_inv_def split: if_splits)
next
  case (DropRegistration seq)
  assume "fq_inv q s" "fq_exec q e s = Some (Inr t)"
  with DropRegistration registration_drop_fields show ?thesis
    by (fastforce simp: fq_inv_def split: if_splits)
qed

lemma fq_exec_safe: "fq_inv q s \<Longrightarrow> fq_exec q e s \<noteq> Some (Inl p)"
proof (cases e)
  case (DropReceiver seq clk)
  assume "fq_inv q s"
  then have "seq \<in> set (fqw_channel s) \<Longrightarrow> 0 < in_flight (fqw_inner s)"
    by (auto simp: fq_inv_def)
  with DropReceiver show ?thesis by (auto simp: Let_def release_safe split: sum.splits)
qed (auto simp: Let_def fq_inv_def release_safe split: sum.splits option.splits prod.splits)

interpretation fq: guarded_system "fq_exec q" "fq_inv q" for q
  by unfold_locales (auto intro: fq_exec_inv simp: fq_exec_safe)

lemma fq_reach_inv: "fq_reach q s \<Longrightarrow> fq_inv q s"
proof (induction rule: fq_reach.induct)
  case (fq_start inner)
  then show ?case by (auto simp: fq_inv_def fq_new_def split: if_splits)
next
  case (fq_next s e t)
  then show ?case by (blast intro: fq_exec_inv)
qed

section \<open>Properties\<close>

lemma select_waiter_enabled:
  assumes "fq_enabled q" "select_waiter q now inner = Some (w, inner')" "v \<in> set (waiters inner)"
  shows "(usage_of (prune inner now (fq_window q)) (w_user w), w_sequence w)
       \<le> (usage_of (prune inner now (fq_window q)) (w_user v), w_sequence v)"
proof -
  let ?key = "\<lambda>w. (usage_of (prune inner now (fq_window q)) (w_user w), w_sequence w)"
  from assms(1,2) obtain i ws where i: "min_index_by ?key (waiters inner) = Some i"
    and ws: "remove_at i (waiters inner) = Some (w, ws)"
    by (auto simp: select_waiter_def Let_def split: option.splits)
  from assms(3) obtain j where "j < length (waiters inner)" "v = waiters inner ! j"
    by (auto simp: in_set_conv_nth)
  with min_index_by_Some [OF i] remove_at_Some(2) [OF ws] show ?thesis by blast
qed

text \<open>
  A concrete run used by the witnesses: capacity one, fairness on, a caller holds the slot and a
  second user waits.
\<close>

definition fq_demo :: fair_queue where
  "fq_demo = \<lparr>fq_capacity = 1, fq_window = 1800000000000, fq_enabled = True\<rparr>"

definition fq_demo_start :: fq_world where
  "fq_demo_start = \<lparr>fqw_inner = \<lparr>in_flight = 0, next_sequence = 0, grants = Map.empty, waiters = []\<rparr>,
     fqw_held = 0, fqw_channel = [], fqw_cancelled = []\<rparr>"

definition fq_demo_busy :: fq_world where
  "fq_demo_busy = \<lparr>fqw_inner = \<lparr>in_flight = 1, next_sequence = 1, grants = [Some 1 \<mapsto> [5]],
       waiters = [\<lparr>w_user = Some 2, w_sequence = 0, w_open = True\<rparr>]\<rparr>,
     fqw_held = 1, fqw_channel = [], fqw_cancelled = []\<rparr>"

lemma fq_demo_reach: "fq_reach fq_demo fq_demo_busy"
proof -
  have "fq_reach fq_demo fq_demo_start"
    unfolding fq_demo_start_def by (rule fq_start) (simp add: fq_new_def fq_demo_def)
  then have "fq_reach fq_demo (fq_demo_start\<lparr>fqw_inner := (fqw_inner fq_demo_start)
      \<lparr>in_flight := 1, grants := [Some 1 \<mapsto> [5]]\<rparr>, fqw_held := 1\<rparr>)"
    by (rule fq_next [where e = "Acquire (Some 1) 5"])
       (simp add: acquire_enter_def fq_demo_start_def fq_demo_def record_grant_def push_grant_def
          prune_def instant_checked_sub_def instant_min_def i64_min_def)
  then show ?thesis
    by (rule fq_next [where e = "Acquire (Some 2) 6"])
       (simp add: acquire_enter_def fq_demo_start_def fq_demo_def fq_demo_busy_def)
qed



text \<open>
  With fairness enabled the waiter admitted next has, after expired grants are pruned, the least
  number of admissions in the window of all waiting users, and among the waiters of equally served
  users the least sequence number.
\<close>

theorem fq_fair_choice:
  assumes "fq_enabled q" and "select_waiter q now inner = Some (w, inner')" and "v \<in> set (waiters inner)"
  shows "usage_of (prune inner now (fq_window q)) (w_user w) \<le> usage_of (prune inner now (fq_window q)) (w_user v) \<and>
    (usage_of (prune inner now (fq_window q)) (w_user w) = usage_of (prune inner now (fq_window q)) (w_user v)
         \<longrightarrow> w_sequence w \<le> w_sequence v)"
  using select_waiter_enabled [OF assms] by auto

definition fq_demo_two :: fq_inner where
  "fq_demo_two = \<lparr>in_flight = 0, next_sequence = 2, grants = [Some 1 \<mapsto> [5, 6]],
     waiters = [\<lparr>w_user = Some 1, w_sequence = 0, w_open = True\<rparr>,
                \<lparr>w_user = Some 2, w_sequence = 1, w_open = True\<rparr>]\<rparr>"

lemma fq_demo_two_choice:
  "select_waiter fq_demo 7 fq_demo_two =
     Some (\<lparr>w_user = Some 2, w_sequence = 1, w_open = True\<rparr>,
           fq_demo_two\<lparr>waiters := [\<lparr>w_user = Some 1, w_sequence = 0, w_open = True\<rparr>]\<rparr>)"
  by (simp add: select_waiter_def fq_demo_def fq_demo_two_def prune_def usage_of_def
      instant_checked_sub_def instant_min_def i64_min_def fun_eq_iff Let_def)

theorem fq_fair_choice_witness:
  "usage_of (prune fq_demo_two 7 (fq_window fq_demo)) (Some 2)
     \<le> usage_of (prune fq_demo_two 7 (fq_window fq_demo)) (Some 1)"
  using fq_fair_choice [OF _ fq_demo_two_choice, of "\<lparr>w_user = Some 1, w_sequence = 0, w_open = True\<rparr>"]
  by (simp add: fq_demo_def fq_demo_two_def)

text \<open>
  C33: No wakeup is lost: whenever a caller drops its guard while some live request waits, the drop
  succeeds and hands at least one guard to a waiter's channel.
\<close>

theorem fq_release_hands_over:
  assumes "fq_reach q s" and "0 < fqw_held s" and "\<exists>w \<in> set (waiters (fqw_inner s)). w_open w"
  shows "\<exists>t. fq_exec q (DropGuard clk) s = Some (Inr t) \<and>
             length (fqw_channel s) < length (fqw_channel t)"
proof -
  from fq_reach_inv [OF assms(1)] assms(2) have pos: "0 < in_flight (fqw_inner s)"
    and le: "in_flight (fqw_inner s) \<le> fq_capacity q" by (auto simp: fq_inv_def)
  let ?start = "(fqw_inner s)\<lparr>in_flight := in_flight (fqw_inner s) - 1\<rparr>"
  have "snd (admit_waiters q clk 0 ?start) \<noteq> []"
    using pos le assms(3) by (intro admit_delivers_open) auto
  with pos assms(2) show ?thesis
    by (simp add: release_def put_released_def Let_def)
qed

theorem fq_release_hands_over_witness:
  "\<exists>t. fq_exec fq_demo (DropGuard (\<lambda>_. 7)) fq_demo_busy = Some (Inr t) \<and>
       length (fqw_channel fq_demo_busy) < length (fqw_channel t)"
  by (rule fq_release_hands_over [OF fq_demo_reach]) (simp_all add: fq_demo_busy_def)

text \<open>
  With fairness disabled a release serves the queue strictly in arrival order: it removes a
  prefix of the waiters and hands guards to exactly the live ones among them, in that order.
\<close>

theorem fq_disabled_fifo:
  assumes "\<not> fq_enabled q" and "release q clk inner = Inr (inner', seqs)"
  shows "\<exists>m. waiters inner' = drop m (waiters inner) \<and>
             seqs = map w_sequence (filter w_open (take m (waiters inner)))"
proof -
  let ?start = "inner\<lparr>in_flight := in_flight inner - 1\<rparr>"
  from assms(2) have "admit_waiters q clk 0 ?start = (inner', seqs)"
    by (simp add: release_def split: if_splits)
  with admit_fifo [OF assms(1), of clk 0 ?start] show ?thesis by simp
qed

definition fq_fifo_demo :: fq_inner where
  "fq_fifo_demo = \<lparr>in_flight = 1, next_sequence = 2, grants = Map.empty,
     waiters = [\<lparr>w_user = Some 1, w_sequence = 0, w_open = False\<rparr>,
                \<lparr>w_user = Some 2, w_sequence = 1, w_open = True\<rparr>]\<rparr>"

lemma fq_fifo_demo_release:
  "release (fq_demo\<lparr>fq_enabled := False\<rparr>) (\<lambda>_. 7) fq_fifo_demo = Inr (fq_fifo_demo\<lparr>waiters := []\<rparr>, [1])"
  by (simp add: release_def fq_fifo_demo_def fq_demo_def admit_waiters.simps select_waiter_def deliver_def)

theorem fq_disabled_fifo_witness:
  "\<exists>m. waiters (fq_fifo_demo\<lparr>waiters := []\<rparr>) = drop m (waiters fq_fifo_demo) \<and>
       [1] = map w_sequence (filter w_open (take m (waiters fq_fifo_demo)))"
  by (rule fq_disabled_fifo [OF _ fq_fifo_demo_release]) (simp add: fq_demo_def)

text \<open>
  The usage that ranks a user is the number of its admissions inside the rolling window: pruning
  a history that is in time order keeps exactly the grants younger than the cutoff, and drops the
  user's entry when none is left.
\<close>

theorem fq_usage_counts_window:
  assumes "instant_checked_sub now window = Some cutoff" and "grants inner user = Some ats" and "sorted ats"
  shows "usage_of (prune inner now window) user = length (filter (\<lambda>at. cutoff < at) ats) \<and>
    grants (prune inner now window) user =
      (if filter (\<lambda>at. cutoff < at) ats = [] then None else Some (filter (\<lambda>at. cutoff < at) ats))"
proof -
  have dw: "dropWhile (\<lambda>at. at \<le> cutoff) ats = filter (\<lambda>at. cutoff < at) ats"
    using assms(3)
  proof (induction ats)
    case (Cons a ats)
    show ?case
    proof (cases "a \<le> cutoff")
      case False
      with Cons.prems have "filter (\<lambda>at. cutoff < at) (a # ats) = a # ats"
        by (intro filter_True) auto
      with False show ?thesis by simp
    qed (use Cons in auto)
  qed simp
  show ?thesis by (simp add: usage_of_def prune_def assms dw Let_def)
qed

theorem fq_usage_counts_window_witness:
  "usage_of (prune fq_demo_two 1800000000005 (fq_window fq_demo)) (Some 1) = 1"
  using fq_usage_counts_window [of 1800000000005 "fq_window fq_demo" 5 fq_demo_two "Some 1" "[5, 6]"]
  by (simp add: fq_demo_def fq_demo_two_def instant_checked_sub_def instant_min_def i64_min_def)

end
