(* ===== verification/Proxy.thy ===== *)
theory Proxy
  imports Body Headers Auth UsageStream Sink Routing FairQueue
begin

text \<open>
  The proxy handler (\<open>crates/twl-server/src/proxy/mod.rs\<close>): validation of the client key, admission,
  body, routing, the attempts on the candidate backends, the choice of the accounting stream, and the
  drop of \<open>UsageRecorder\<close> (\<open>proxy/stream.rs\<close>) at the end of the response. The handler suspends at every
  \<open>await\<close> while other requests run, so its model yields the sequence of its effects on the shared
  components, in the order of the code and of the drops of its guards; what they do to the
  shared state is said in the theory Running. The HTTP client, the JSON library, the hash functions and the outcome of
  reading the body are parameters.
\<close>

section \<open>Requests, responses, effects\<close>

record proxy_request =
  pr_method :: string
  pr_path :: string
  pr_path_and_query :: "string option"
  pr_headers :: header_map

record upstream_request =
  uq_method :: string
  uq_url :: string
  uq_headers :: header_map
  uq_body :: string

record upstream_response =
  ur_status :: nat
  ur_headers :: header_map

record exec_error =
  ee_is_connect :: bool
  ee_text :: string

datatype effect =
    AcquireSlot "int option"
  | EnterLoad nat
  | EnterMeter nat
  | SendTo nat upstream_request
  | LeaveMeter nat
  | LeaveLoad nat
  | RecordUsage usage
  | ReleaseSlot

datatype stream_kind = Sse | Ndjson | Buffered bool

record accounting_context =
  ac_endpoint :: string
  ac_req_model :: "string option"
  ac_api_key_id :: "int option"

text \<open>
  How the handler ends: with a response of its own, with an upstream response whose body is streamed
  under accounting, or in a panic.
\<close>

datatype outcome =
    Reply response
  | Streaming nat nat header_map stream_kind accounting_context
  | Panicked

section \<open>Responses of the handler\<close>

definition json_headers :: header_map where
  "json_headers = [(''content-type'', ''application/json'')]"

definition unauthorized_response :: response where
  "unauthorized_response =
     \<lparr>r_status = 401, r_headers = json_headers @ [(''www-authenticate'', ''Bearer'')],
      r_body = JsonBody (Object [(''error'', String ''invalid or missing API key'')])\<rparr>"

definition unknown_model_error :: "string \<Rightarrow> response" where
  "unknown_model_error model =
     \<lparr>r_status = 404, r_headers = json_headers,
      r_body = JsonBody (Object [(''error'', Object
        [(''code'', String ''model_not_found''),
         (''message'', String (''model '' @ [CHR 0x27] @ model @ [CHR 0x27] @ '' not found'')),
         (''type'', String ''invalid_request_error'')])])\<rparr>"

definition error_response :: "nat \<Rightarrow> string \<Rightarrow> response" where
  "error_response status msg =
     \<lparr>r_status = status, r_headers = json_headers,
      r_body = JsonBody (Object [(''error'', Object [(''message'', String msg)])])\<rparr>"

definition upstream_unavailable_response :: response where
  "upstream_unavailable_response =
     \<lparr>r_status = 502, r_headers = json_headers,
      r_body = JsonBody (Object [(''error'', Object [(''message'', String ''upstream unavailable'')])])\<rparr>"

section \<open>Key validation\<close>

text \<open>\<open>slot\<close> is the failure, if any, of the semaphore or of the detached validation task.\<close>

definition run_with_validation_slot :: "string option \<Rightarrow> 'a \<Rightarrow> string + 'a" where
  "run_with_validation_slot slot validation = (case slot of Some e \<Rightarrow> Inl e | None \<Rightarrow> Inr validation)"

definition validate_client_key_bounded ::
    "(string \<Rightarrow> string option) \<Rightarrow> (string \<Rightarrow> string) \<Rightarrow> (string \<Rightarrow> string + (int \<times> int) option) \<Rightarrow> string option
     \<Rightarrow> header_map \<Rightarrow> client_key_result" where
  "validate_client_key_bounded to_str sha256_hex lookup slot headers =
     (if extract_client_key to_str headers = None then NotPresent
      else (case run_with_validation_slot slot (extract_and_validate_client_key to_str sha256_hex lookup headers) of
              Inr result \<Rightarrow> result
            | Inl e \<Rightarrow> KeyError e))"

section \<open>Classification of responses\<close>

definition content_type_matches :: "(string \<Rightarrow> string option) \<Rightarrow> header_map \<Rightarrow> string \<Rightarrow> bool" where
  "content_type_matches to_str headers media_type =
     (case map_option (\<lambda>v. to_ascii_lowercase (trim v)) (Option.bind (header_get ''content-type'' headers) to_str) of
        Some s \<Rightarrow> trim (takeWhile (\<lambda>c. c \<noteq> CHR '';'') s) = media_type
      | None \<Rightarrow> False)"

definition is_event_stream :: "(string \<Rightarrow> string option) \<Rightarrow> header_map \<Rightarrow> bool" where
  "is_event_stream to_str headers = content_type_matches to_str headers ''text/event-stream''"

definition is_ndjson_stream :: "(string \<Rightarrow> string option) \<Rightarrow> header_map \<Rightarrow> bool" where
  "is_ndjson_stream to_str headers \<longleftrightarrow>
     content_type_matches to_str headers ''application/x-ndjson'' \<or>
     content_type_matches to_str headers ''application/jsonl'' \<or>
     content_type_matches to_str headers ''application/x-jsonlines''"

definition is_success :: "nat \<Rightarrow> bool" where
  "is_success status \<longleftrightarrow> 200 \<le> status \<and> status < 300"

definition classify :: "(string \<Rightarrow> string option) \<Rightarrow> upstream_response \<Rightarrow> stream_kind" where
  "classify to_str resp =
     (if is_event_stream to_str (ur_headers resp) then Sse
      else if is_ndjson_stream to_str (ur_headers resp) then Ndjson
      else Buffered (is_success (ur_status resp)))"

section \<open>Attempts\<close>

text \<open>\<open>HeaderMap::insert\<close>: the value replaces every value of the name.\<close>

fun header_insert :: "string \<Rightarrow> string \<Rightarrow> header_map \<Rightarrow> header_map" where
  "header_insert n v [] = [(n, v)]"
| "header_insert n v ((n', v') # hs) =
     (if n = n' then (n, v) # filter (\<lambda>h. fst h \<noteq> n) hs else (n', v') # header_insert n v hs)"

text \<open>
  What the attempts depend on: the header constructors of the HTTP library (\<open>HeaderName::from_bytes\<close>,
  \<open>HeaderValue::from_str\<close>), whether the request builder fails, and the outcome of sending to a backend.
\<close>

record http_client =
  hc_to_str :: "string \<Rightarrow> string option"
  hc_header_name :: "string \<Rightarrow> string option"
  hc_header_value :: "string \<Rightarrow> string option"
  hc_build_error :: "upstream_request \<Rightarrow> string option"
  hc_execute :: "nat \<Rightarrow> upstream_request \<Rightarrow> exec_error + upstream_response"

definition inject_auth_headers :: "http_client \<Rightarrow> (string \<times> string) list \<Rightarrow> header_map \<Rightarrow> header_map" where
  "inject_auth_headers hc auth headers =
     foldl (\<lambda>hs (name, value).
              case (hc_header_name hc name, hc_header_value hc value) of
                (Some n, Some v) \<Rightarrow> header_insert n v hs
              | _ \<Rightarrow> hs) headers auth"

definition build_request :: "http_client \<Rightarrow> proxy_request \<Rightarrow> bool \<Rightarrow> string \<Rightarrow> backend \<Rightarrow> upstream_request" where
  "build_request hc req key_consumed out_body b =
     \<lparr>uq_method = pr_method req, uq_url = b_upstream b @ unwrap_or (pr_path_and_query req) (pr_path req),
      uq_headers = forward_request_headers (hc_to_str hc) (pr_headers req) key_consumed, uq_body = out_body\<rparr>"

text \<open>
  The loop over the candidates. A guard that goes out of scope appears as its drop: the meter before the
  load, in the reverse order of their declaration. \<open>None\<close> on the left is a panic.
\<close>

fun try_candidates ::
    "http_client \<Rightarrow> backend list \<Rightarrow> proxy_request \<Rightarrow> bool \<Rightarrow> string \<Rightarrow> nat list
     \<Rightarrow> effect list \<times> (response option + nat \<times> upstream_response)" where
  "try_candidates hc backends req key_consumed out_body [] = ([], Inl None)"
| "try_candidates hc backends req key_consumed out_body (i # rest) =
     (if length backends \<le> i then ([], Inl None)
      else
        let b = backends ! i;
            begun = [EnterLoad i, EnterMeter i];
            ended = [LeaveMeter i, LeaveLoad i];
            uq = build_request hc req key_consumed out_body b
        in case hc_build_error hc uq of
             Some e \<Rightarrow> (begun @ ended, Inl (Some upstream_unavailable_response))
           | None \<Rightarrow>
               let uq' = uq\<lparr>uq_headers := inject_auth_headers hc (b_auth_headers b) (uq_headers uq)\<rparr>
               in case hc_execute hc i uq' of
                    Inr resp \<Rightarrow> (begun @ [SendTo i uq'], Inr (i, resp))
                  | Inl e \<Rightarrow>
                      if ee_is_connect e \<and> rest \<noteq> []
                      then (case try_candidates hc backends req key_consumed out_body rest of
                              (es, r) \<Rightarrow> (begun @ [SendTo i uq'] @ ended @ es, r))
                      else (begun @ [SendTo i uq'] @ ended, Inl (Some upstream_unavailable_response)))"

section \<open>The handler\<close>

record proxy_env =
  pe_http :: http_client
  pe_sha256_hex :: "string \<Rightarrow> string"
  pe_lookup :: "string \<Rightarrow> string + (int \<times> int) option"
  pe_slot :: "string option"
  pe_require_api_key :: bool
  pe_read_body :: "nat \<Rightarrow> string + string"
  pe_from_slice :: "string \<Rightarrow> json option"
  pe_to_vec :: "json \<Rightarrow> string option"
  pe_fx_hash :: "string \<Rightarrow> 64 word"
  pe_sort_scores :: "(64 word \<times> nat) list \<Rightarrow> (64 word \<times> nat) list"
  pe_score :: "64 word \<Rightarrow> 32 word \<Rightarrow> 64 word"
  pe_response_error :: "string option"

text \<open>From the admission on: the slot is held until the response has been streamed.\<close>

definition proxy_admitted ::
    "proxy_env \<Rightarrow> proxy_request \<Rightarrow> registry \<Rightarrow> (int \<times> int) option \<Rightarrow> bool \<Rightarrow> effect list \<times> registry \<times> outcome" where
  "proxy_admitted env req reg api_key_info key_consumed =
     (case pe_read_body env MAX_REQUEST_BODY of
        Inl e \<Rightarrow>
          ([ReleaseSlot], reg, Reply (error_response 413
             (''request body too large (max '' @ show_nat MAX_REQUEST_BODY @ '' bytes) or unreadable: '' @ e)))
      | Inr body_bytes \<Rightarrow>
          (case prepare_body (pe_from_slice env) (pe_to_vec env) (pe_fx_hash env) (pr_path req) body_bytes of
             (out_body, req_model, prefix_hash) \<Rightarrow>
               (case route_candidates (pe_sort_scores env) (pe_score env) reg
                       \<lparr>rr_model = req_model, rr_prefix_hash = prefix_hash\<rparr> of
                  Inl p \<Rightarrow> ([ReleaseSlot], reg, Panicked)
                | Inr (Inl (UnknownModel m), reg') \<Rightarrow> ([ReleaseSlot], reg', Reply (unknown_model_error m))
                | Inr (Inl MissingModel, reg') \<Rightarrow>
                    ([ReleaseSlot], reg', Reply (error_response 400 ''request must specify a model''))
                | Inr (Inr candidates, reg') \<Rightarrow>
                    (case try_candidates (pe_http env) (reg_backends reg') req key_consumed out_body candidates of
                       (es, Inl None) \<Rightarrow> (es @ [ReleaseSlot], reg', Panicked)
                     | (es, Inl (Some r)) \<Rightarrow> (es @ [ReleaseSlot], reg', Reply r)
                     | (es, Inr (i, resp)) \<Rightarrow>
                         (case pe_response_error env of
                            Some e \<Rightarrow> (es @ [LeaveMeter i, LeaveLoad i, ReleaseSlot], reg',
                                        Reply (error_response 500 (''build resp: '' @ e)))
                          | None \<Rightarrow>
                              (es, reg',
                               Streaming i (ur_status resp)
                                 (forward_response_headers (hc_to_str (pe_http env)) (ur_headers resp))
                                 (classify (hc_to_str (pe_http env)) resp)
                                 \<lparr>ac_endpoint = pr_path req, ac_req_model = req_model,
                                  ac_api_key_id = map_option fst api_key_info\<rparr>))))))"

definition proxy_handler ::
    "proxy_env \<Rightarrow> proxy_request \<Rightarrow> registry \<Rightarrow> effect list \<times> registry \<times> outcome" where
  "proxy_handler env req reg =
     (case validate_client_key_bounded (hc_to_str (pe_http env)) (pe_sha256_hex env) (pe_lookup env) (pe_slot env)
             (pr_headers req) of
        Valid k \<Rightarrow>
          (case proxy_admitted env req reg (Some (vk_key_id k, vk_user_id k)) True of
             (es, reg', r) \<Rightarrow> (AcquireSlot (Some (vk_user_id k)) # es, reg', r))
      | Invalid \<Rightarrow> ([], reg, Reply unauthorized_response)
      | KeyError e \<Rightarrow> ([], reg, Reply (error_response 500 ''internal error''))
      | NotPresent \<Rightarrow>
          if pe_require_api_key env then ([], reg, Reply unauthorized_response)
          else (case proxy_admitted env req reg None False of
                  (es, reg', r) \<Rightarrow> (AcquireSlot None # es, reg', r)))"

section \<open>The end of the response\<close>

text \<open>
  \<open>UsageRecorder::drop\<close>, then the drops of its fields in the order of their declaration. Before the
  body is polled there is no recorder: the same guards are dropped and no usage was seen.
\<close>

definition recorder_drop :: "accounting_context \<Rightarrow> nat \<Rightarrow> usage option \<Rightarrow> effect list" where
  "recorder_drop ctx i u =
     (case recorder_usage (ac_api_key_id ctx) u of Some u' \<Rightarrow> [RecordUsage u'] | None \<Rightarrow> []) @
     [LeaveMeter i, LeaveLoad i, ReleaseSlot]"

text \<open>The accounting stream by kind: the usage seen and the chunks delivered after some polls.\<close>

definition accounting_body ::
    "(string \<Rightarrow> json option) \<Rightarrow> stream_kind \<Rightarrow> accounting_context \<Rightarrow> ('e + string) option list
     \<Rightarrow> usage option \<times> ('e + string) option list" where
  "accounting_body from_str kind ctx answers =
     (case kind of
        Sse \<Rightarrow>
          map_prod ls_usage id
            (run_polls (sse_accounting_poll from_str (ac_endpoint ctx) (ac_req_model ctx)) line_stream_new answers)
      | Ndjson \<Rightarrow>
          map_prod ls_usage id
            (run_polls (ndjson_accounting_poll from_str (ac_endpoint ctx) (ac_req_model ctx)) line_stream_new answers)
      | Buffered parse \<Rightarrow>
          map_prod bs_usage id
            (run_polls (buffered_accounting_poll from_str (ac_endpoint ctx) (ac_req_model ctx) parse) body_stream_new answers))"

text \<open>All effects of one request, whose client reads the body up to some polls before it is dropped.\<close>

definition request_trace ::
    "proxy_env \<Rightarrow> proxy_request \<Rightarrow> registry \<Rightarrow> ('e + string) option list \<Rightarrow> effect list" where
  "request_trace env req reg answers =
     (case proxy_handler env req reg of
        (es, reg', Streaming i status headers kind ctx) \<Rightarrow>
          es @ recorder_drop ctx i (fst (accounting_body (pe_from_slice env) kind ctx answers))
      | (es, reg', _) \<Rightarrow> es)"

section \<open>The shape of the attempts\<close>

definition failed_block :: "nat \<times> upstream_request \<Rightarrow> effect list" where
  "failed_block p = [EnterLoad (fst p), EnterMeter (fst p), SendTo (fst p) (snd p), LeaveMeter (fst p), LeaveLoad (fst p)]"

definition refused :: "http_client \<Rightarrow> nat \<times> upstream_request \<Rightarrow> bool" where
  "refused hc p \<longleftrightarrow> (case hc_execute hc (fst p) (snd p) of Inl e \<Rightarrow> ee_is_connect e | Inr _ \<Rightarrow> False)"

text \<open>The last attempt: none (a panic), one whose request could not be built, a failed one, a successful one.\<close>

definition last_attempt ::
    "http_client \<Rightarrow> nat list \<Rightarrow> effect list \<Rightarrow> response option + nat \<times> upstream_response \<Rightarrow> bool" where
  "last_attempt hc cs tail r \<longleftrightarrow>
     tail = [] \<and> r = Inl None \<or>
     (\<exists>i \<in> set cs. tail = [EnterLoad i, EnterMeter i, LeaveMeter i, LeaveLoad i] \<and> r = Inl (Some upstream_unavailable_response)) \<or>
     (\<exists>i \<in> set cs. \<exists>uq. tail = failed_block (i, uq) \<and> r = Inl (Some upstream_unavailable_response)) \<or>
     (\<exists>i \<in> set cs. \<exists>uq resp. tail = [EnterLoad i, EnterMeter i, SendTo i uq] \<and> r = Inr (i, resp) \<and>
        hc_execute hc i uq = Inr resp)"

lemma try_here:
  assumes "try_candidates hc bs req kc out (i # rest) = (es, r)"
  shows "last_attempt hc (i # rest) es r \<or>
    (\<exists>uq es'. refused hc (i, uq) \<and> try_candidates hc bs req kc out rest = (es', r) \<and> es = failed_block (i, uq) @ es')"
  using assms
  by (auto simp: last_attempt_def refused_def failed_block_def Let_def
        split: if_split_asm option.split_asm sum.split_asm prod.split_asm)

lemma try_shape:
  assumes "try_candidates hc bs req kc out cs = (es, r)"
  shows "\<exists>failed tail. es = concat (map failed_block failed) @ tail \<and> list_all (refused hc) failed \<and>
    prefix (map fst failed) cs \<and> last_attempt hc cs tail r"
  using assms
proof (induction cs arbitrary: es r)
  case Nil
  then show ?case by (intro exI [of _ "[]"]) (simp add: last_attempt_def)
next
  case (Cons i rest)
  from try_here [OF Cons.prems] show ?case
  proof
    assume "last_attempt hc (i # rest) es r"
    then show ?thesis by - (rule exI [of _ "[]"], rule exI [of _ es], simp)
  next
    assume "\<exists>uq es'. refused hc (i, uq) \<and> try_candidates hc bs req kc out rest = (es', r) \<and> es = failed_block (i, uq) @ es'"
    then obtain uq es' where rec: "refused hc (i, uq)" "try_candidates hc bs req kc out rest = (es', r)"
      "es = failed_block (i, uq) @ es'" by blast
    from Cons.IH [OF rec(2)] obtain failed tail where IH: "es' = concat (map failed_block failed) @ tail"
      "list_all (refused hc) failed" "prefix (map fst failed) rest" "last_attempt hc rest tail r" by blast
    moreover have "last_attempt hc (i # rest) tail r"
      using IH(4) unfolding last_attempt_def by (elim disjE) auto
    ultimately show ?thesis
      using rec by (intro exI [of _ "(i, uq) # failed"] exI [of _ tail]) simp
  qed
qed

section \<open>Brackets\<close>

text \<open>
  A resource is bracketed in a sequence of effects when every prefix has at least as many acquisitions as
  releases and the whole has as many of both. Brackets survive concatenation and interleaving.
\<close>

definition bracketed :: "(effect \<Rightarrow> bool) \<Rightarrow> (effect \<Rightarrow> bool) \<Rightarrow> effect list \<Rightarrow> bool" where
  "bracketed opens closes es \<longleftrightarrow>
     (\<forall>n. length (filter closes (take n es)) \<le> length (filter opens (take n es))) \<and>
     length (filter closes es) = length (filter opens es)"

lemma bracketed_append:
  assumes "bracketed P Q xs" "bracketed P Q ys"
  shows "bracketed P Q (xs @ ys)"
  unfolding bracketed_def
proof (intro conjI allI)
  fix n
  have "length (filter Q (take n xs)) \<le> length (filter P (take n xs))"
    "length (filter Q (take (n - length xs) ys)) \<le> length (filter P (take (n - length xs) ys))"
    using assms unfolding bracketed_def by blast+
  then show "length (filter Q (take n (xs @ ys))) \<le> length (filter P (take n (xs @ ys)))" by simp
next
  show "length (filter Q (xs @ ys)) = length (filter P (xs @ ys))" using assms by (simp add: bracketed_def)
qed

lemma bracketed_none: "\<forall>e \<in> set es. \<not> P e \<and> \<not> Q e \<Longrightarrow> bracketed P Q es"
proof -
  assume none: "\<forall>e \<in> set es. \<not> P e \<and> \<not> Q e"
  then have "filter Q (take n es) = []" for n by (auto dest: in_set_takeD simp: filter_empty_conv)
  moreover from none have "filter P es = []" "filter Q es = []" by (auto simp: filter_empty_conv)
  ultimately show ?thesis by (simp add: bracketed_def)
qed

lemma bracketed_wrap:
  assumes "bracketed P Q xs" "P b" "\<not> Q b" "Q d" "\<not> P d"
  shows "bracketed P Q (b # xs @ [d])"
  unfolding bracketed_def
proof (intro conjI allI)
  fix n
  show "length (filter Q (take n (b # xs @ [d]))) \<le> length (filter P (take n (b # xs @ [d])))"
  proof (cases n)
    case (Suc k)
    have "length (filter Q (take k xs)) \<le> length (filter P (take k xs))"
      using assms(1) unfolding bracketed_def by blast
    moreover have "length (filter Q (take (k - length xs) [d])) \<le> 1"
      by (rule order_trans [OF length_filter_le]) simp
    ultimately show ?thesis using assms(2,3) by (simp add: Suc)
  qed simp
next
  show "length (filter Q (b # xs @ [d])) = length (filter P (b # xs @ [d]))"
    using assms by (simp add: bracketed_def)
qed

lemma bracketed_concat: "\<forall>xs \<in> set xss. bracketed P Q xs \<Longrightarrow> bracketed P Q (concat xss)"
  by (induction xss) (simp_all add: bracketed_append bracketed_none)

lemma shuffles_take:
  "zs \<in> shuffles xs ys \<Longrightarrow>
     \<exists>i j. length (filter P (take n zs)) = length (filter P (take i xs)) + length (filter P (take j ys)) \<and>
           length (filter Q (take n zs)) = length (filter Q (take i xs)) + length (filter Q (take j ys))"
proof (induction xs ys arbitrary: zs n rule: shuffles.induct)
  case (1 ys)
  then show ?case by (intro exI [of _ 0] exI [of _ n]) simp
next
  case (2 xs)
  then show ?case by (intro exI [of _ n] exI [of _ 0]) simp
next
  case (3 x xs y ys)
  show ?case
  proof (cases n)
    case 0
    then show ?thesis by (intro exI [of _ 0]) simp
  next
    case (Suc m)
    from "3.prems" consider zs' where "zs = x # zs'" "zs' \<in> shuffles xs (y # ys)"
      | zs' where "zs = y # zs'" "zs' \<in> shuffles (x # xs) ys" by auto
    then show ?thesis
    proof cases
      case 1
      from "3.IH"(1) [OF 1(2), of m] obtain i j where
        "length (filter P (take m zs')) = length (filter P (take i xs)) + length (filter P (take j (y # ys)))"
        "length (filter Q (take m zs')) = length (filter Q (take i xs)) + length (filter Q (take j (y # ys)))" by blast
      with 1 Suc show ?thesis by (intro exI [of _ "Suc i"] exI [of _ j]) simp
    next
      case 2
      from "3.IH"(2) [OF 2(2), of m] obtain i j where
        "length (filter P (take m zs')) = length (filter P (take i (x # xs))) + length (filter P (take j ys))"
        "length (filter Q (take m zs')) = length (filter Q (take i (x # xs))) + length (filter Q (take j ys))" by blast
      with 2 Suc show ?thesis by (intro exI [of _ i] exI [of _ "Suc j"]) simp
    qed
  qed
qed

lemma bracketed_shuffle:
  assumes "zs \<in> shuffles xs ys" "bracketed P Q xs" "bracketed P Q ys"
  shows "bracketed P Q zs"
  unfolding bracketed_def
proof (intro conjI allI)
  fix n
  from shuffles_take [OF assms(1), of P n Q] obtain i j where
    "length (filter P (take n zs)) = length (filter P (take i xs)) + length (filter P (take j ys))"
    "length (filter Q (take n zs)) = length (filter Q (take i xs)) + length (filter Q (take j ys))" by blast
  moreover have "length (filter Q (take i xs)) \<le> length (filter P (take i xs))"
    "length (filter Q (take j ys)) \<le> length (filter P (take j ys))"
    using assms(2,3) unfolding bracketed_def by blast+
  ultimately show "length (filter Q (take n zs)) \<le> length (filter P (take n zs))" by simp
next
  have "mset zs = mset xs + mset ys" using assms(1) by (rule mset_shuffles)
  then have "length (filter R zs) = length (filter R xs) + length (filter R ys)" for R
    by (metis filter_union_mset mset_filter size_mset size_union)
  then show "length (filter Q zs) = length (filter P zs)" using assms(2,3) by (simp add: bracketed_def)
qed

fun interleavings :: "effect list list \<Rightarrow> effect list set" where
  "interleavings [] = {[]}"
| "interleavings (t # ts) = (\<Union>es \<in> interleavings ts. shuffles t es)"

lemma bracketed_interleavings:
  "es \<in> interleavings ts \<Longrightarrow> \<forall>t \<in> set ts. bracketed P Q t \<Longrightarrow> bracketed P Q es"
  by (induction ts arbitrary: es) (auto simp: bracketed_none intro: bracketed_shuffle)

section \<open>The shape of a request\<close>

fun neutral :: "effect \<Rightarrow> bool" where
  "neutral (SendTo i uq) = True"
| "neutral (RecordUsage u) = True"
| "neutral _ = False"

definition attempt :: "nat \<times> effect list \<Rightarrow> effect list" where
  "attempt a = [EnterLoad (fst a), EnterMeter (fst a)] @ snd a @ [LeaveMeter (fst a), LeaveLoad (fst a)]"

definition attempts :: "effect list \<Rightarrow> bool" where
  "attempts es \<longleftrightarrow> (\<exists>as. es = concat (map attempt as) \<and> (\<forall>a \<in> set as. \<forall>e \<in> set (snd a). neutral e))"

lemma attempts_Nil [simp]: "attempts []"
  unfolding attempts_def by (rule exI [of _ "[]"]) simp

lemma attempts_one: "\<forall>e \<in> set mid. neutral e \<Longrightarrow> attempts ([EnterLoad i, EnterMeter i] @ mid @ [LeaveMeter i, LeaveLoad i])"
  unfolding attempts_def by (rule exI [of _ "[(i, mid)]"]) (simp add: attempt_def)

lemma attempts_append: "attempts xs \<Longrightarrow> attempts ys \<Longrightarrow> attempts (xs @ ys)"
  unfolding attempts_def by (elim exE conjE, rule_tac x = "as @ asa" in exI) auto

lemma attempts_failed: "attempts (concat (map failed_block failed))"
  unfolding attempts_def
  by (rule exI [of _ "map (\<lambda>p. (fst p, [SendTo (fst p) (snd p)])) failed"])
     (auto simp: comp_def attempt_def failed_block_def [abs_def])

lemma try_attempts:
  assumes "try_candidates hc bs req kc out cs = (es, r)"
  shows "case r of
      Inl _ \<Rightarrow> attempts es
    | Inr (i, resp) \<Rightarrow> (\<forall>mid. list_all neutral mid \<longrightarrow> attempts (es @ mid @ [LeaveMeter i, LeaveLoad i]))"
proof -
  from try_shape [OF assms] obtain failed tail where sh: "es = concat (map failed_block failed) @ tail"
    "last_attempt hc cs tail r" by blast
  note pre = attempts_failed [of failed]
  from sh(2) consider "tail = []" "r = Inl None"
    | i where "tail = [EnterLoad i, EnterMeter i, LeaveMeter i, LeaveLoad i]" "r = Inl (Some upstream_unavailable_response)"
    | i uq where "tail = failed_block (i, uq)" "r = Inl (Some upstream_unavailable_response)"
    | i uq resp where "tail = [EnterLoad i, EnterMeter i, SendTo i uq]" "r = Inr (i, resp)"
    unfolding last_attempt_def by blast
  then show ?thesis
  proof cases
    case 1
    with pre sh(1) show ?thesis by simp
  next
    case 2
    with attempts_append [OF pre attempts_one [of "[]" i]] sh(1) show ?thesis by simp
  next
    case (3 i uq)
    with attempts_append [OF pre attempts_one [of "[SendTo i uq]" i]] sh(1) show ?thesis by (simp add: failed_block_def)
  next
    case (4 i uq resp)
    have "attempts (es @ mid @ [LeaveMeter i, LeaveLoad i])" if "list_all neutral mid" for mid
      using that attempts_append [OF pre attempts_one [of "SendTo i uq # mid" i]] sh(1) 4(1) by (simp add: list_all_iff)
    with 4(2) show ?thesis by simp
  qed
qed

text \<open>From admission to the last drop: attempts, then the release of the slot.\<close>

definition whole_trace :: "proxy_env \<Rightarrow> ('e + string) option list \<Rightarrow> effect list \<times> registry \<times> outcome \<Rightarrow> effect list" where
  "whole_trace env answers p =
     (case p of
        (es, reg', Streaming i status headers kind ctx) \<Rightarrow>
          es @ recorder_drop ctx i (fst (accounting_body (pe_from_slice env) kind ctx answers))
      | (es, reg', _) \<Rightarrow> es)"

lemma request_trace_whole: "request_trace env req reg answers = whole_trace env answers (proxy_handler env req reg)"
  by (simp add: request_trace_def whole_trace_def)

definition recorded_keys :: "effect list \<Rightarrow> int option set" where
  "recorded_keys es = {u_api_key_id u |u. RecordUsage u \<in> set es}"

lemma try_records_nothing:
  "try_candidates hc bs req kc out cs = (es, r) \<Longrightarrow> RecordUsage u \<notin> set es"
  by (induction cs arbitrary: es r) (auto simp: Let_def split: if_splits option.splits sum.splits prod.splits)

text \<open>The handler after the attempts on the candidates.\<close>

definition finished ::
    "proxy_env \<Rightarrow> proxy_request \<Rightarrow> (int \<times> int) option \<Rightarrow> string option \<Rightarrow> registry
     \<Rightarrow> effect list \<times> (response option + nat \<times> upstream_response) \<Rightarrow> effect list \<times> registry \<times> outcome" where
  "finished env req info req_model reg' p =
     (case p of
        (es, Inl None) \<Rightarrow> (es @ [ReleaseSlot], reg', Panicked)
      | (es, Inl (Some r)) \<Rightarrow> (es @ [ReleaseSlot], reg', Reply r)
      | (es, Inr (i, resp)) \<Rightarrow>
          (case pe_response_error env of
             Some e \<Rightarrow> (es @ [LeaveMeter i, LeaveLoad i, ReleaseSlot], reg', Reply (error_response 500 (''build resp: '' @ e)))
           | None \<Rightarrow>
               (es, reg', Streaming i (ur_status resp)
                  (forward_response_headers (hc_to_str (pe_http env)) (ur_headers resp))
                  (classify (hc_to_str (pe_http env)) resp)
                  \<lparr>ac_endpoint = pr_path req, ac_req_model = req_model, ac_api_key_id = map_option fst info\<rparr>)))"

text \<open>An admitted request either ends before any attempt, or it is routed and finished.\<close>

lemma proxy_admitted_cases:
  obtains (early) reg' r where "proxy_admitted env req reg info kc = ([ReleaseSlot], reg', r)"
      "r = Panicked \<or> (\<exists>resp. r = Reply resp \<and> r_status resp \<in> {400, 404, 413})"
      "reg' = reg \<and> r \<noteq> Panicked \<or> (\<exists>rq. case route_candidates (pe_sort_scores env) (pe_score env) reg rq of
         Inl _ \<Rightarrow> True | Inr (_, reg1) \<Rightarrow> reg' = reg1 \<and> r \<noteq> Panicked)"
  | (routed) rq out_body cs reg' where
      "route_candidates (pe_sort_scores env) (pe_score env) reg rq = Inr (Inr cs, reg')"
      "proxy_admitted env req reg info kc =
         finished env req info (rr_model rq) reg' (try_candidates (pe_http env) (reg_backends reg') req kc out_body cs)"
proof (cases "pe_read_body env MAX_REQUEST_BODY")
  case (Inl e)
  then show ?thesis by (intro early) (auto simp: proxy_admitted_def error_response_def)
next
  case (Inr body_bytes)
  obtain out_body req_model prefix_hash where pb:
    "prepare_body (pe_from_slice env) (pe_to_vec env) (pe_fx_hash env) (pr_path req) body_bytes =
     (out_body, req_model, prefix_hash)" by (metis prod_cases3)
  let ?rq = "\<lparr>rr_model = req_model, rr_prefix_hash = prefix_hash\<rparr>"
  let ?rc = "route_candidates (pe_sort_scores env) (pe_score env) reg ?rq"
  consider p where "?rc = Inl p" | e reg' where "?rc = Inr (Inl e, reg')" | cs reg' where "?rc = Inr (Inr cs, reg')"
    by (cases ?rc) (auto, metis old.sum.exhaust surj_pair)
  then show ?thesis
  proof cases
    case (1 p)
    then show ?thesis by (intro early [of reg Panicked]) (auto simp: proxy_admitted_def Inr pb intro!: exI [of _ ?rq])
  next
    case (2 e reg')
    then show ?thesis
      by (cases e; intro early [of reg'])
         (auto simp: proxy_admitted_def Inr pb error_response_def unknown_model_error_def intro!: exI [of _ ?rq])
  next
    case (3 cs reg')
    show ?thesis
    proof (rule routed [OF 3])
      show "proxy_admitted env req reg info kc =
          finished env req info (rr_model ?rq) reg' (try_candidates (pe_http env) (reg_backends reg') req kc out_body cs)"
        by (simp add: proxy_admitted_def finished_def Inr pb 3)
    qed
  qed
qed

lemma finished_shape:
  assumes "try_candidates (pe_http env) bs req kc out_body cs = (es, r)"
  shows "\<exists>mid. whole_trace env answers (finished env req info req_model reg' (es, r)) = mid @ [ReleaseSlot] \<and> attempts mid \<and>
     recorded_keys mid \<subseteq> {map_option fst info}"
proof (cases r)
  note at = try_attempts [OF assms] and nr = try_records_nothing [OF assms]
  {
    case (Inl o')
    with at nr show ?thesis by (cases o') (auto simp: finished_def whole_trace_def recorded_keys_def)
  next
    case ok: (Inr p)
    obtain i resp where p: "p = (i, resp)" by (cases p)
    from at have at': "attempts (es @ mid @ [LeaveMeter i, LeaveLoad i])" if "list_all neutral mid" for mid
      using that by (simp add: ok p)
    show ?thesis
    proof (cases "pe_response_error env")
      case (Some e)
      with at' [of "[]"] nr show ?thesis by (auto simp: finished_def whole_trace_def ok p recorded_keys_def)
    next
      case None
      let ?ctx = "\<lparr>ac_endpoint = pr_path req, ac_req_model = req_model, ac_api_key_id = map_option fst info\<rparr>"
      let ?u = "recorder_usage (map_option fst info)
        (fst (accounting_body (pe_from_slice env) (classify (hc_to_str (pe_http env)) resp) ?ctx answers))"
      let ?mid = "es @ (case ?u of Some u' \<Rightarrow> [RecordUsage u'] | None \<Rightarrow> []) @ [LeaveMeter i, LeaveLoad i]"
      have "whole_trace env answers (finished env req info req_model reg' (es, r)) = ?mid @ [ReleaseSlot]"
        by (simp add: finished_def whole_trace_def recorder_drop_def ok p None)
      moreover have "attempts ?mid" by (rule at') (simp split: option.splits)
      moreover have "recorded_keys ?mid \<subseteq> {map_option fst info}"
        using nr by (auto simp: recorded_keys_def recorder_usage_def split: option.splits)
      ultimately show ?thesis by blast
    qed
  }
qed

lemma admitted_shape:
  "\<exists>mid. whole_trace env answers (proxy_admitted env req reg info kc) = mid @ [ReleaseSlot] \<and> attempts mid \<and>
     recorded_keys mid \<subseteq> {map_option fst info}"
proof (cases rule: proxy_admitted_cases [of env req reg info kc])
  case (early reg' r)
  then show ?thesis
    by (intro exI [of _ "[]"]) (auto simp: whole_trace_def recorded_keys_def)
next
  case (routed rq out_body cs reg')
  obtain es r where "try_candidates (pe_http env) (reg_backends reg') req kc out_body cs = (es, r)" by fastforce
  from finished_shape [OF this] this routed(2) show ?thesis by simp
qed

lemma attempt_bracketed:
  assumes "\<forall>e \<in> set (snd a). neutral e"
  shows "bracketed (\<lambda>e. e = EnterLoad i) (\<lambda>e. e = LeaveLoad i) (attempt a)"
    and "bracketed (\<lambda>e. e = EnterMeter i) (\<lambda>e. e = LeaveMeter i) (attempt a)"
    and "\<forall>e \<in> set (attempt a). \<not> (\<exists>u. e = AcquireSlot u) \<and> e \<noteq> ReleaseSlot"
proof -
  obtain j mid where a: "a = (j, mid)" by (cases a)
  have mid: "EnterLoad k \<notin> set mid" "LeaveLoad k \<notin> set mid" "EnterMeter k \<notin> set mid" "LeaveMeter k \<notin> set mid"
    "AcquireSlot u \<notin> set mid" "ReleaseSlot \<notin> set mid" for k u
    using assms by (auto simp: a)
  have meter: "bracketed (\<lambda>e. e = EnterMeter i) (\<lambda>e. e = LeaveMeter i) (EnterMeter j # mid @ [LeaveMeter j])"
  proof (cases "i = j")
    case True
    then show ?thesis by (intro bracketed_wrap bracketed_none) (auto simp: mid)
  qed (auto intro!: bracketed_none simp: mid)
  have one: "bracketed (\<lambda>e. e = EnterMeter i) (\<lambda>e. e = LeaveMeter i) [x]" if "x \<in> {EnterLoad j, LeaveLoad j}" for x
    using that by (intro bracketed_none) auto
  show "bracketed (\<lambda>e. e = EnterMeter i) (\<lambda>e. e = LeaveMeter i) (attempt a)"
    using bracketed_append [OF bracketed_append [OF one [of "EnterLoad j"] meter] one [of "LeaveLoad j"]]
    by (simp add: a attempt_def)
  have load: "bracketed (\<lambda>e. e = EnterLoad i) (\<lambda>e. e = LeaveLoad i)
      (EnterLoad j # (EnterMeter j # mid @ [LeaveMeter j]) @ [LeaveLoad j])"
  proof (cases "i = j")
    case True
    then show ?thesis by (intro bracketed_wrap bracketed_none) (auto simp: mid)
  qed (auto intro!: bracketed_none simp: mid)
  then show "bracketed (\<lambda>e. e = EnterLoad i) (\<lambda>e. e = LeaveLoad i) (attempt a)"
    by (simp add: a attempt_def)
  show "\<forall>e \<in> set (attempt a). \<not> (\<exists>u. e = AcquireSlot u) \<and> e \<noteq> ReleaseSlot"
    using mid by (auto simp: a attempt_def)
qed

text \<open>The three resources of a request: the load slot and the meter of a backend, and the admission slot.\<close>

definition resources_bracketed :: "effect list \<Rightarrow> bool" where
  "resources_bracketed es \<longleftrightarrow>
     (\<forall>i. bracketed (\<lambda>e. e = EnterLoad i) (\<lambda>e. e = LeaveLoad i) es \<and>
          bracketed (\<lambda>e. e = EnterMeter i) (\<lambda>e. e = LeaveMeter i) es) \<and>
     bracketed (\<lambda>e. \<exists>u. e = AcquireSlot u) (\<lambda>e. e = ReleaseSlot) es"

lemma attempts_bracketed:
  assumes "attempts es"
  shows "resources_bracketed (AcquireSlot u # es @ [ReleaseSlot])"
proof -
  from assms obtain as where as: "es = concat (map attempt as)" "\<forall>a \<in> set as. \<forall>e \<in> set (snd a). neutral e"
    by (auto simp: attempts_def)
  have load: "bracketed (\<lambda>e. e = EnterLoad i) (\<lambda>e. e = LeaveLoad i) es"
    and meter: "bracketed (\<lambda>e. e = EnterMeter i) (\<lambda>e. e = LeaveMeter i) es" for i
    unfolding as(1) using as(2) by (auto intro!: bracketed_concat attempt_bracketed)
  have slot: "bracketed (\<lambda>e. \<exists>u. e = AcquireSlot u) (\<lambda>e. e = ReleaseSlot) es"
    unfolding as(1) using as(2) attempt_bracketed(3) by (intro bracketed_none) fastforce
  have ends: "bracketed P Q [e]" if "\<not> P e" "\<not> Q e" for P Q e
    using that by (intro bracketed_none) simp
  show ?thesis
    unfolding resources_bracketed_def
  proof (intro conjI allI)
    fix i
    show "bracketed (\<lambda>e. e = EnterLoad i) (\<lambda>e. e = LeaveLoad i) (AcquireSlot u # es @ [ReleaseSlot])"
      using bracketed_append [OF bracketed_append [OF ends [of _ "AcquireSlot u"] load] ends [of _ ReleaseSlot]] by simp
    show "bracketed (\<lambda>e. e = EnterMeter i) (\<lambda>e. e = LeaveMeter i) (AcquireSlot u # es @ [ReleaseSlot])"
      using bracketed_append [OF bracketed_append [OF ends [of _ "AcquireSlot u"] meter] ends [of _ ReleaseSlot]] by simp
  qed (intro bracketed_wrap slot; simp)
qed

text \<open>The upstream requests of a sequence of effects, with the backends they go to.\<close>

fun sends :: "effect list \<Rightarrow> (nat \<times> upstream_request) list" where
  "sends [] = []"
| "sends (SendTo i uq # es) = (i, uq) # sends es"
| "sends (_ # es) = sends es"

lemma sends_append [simp]: "sends (xs @ ys) = sends xs @ sends ys"
  by (induction xs rule: sends.induct) auto

lemma sends_failed: "sends (concat (map failed_block failed)) = failed"
  by (induction failed) (simp_all add: failed_block_def)

lemma try_sends:
  assumes "try_candidates hc bs req kc out cs = (es, r)"
  shows "length (filter (\<lambda>p. \<not> refused hc p) (sends es)) \<le> 1 \<and>
    (case r of
       Inl _ \<Rightarrow> True
     | Inr (i, resp) \<Rightarrow> \<exists>uq before. sends es = before @ [(i, uq)] \<and> hc_execute hc i uq = Inr resp \<and> list_all (refused hc) before)"
proof -
  from try_shape [OF assms] obtain failed tail where sh: "es = concat (map failed_block failed) @ tail"
    "list_all (refused hc) failed" "last_attempt hc cs tail r" by blast
  from sh(2) have none: "filter (\<lambda>p. \<not> refused hc p) failed = []" by (simp add: list_all_iff filter_empty_conv)
  from sh(3) consider "sends tail = []" "\<exists>o'. r = Inl o'" | i uq where "sends tail = [(i, uq)]" "\<exists>o'. r = Inl o'"
    | i uq resp where "sends tail = [(i, uq)]" "r = Inr (i, resp)" "hc_execute hc i uq = Inr resp"
    unfolding last_attempt_def by (elim disjE) (auto simp: failed_block_def)
  then show ?thesis
    by cases (use sh none in \<open>auto simp: sends_failed\<close>)
qed

lemma try_bodies:
  "try_candidates hc bs req kc out cs = (es, r) \<Longrightarrow>
     (i, uq) \<in> set (sends es) \<Longrightarrow> i \<in> set cs \<and> uq_body uq = out \<and> uq_method uq = pr_method req"
  by (induction cs arbitrary: es r)
     (auto simp: Let_def build_request_def split: if_splits option.splits sum.splits prod.splits)

lemma try_no_panic:
  "cs \<noteq> [] \<Longrightarrow> \<forall>i \<in> set cs. i < length bs \<Longrightarrow> try_candidates hc bs req kc out cs = (es, r) \<Longrightarrow>
     (case r of Inl x \<Rightarrow> x = Some upstream_unavailable_response | Inr _ \<Rightarrow> True)"
  by (induction cs arbitrary: es r)
     (auto simp: Let_def split: if_splits option.splits sum.splits prod.splits)

lemma try_prefix:
  assumes "try_candidates hc bs req kc out cs = (es, r)"
  shows "prefix (map fst (sends es)) cs"
  using assms
proof (induction cs arbitrary: es r)
  case (Cons i rest)
  then show ?case
    by (auto simp: Let_def split: if_splits option.splits sum.splits prod.splits)
qed simp

lemma admitted_outcome:
  assumes "reg_inv reg" "score_sort (pe_sort_scores env)" "proxy_admitted env req reg info kc = (es, reg', r)"
  shows "reg_inv reg' \<and> r \<noteq> Panicked \<and> distinct (map fst (sends es)) \<and>
    length (filter (\<lambda>p. \<not> refused (pe_http env) p) (sends es)) \<le> 1 \<and>
    (case r of
       Streaming i status headers kind ctx \<Rightarrow>
         (\<exists>before uq resp. sends es = before @ [(i, uq)] \<and> list_all (refused (pe_http env)) before \<and>
            hc_execute (pe_http env) i uq = Inr resp \<and> status = ur_status resp \<and>
            headers = forward_response_headers (hc_to_str (pe_http env)) (ur_headers resp))
     | Reply resp \<Rightarrow> r_status resp \<in> {400, 404, 413, 500, 502}
     | Panicked \<Rightarrow> False)"
proof (cases rule: proxy_admitted_cases [of env req reg info kc])
  case (early reg1 r1)
  have total: "\<exists>x counters. route_candidates (pe_sort_scores env) (pe_score env) reg rq = Inr (x, reg\<lparr>reg_rotations := counters\<rparr>) \<and>
      reg_inv (reg\<lparr>reg_rotations := counters\<rparr>)" for rq
    using route_candidates_total [OF assms(1,2), of "pe_score env" rq] reg_inv_rotations [OF assms(1)] by blast
  have "reg_inv reg1 \<and> r1 \<noteq> Panicked"
    using early(3)
  proof
    assume "\<exists>rq. case route_candidates (pe_sort_scores env) (pe_score env) reg rq of
      Inl _ \<Rightarrow> True | Inr (_, reg2) \<Rightarrow> reg1 = reg2 \<and> r1 \<noteq> Panicked"
    then obtain rq where "case route_candidates (pe_sort_scores env) (pe_score env) reg rq of
      Inl _ \<Rightarrow> True | Inr (_, reg2) \<Rightarrow> reg1 = reg2 \<and> r1 \<noteq> Panicked" ..
    with total [of rq] show ?thesis by auto
  qed (use assms(1) in simp)
  with early(1,2) assms(3) show ?thesis by auto
next
  case (routed rq out_body cs reg1)
  from route_candidates_total [OF assms(1,2), of "pe_score env" rq] routed(1) obtain counters where
    reg1: "reg1 = reg\<lparr>reg_rotations := counters\<rparr>" "length counters = length (reg_rotations reg)" by auto
  note inv = reg_inv_rotations [OF assms(1) reg1(2), folded reg1(1)]
  from routed_candidates [OF assms(1,2) routed(1)]
  have rcs: "cs \<noteq> []" "distinct cs" "\<forall>i \<in> set cs. i < length (reg_backends reg1)" by (auto simp: reg1(1))
  obtain es0 r0 where tc: "try_candidates (pe_http env) (reg_backends reg1) req kc out_body cs = (es0, r0)" by fastforce
  from try_prefix [OF tc] rcs(2) have dist: "distinct (map fst (sends es0))" by (auto simp: prefix_def)
  note snd = try_sends [OF tc] and fin = assms(3) [unfolded routed(2) tc]
  show ?thesis
  proof (cases r0)
    case (Inl o')
    with try_no_panic [OF rcs(1,3) tc] have "o' = Some upstream_unavailable_response" by simp
    with fin inv dist snd show ?thesis by (auto simp: finished_def Inl upstream_unavailable_response_def)
  next
    case ok: (Inr p)
    obtain i resp where p: "p = (i, resp)" by (cases p)
    from snd obtain before uq where "sends es0 = before @ [(i, uq)]" "hc_execute (pe_http env) i uq = Inr resp"
      "list_all (refused (pe_http env)) before" by (auto simp: ok p)
    with fin inv dist snd show ?thesis
      by (cases "pe_response_error env") (auto simp: finished_def ok p error_response_def)
  qed
qed

lemma proxy_handler_shape:
  "case validate_client_key_bounded (hc_to_str (pe_http env)) (pe_sha256_hex env) (pe_lookup env) (pe_slot env)
           (pr_headers req) of
      Invalid \<Rightarrow> proxy_handler env req reg = ([], reg, Reply unauthorized_response)
    | KeyError e \<Rightarrow> proxy_handler env req reg = ([], reg, Reply (error_response 500 ''internal error''))
    | Valid k \<Rightarrow> (\<exists>mid. request_trace env req reg answers = AcquireSlot (Some (vk_user_id k)) # mid @ [ReleaseSlot] \<and>
                    attempts mid \<and> recorded_keys mid \<subseteq> {Some (vk_key_id k)})
    | NotPresent \<Rightarrow>
        if pe_require_api_key env then proxy_handler env req reg = ([], reg, Reply unauthorized_response)
        else (\<exists>mid. request_trace env req reg answers = AcquireSlot None # mid @ [ReleaseSlot] \<and>
                attempts mid \<and> recorded_keys mid \<subseteq> {None})"
proof -
  have cons: "whole_trace env answers (case p of (es, x) \<Rightarrow> (e # es, x)) = e # whole_trace env answers p" for e p
    by (cases p) (auto simp: whole_trace_def split: outcome.splits)
  show ?thesis
  proof (cases "validate_client_key_bounded (hc_to_str (pe_http env)) (pe_sha256_hex env) (pe_lookup env) (pe_slot env)
           (pr_headers req)")
    case NotPresent
    from admitted_shape [of env answers req reg None False] obtain mid where
      "whole_trace env answers (proxy_admitted env req reg None False) = mid @ [ReleaseSlot]" "attempts mid"
      "recorded_keys mid \<subseteq> {None}" by auto
    with NotPresent show ?thesis by (auto simp: proxy_handler_def request_trace_whole cons)
  next
    case (Valid k)
    from admitted_shape [of env answers req reg "Some (vk_key_id k, vk_user_id k)" True] obtain mid where
      "whole_trace env answers (proxy_admitted env req reg (Some (vk_key_id k, vk_user_id k)) True) = mid @ [ReleaseSlot]"
      "attempts mid" "recorded_keys mid \<subseteq> {Some (vk_key_id k)}" by auto
    with Valid show ?thesis by (auto simp: proxy_handler_def request_trace_whole cons)
  qed (simp_all add: proxy_handler_def)
qed

lemma proxy_admission_cases:
  "request_trace env req reg answers = [] \<or>
   (\<exists>u mid. request_trace env req reg answers = AcquireSlot u # mid @ [ReleaseSlot] \<and> attempts mid)"
  using proxy_handler_shape [of env req reg answers]
  by (cases "validate_client_key_bounded (hc_to_str (pe_http env)) (pe_sha256_hex env) (pe_lookup env) (pe_slot env)
           (pr_headers req)")
     (auto simp: request_trace_whole whole_trace_def split: if_splits)

section \<open>Properties\<close>

text \<open>
  C2: Nobody is proxied without being authenticated first, and usage is booked on the key that was
  presented. With an invalid key, with none while keys are required, or when the lookup fails, the handler
  answers 401 or 500 and has no effect at all: no slot is taken and no upstream is contacted. Every other
  request takes one admission slot under the key's user before anything else, makes its attempts, and gives
  the slot back as its last effect; whatever usage it records carries the identifier of the key.
\<close>

theorem proxy_admission_guarded:
  fixes answers :: "('e + string) option list"
  shows "case validate_client_key_bounded (hc_to_str (pe_http env)) (pe_sha256_hex env) (pe_lookup env) (pe_slot env)
           (pr_headers req) of
      Invalid \<Rightarrow> proxy_handler env req reg = ([], reg, Reply unauthorized_response)
    | KeyError e \<Rightarrow> proxy_handler env req reg = ([], reg, Reply (error_response 500 ''internal error''))
    | Valid k \<Rightarrow> (\<exists>mid. request_trace env req reg answers = AcquireSlot (Some (vk_user_id k)) # mid @ [ReleaseSlot] \<and>
                    attempts mid \<and> recorded_keys mid \<subseteq> {Some (vk_key_id k)})
    | NotPresent \<Rightarrow>
        if pe_require_api_key env then proxy_handler env req reg = ([], reg, Reply unauthorized_response)
        else (\<exists>mid. request_trace env req reg answers = AcquireSlot None # mid @ [ReleaseSlot] \<and>
                attempts mid \<and> recorded_keys mid \<subseteq> {None})"
  by (rule proxy_handler_shape)

text \<open>
  C4: However many requests are in flight and however their effects interleave, nothing leaks and nothing
  is given back twice. At every moment the load slots, the meters and the admission slots taken are at
  least those released, and once the requests are over as many were released as were taken, whether a
  request was answered, refused, failed over, cut off by its client or ended in a panic.
\<close>

theorem requests_release_resources:
  "interleavings (map (\<lambda>(env, req, reg, answers :: ('e + string) option list). request_trace env req reg answers) rs)
     \<subseteq> {es. resources_bracketed es}"
proof -
  have one: "resources_bracketed (request_trace env req reg answers)"
    for env req reg and answers :: "('e + string) option list"
  proof -
    have "resources_bracketed []" by (simp add: resources_bracketed_def bracketed_none)
    with proxy_admission_cases [of env req reg answers] show ?thesis
      by (auto simp: attempts_bracketed simp del: append_Cons)
  qed
  show ?thesis
  proof
    fix es
    assume es: "es \<in> interleavings (map (\<lambda>(env, req, reg, answers :: ('e + string) option list). request_trace env req reg answers) rs)"
    have "\<forall>t \<in> set (map (\<lambda>(env, req, reg, answers :: ('e + string) option list). request_trace env req reg answers) rs).
        resources_bracketed t" using one by auto
    then have "resources_bracketed es"
      unfolding resources_bracketed_def by (intro conjI allI bracketed_interleavings [OF es]) auto
    then show "es \<in> {es. resources_bracketed es}" by simp
  qed
qed

text \<open>
  C1: Failover never executes a completion twice. On a consistent registry the handler does not panic; it
  tries each backend at most once, and of all the requests it sends at most one can have reached an
  upstream: every other one failed to connect. A streamed response is that of the backend tried last, with
  its status and its headers as the header filter lets them through; every other outcome is an error
  response of the proxy.
\<close>

theorem failover_at_most_once:
  assumes "reg_inv reg" "score_sort (pe_sort_scores env)"
  shows "case proxy_handler env req reg of (es, reg', r) \<Rightarrow>
    reg_inv reg' \<and> r \<noteq> Panicked \<and> distinct (map fst (sends es)) \<and>
    length (filter (\<lambda>p. \<not> refused (pe_http env) p) (sends es)) \<le> 1 \<and>
    (case r of
       Streaming i status headers kind ctx \<Rightarrow>
         (\<exists>before uq resp. sends es = before @ [(i, uq)] \<and> list_all (refused (pe_http env)) before \<and>
            hc_execute (pe_http env) i uq = Inr resp \<and> status = ur_status resp \<and>
            headers = forward_response_headers (hc_to_str (pe_http env)) (ur_headers resp))
     | Reply resp \<Rightarrow> r_status resp \<in> {400, 401, 404, 413, 500, 502}
     | Panicked \<Rightarrow> False)"
proof -
  obtain es reg' r where ph: "proxy_handler env req reg = (es, reg', r)" by (metis prod_cases3)
  have adm: ?thesis if "proxy_admitted env req reg info kc = (es', reg', r)" "es = AcquireSlot u # es'" for info kc u es'
    using admitted_outcome [OF assms that(1)] that(2) ph by (auto split: outcome.splits)
  show ?thesis
  proof (cases "validate_client_key_bounded (hc_to_str (pe_http env)) (pe_sha256_hex env) (pe_lookup env) (pe_slot env)
           (pr_headers req)")
    case NotPresent
    with ph assms(1) adm show ?thesis
      by (auto simp: proxy_handler_def unauthorized_response_def split: if_splits prod.splits)
  next
    case (Valid k)
    with ph adm show ?thesis by (auto simp: proxy_handler_def split: prod.splits)
  qed (use assms(1) in \<open>auto simp: proxy_handler_def unauthorized_response_def error_response_def\<close>)
qed

text \<open>Two backends serve the model; the first refuses the connection, the second answers.\<close>

definition demo_client :: http_client where
  "demo_client =
     \<lparr>hc_to_str = Some, hc_header_name = Some, hc_header_value = Some, hc_build_error = (\<lambda>_. None),
      hc_execute = (\<lambda>i uq. if i = 0 then Inl \<lparr>ee_is_connect = True, ee_text = ''refused''\<rparr>
                           else Inr \<lparr>ur_status = 200, ur_headers = []\<rparr>)\<rparr>"

definition demo_env :: proxy_env where
  "demo_env =
     \<lparr>pe_http = demo_client, pe_sha256_hex = id, pe_lookup = (\<lambda>_. Inr None), pe_slot = None, pe_require_api_key = False,
      pe_read_body = (\<lambda>_. Inr ''x''), pe_from_slice = (\<lambda>_. Some (Object [(''model'', String ''m'')])), pe_to_vec = (\<lambda>_. None),
      pe_fx_hash = (\<lambda>_. 0), pe_sort_scores = demo_sort, pe_score = (\<lambda>_ _. 0), pe_response_error = None\<rparr>"

definition demo_request :: proxy_request where
  "demo_request = \<lparr>pr_method = ''POST'', pr_path = ''/v1/embeddings'', pr_path_and_query = None, pr_headers = []\<rparr>"

lemma demo_body:
  "prepare_body (\<lambda>_. Some (Object [(''model'', String ''m'')])) (\<lambda>_. None) (\<lambda>_. 0) ''/v1/embeddings'' ''x'' = (''x'', Some ''m'', None)"
  by (simp add: prepare_body_def compute_prefix_hash_def starts_with_def ends_with_def Let_def)

lemma demo_route:
  "route_candidates demo_sort (\<lambda>_ _. 0) demo_reg \<lparr>rr_model = Some ''m'', rr_prefix_hash = None\<rparr> = Inr (Inr [0, 1], demo_reg)"
  by (simp add: route_candidates_def demo_reg_def ordered_candidates_def strategy_placement_def load_of_def)

lemma demo_handler:
  "\<exists>es headers kind ctx. proxy_handler demo_env demo_request demo_reg = (es, demo_reg, Streaming 1 200 headers kind ctx) \<and>
     map fst (sends es) = [0, 1]"
proof -
  have "length (reg_backends demo_reg) = 2" "reg_backends demo_reg \<noteq> []" by (simp_all add: demo_reg_def)
  then show ?thesis
    by (simp add: proxy_handler_def validate_client_key_bounded_def extract_client_key_def demo_request_def header_get_def
          demo_env_def proxy_admitted_def demo_body demo_route demo_client_def Let_def)
qed

theorem failover_at_most_once_witness:
  "\<exists>es reg' headers kind ctx before uq.
     proxy_handler demo_env demo_request demo_reg = (es, reg', Streaming 1 200 headers kind ctx) \<and>
     map fst (sends es) = [0, 1] \<and> sends es = before @ [(1, uq)] \<and> list_all (refused demo_client) before"
proof -
  have "score_sort (pe_sort_scores demo_env)" by (simp add: demo_env_def demo_sort_ok)
  from failover_at_most_once [OF demo_inv this, of demo_request] demo_handler show ?thesis
    by (auto simp: demo_env_def)
qed

end
