(* ===== verification/Accounting.thy ===== *)
theory Accounting
  imports Proxy Sink "HOL-Library.Multiset"
begin

text \<open>
  The accounting pipeline as a whole: the usage that requests record (\<open>proxy/mod.rs\<close>, \<open>proxy/stream.rs\<close>) goes through the
  bounded queue of the writer (\<open>sink.rs\<close>) into the table of the usage store (\<open>twl-store/src/usage.rs\<close>), interleaved with
  the energy records of the meters. One step function composes the operations of the three components.
\<close>

section \<open>The pipeline\<close>

text \<open>
  What happens, in order: an effect of some request, a record of an energy meter, a turn of the writer thread with the clock
  and the failures its statement meets, and the end of the thread.
\<close>

datatype accounting_event =
    RequestEffect effect
  | MeterRecord f64 f64
  | WriterTurn "int option" "db_error option" "db_error option"
  | WriterStop

fun accounting_step :: "accounting_writer \<times> usage_db \<Rightarrow> accounting_event \<Rightarrow> accounting_writer \<times> usage_db" where
  "accounting_step (w, db) (RequestEffect e) = (case e of RecordUsage u \<Rightarrow> (snd (record_usage u w), db) | _ \<Rightarrow> (w, db))"
| "accounting_step (w, db) (MeterRecord secs watts) = (sink_record_energy secs watts w, db)"
| "accounting_step (w, db) (WriterTurn clock pool exec) =
     (case aw_queue w of
        r # _ \<Rightarrow> if aw_receiver w then (writer_turn w, persist clock pool exec r db) else (w, db)
      | [] \<Rightarrow> (w, db))"
| "accounting_step (w, db) WriterStop = (w\<lparr>aw_receiver := False\<rparr>, db)"

definition effects_of :: "accounting_event list \<Rightarrow> effect list" where
  "effects_of evs = List.map_filter (\<lambda>ev. case ev of RequestEffect e \<Rightarrow> Some e | _ \<Rightarrow> None) evs"

definition bookings :: "effect list \<Rightarrow> usage list" where
  "bookings es = List.map_filter (\<lambda>e. case e of RecordUsage u \<Rightarrow> Some u | _ \<Rightarrow> None) es"

definition usages_in :: "accounting_record list \<Rightarrow> usage list" where
  "usages_in rs = List.map_filter (\<lambda>r. case r of Usage u \<Rightarrow> Some u | Energy _ _ \<Rightarrow> None) rs"

definition row_usage :: "token_row \<Rightarrow> usage" where
  "row_usage t =
     \<lparr>u_model = tr_model t, u_endpoint = tr_endpoint t, u_input_tokens = tr_input_tokens t, u_output_tokens = tr_output_tokens t,
      u_cached_tokens = tr_cached_tokens t, u_total_tokens = tr_total_tokens t, u_api_key_id = tr_api_key_id t\<rparr>"

text \<open>What one request books: the usage its response body showed, under the key it presented, and nothing otherwise.\<close>

definition booked :: "proxy_env \<Rightarrow> proxy_request \<Rightarrow> registry \<Rightarrow> ('e + string) option list \<Rightarrow> usage list" where
  "booked env req reg answers =
     (case proxy_handler env req reg of
        (_, _, Streaming i status headers kind ctx) \<Rightarrow>
          (case recorder_usage (ac_api_key_id ctx) (fst (accounting_body (pe_from_slice env) kind ctx answers)) of
             Some u \<Rightarrow> [u]
           | None \<Rightarrow> [])
      | _ \<Rightarrow> [])"

text \<open>What an event hands to the writer.\<close>

fun offer_of :: "accounting_event \<Rightarrow> accounting_record option" where
  "offer_of (RequestEffect (RecordUsage u)) = Some (Usage u)"
| "offer_of (MeterRecord secs watts) = Some (Energy secs watts)"
| "offer_of _ = None"

definition metered :: "accounting_event list \<Rightarrow> (f64 \<times> f64) list" where
  "metered evs = List.map_filter (\<lambda>ev. case ev of MeterRecord secs watts \<Rightarrow> Some (secs, watts) | _ \<Rightarrow> None) evs"

definition energies_in :: "accounting_record list \<Rightarrow> (f64 \<times> f64) list" where
  "energies_in rs = List.map_filter (\<lambda>r. case r of Energy secs watts \<Rightarrow> Some (secs, watts) | Usage _ \<Rightarrow> None) rs"

definition row_energy :: "energy_row \<Rightarrow> f64 \<times> f64" where
  "row_energy e = (en_elapsed_secs e, en_gpu_watts e)"

text \<open>
  Nothing is lost along the way: the queue has room for every record, and every record that is taken is stored, which an
  energy record that is not finite or negative never is.
\<close>

fun storable :: "accounting_record \<Rightarrow> usage_db \<Rightarrow> bool" where
  "storable (Usage u) db \<longleftrightarrow> ud_token_seq db \<noteq> i64_max"
| "storable (Energy secs watts) db \<longleftrightarrow>
     \<not> list_ex (\<lambda>v. \<not> is_finite v \<or> f_lt v (Fin 0)) [secs, watts] \<and> ud_energy_seq db \<noteq> i64_max"

fun lossless :: "accounting_event list \<Rightarrow> accounting_writer \<times> usage_db \<Rightarrow> bool" where
  "lossless [] s = True"
| "lossless (ev # evs) s =
     ((case offer_of ev of Some r \<Rightarrow> fst (enqueue r (fst s)) | None \<Rightarrow> True) \<and>
      (case ev of
         WriterTurn clock pool exec \<Rightarrow>
           clock \<noteq> None \<and> pool = None \<and> exec = None \<and> (case aw_queue (fst s) of r # _ \<Rightarrow> storable r (snd s) | [] \<Rightarrow> True)
       | _ \<Rightarrow> True) \<and> lossless evs (accounting_step s ev))"

section \<open>Lemmas\<close>

lemma map_filter_append [simp]: "List.map_filter f (xs @ ys) = List.map_filter f xs @ List.map_filter f ys"
  by (simp add: List.map_filter_def)

lemma map_filter_Cons: "List.map_filter f (x # xs) = (case f x of Some y \<Rightarrow> y # List.map_filter f xs | None \<Rightarrow> List.map_filter f xs)"
  by (simp add: List.map_filter_def split: option.split)

lemma map_filter_Nil [simp]: "List.map_filter f [] = []"
  by (simp add: List.map_filter_def)

lemma bookings_simps [simp]:
  "bookings [] = []" "bookings (xs @ ys) = bookings xs @ bookings ys"
  "bookings (RecordUsage u # es) = u # bookings es"
  "bookings (AcquireSlot k # es) = bookings es" "bookings (ReleaseSlot # es) = bookings es"
  "bookings (LeaveMeter i # es) = bookings es" "bookings (LeaveLoad i # es) = bookings es"
  by (simp_all add: bookings_def map_filter_Cons)

lemma bookings_none: "(\<And>u. RecordUsage u \<notin> set es) \<Longrightarrow> bookings es = []"
  by (induction es) (auto simp: bookings_def map_filter_Cons split: effect.split)

lemma mset_map_filter_cong: "mset xs = mset ys \<Longrightarrow> mset (List.map_filter f xs) = mset (List.map_filter f ys)"
  by (simp add: List.map_filter_def)

lemma bookings_interleavings:
  "es \<in> interleavings ts \<Longrightarrow> mset (bookings es) = mset (concat (map bookings ts))"
proof (induction ts arbitrary: es)
  case (Cons t ts)
  then obtain es' where es': "es' \<in> interleavings ts" "es \<in> shuffles t es'" by auto
  then have "mset (bookings es) = mset (bookings (t @ es'))"
    unfolding bookings_def by (intro mset_map_filter_cong) (simp add: mset_shuffles)
  with Cons.IH [OF es'(1)] show ?case by simp
qed simp


lemma admitted_books_nothing:
  assumes "proxy_admitted env req reg info kc = (es, reg', out)"
  shows "bookings es = []"
proof (cases rule: proxy_admitted_cases [of env req reg info kc])
  case (early reg1 r)
  with assms have "es = [ReleaseSlot]" by simp
  then show ?thesis by simp
next
  case (routed rq out_body cs reg1)
  obtain es0 r where t: "try_candidates (pe_http env) (reg_backends reg1) req kc out_body cs = (es0, r)" by fastforce
  then have "bookings es0 = []" by (intro bookings_none) (auto dest: try_records_nothing)
  with routed(2) t assms show ?thesis
    by (auto simp: finished_def split: sum.split_asm option.split_asm prod.split_asm)
qed

lemma handler_books_nothing:
  assumes "proxy_handler env req reg = (es, reg', out)"
  shows "bookings es = []"
  using assms by (auto simp: proxy_handler_def dest: admitted_books_nothing split: client_key_result.split_asm if_split_asm prod.split_asm)

lemma bookings_request: "bookings (request_trace env req reg answers) = booked env req reg answers"
proof -
  obtain es reg' out where h: "proxy_handler env req reg = (es, reg', out)" by (metis prod_cases3)
  show ?thesis using handler_books_nothing [OF h]
    by (cases out) (auto simp: request_trace_def booked_def h recorder_drop_def split: option.split)
qed

section \<open>Kinds of records\<close>

text \<open>
  The contract of one kind of record with its table: persisting a record of the kind appends it to the table or, where a
  failure or the state of the table prevents it, nothing; other records leave the table alone. Whatever meets the contract
  flows through the queue in order, without loss when nothing fails.
\<close>

locale recorded_kind =
  fixes kind :: "accounting_record \<Rightarrow> 'k option" and rows :: "usage_db \<Rightarrow> 'k list"
  assumes persist_rows: "\<exists>ks. rows (persist clock pool exec r db) = rows db @ ks \<and>
      (ks = [] \<or> map Some ks = [kind r]) \<and>
      (clock \<noteq> None \<and> pool = None \<and> exec = None \<and> storable r db \<longrightarrow> ks = List.map_filter kind [r])"
begin

lemma turn_flow:
  assumes "aw_queue w = r # rs" "aw_receiver w"
  shows "\<exists>ks. rows (persist clock pool exec r db) = rows db @ ks \<and>
    subseq (ks @ List.map_filter kind rs) (List.map_filter kind (aw_queue w)) \<and>
    (clock \<noteq> None \<and> pool = None \<and> exec = None \<and> storable r db \<longrightarrow>
       ks @ List.map_filter kind rs = List.map_filter kind (aw_queue w))"
proof -
  from persist_rows [of clock pool exec r db] obtain ks where ks: "rows (persist clock pool exec r db) = rows db @ ks"
    "ks = [] \<or> map Some ks = [kind r]"
    "clock \<noteq> None \<and> pool = None \<and> exec = None \<and> storable r db \<longrightarrow> ks = List.map_filter kind [r]" by (elim exE conjE)
  then show ?thesis using assms by (intro exI [of _ ks]) (auto simp: map_filter_Cons split: option.split)
qed

lemma step_flow:
  assumes "accounting_step (w, db) ev = (w', db')"
  shows "\<exists>ks. rows db' = rows db @ ks \<and>
    subseq (ks @ List.map_filter kind (aw_queue w'))
      (List.map_filter kind (aw_queue w) @ List.map_filter kind (List.map_filter offer_of [ev])) \<and>
    (lossless [ev] (w, db) \<longrightarrow> ks @ List.map_filter kind (aw_queue w') =
       List.map_filter kind (aw_queue w) @ List.map_filter kind (List.map_filter offer_of [ev]))"
proof (cases ev)
  case (RequestEffect e)
  with assms show ?thesis
    by (cases e) (auto simp: record_usage_def enqueue_cases map_filter_Cons split: option.split)
next
  case (MeterRecord secs watts)
  with assms show ?thesis by (auto simp: sink_record_energy_def enqueue_cases map_filter_Cons split: option.split)
next
  case WriterStop
  with assms show ?thesis by (auto simp: map_filter_Cons)
next
  case (WriterTurn clock pool exec)
  then have none: "List.map_filter offer_of [ev] = []" by (simp add: map_filter_Cons)
  show ?thesis
  proof (cases "aw_queue w \<noteq> [] \<and> aw_receiver w")
    case True
    then obtain r rs where q: "aw_queue w = r # rs" by (cases "aw_queue w") auto
    with True assms WriterTurn have w': "aw_queue w' = rs" "db' = persist clock pool exec r db" by (auto simp: writer_turn_def)
    from turn_flow [OF q, of clock pool exec db] True show ?thesis
      unfolding none w' using WriterTurn q by auto
  next
    case False
    with assms WriterTurn none show ?thesis by (cases "aw_queue w") auto
  qed
qed

lemma flow:
  assumes "foldl accounting_step (w, db) evs = (w', db')"
  shows "\<exists>ks. rows db' = rows db @ ks \<and>
    subseq (ks @ List.map_filter kind (aw_queue w'))
      (List.map_filter kind (aw_queue w) @ List.map_filter kind (List.map_filter offer_of evs)) \<and>
    (lossless evs (w, db) \<longrightarrow> ks @ List.map_filter kind (aw_queue w') =
       List.map_filter kind (aw_queue w) @ List.map_filter kind (List.map_filter offer_of evs))"
  using assms
proof (induction evs arbitrary: w db)
  case Nil
  then show ?case by simp
next
  case (Cons ev evs)
  let ?q = "\<lambda>w. List.map_filter kind (aw_queue w)" and ?b = "\<lambda>evs. List.map_filter kind (List.map_filter offer_of evs)"
  obtain w1 db1 where s: "accounting_step (w, db) ev = (w1, db1)" by fastforce
  from step_flow [OF s] obtain ks1 where one: "rows db1 = rows db @ ks1" "subseq (ks1 @ ?q w1) (?q w @ ?b [ev])"
    "lossless [ev] (w, db) \<Longrightarrow> ks1 @ ?q w1 = ?q w @ ?b [ev]" by blast
  from Cons.IH [of w1 db1] Cons.prems s obtain ks2 where two: "rows db' = rows db1 @ ks2" "subseq (ks2 @ ?q w') (?q w1 @ ?b evs)"
    "lossless evs (w1, db1) \<Longrightarrow> ks2 @ ?q w' = ?q w1 @ ?b evs" by auto
  have split: "?b (ev # evs) = ?b [ev] @ ?b evs"
    using map_filter_append [of offer_of "[ev]" evs] by simp
  have "subseq (ks1 @ ks2 @ ?q w') (ks1 @ ?q w1 @ ?b evs)" using two(2) by (simp add: subseq_append')
  also have "subseq \<dots> (?q w @ ?b (ev # evs))"
    using list_emb_append_mono [OF one(2), of "?b evs" "?b evs"] by (simp only: split append_assoc)
  finally have sub: "subseq (ks1 @ ks2 @ ?q w') (?q w @ ?b (ev # evs))" .
  have "ks1 @ ks2 @ ?q w' = ?q w @ ?b (ev # evs)" if l: "lossless (ev # evs) (w, db)"
  proof -
    from l s have "lossless [ev] (w, db)" "lossless evs (w1, db1)" by simp_all
    from one(3) [OF this(1)] two(3) [OF this(2)] show ?thesis by (simp only: split) (metis append_assoc)
  qed
  with one(1) two(1) sub show ?case by (intro exI [of _ "ks1 @ ks2"]) simp
qed

end

interpretation usage_records: recorded_kind "\<lambda>r. case r of Usage u \<Rightarrow> Some u | Energy _ _ \<Rightarrow> None" "\<lambda>db. map row_usage (ud_tokens db)"
proof (unfold_locales, goal_cases)
  case (1 clock pool exec r db)
  show ?case
    by (cases r)
       (auto simp: persist_def record_row_def record_energy_def row_usage_def map_filter_Cons split: option.split)
qed

interpretation energy_records: recorded_kind "\<lambda>r. case r of Energy secs watts \<Rightarrow> Some (secs, watts) | Usage _ \<Rightarrow> None"
    "\<lambda>db. map row_energy (ud_energy db)"
proof (unfold_locales, goal_cases)
  case (1 clock pool exec r db)
  show ?case
    by (cases r)
       (auto simp: persist_def record_row_def record_energy_def row_energy_def map_filter_Cons split: option.split)
qed

lemma offers_split:
  "List.map_filter (\<lambda>r. case r of Usage u \<Rightarrow> Some u | Energy _ _ \<Rightarrow> None) (List.map_filter offer_of evs) = bookings (effects_of evs)"
  "List.map_filter (\<lambda>r. case r of Energy secs watts \<Rightarrow> Some (secs, watts) | Usage _ \<Rightarrow> None) (List.map_filter offer_of evs) = metered evs"
proof (induction evs)
  case (Cons ev evs)
  {
    case 1
    with Cons.IH(1) show ?case
      by (cases ev rule: offer_of.cases) (simp_all add: bookings_def effects_of_def map_filter_Cons)
  next
    case 2
    with Cons.IH(2) show ?case by (cases ev rule: offer_of.cases) (simp_all add: metered_def map_filter_Cons)
  }
qed (simp_all add: effects_of_def metered_def)

section \<open>Properties\<close>

text \<open>
  C5: Usage is accounted end to end. Take any number of requests whose effects interleave in any order, with the energy
  records, the turns of the writer, its stops and the failures of the store at any point. The rows that the usage table has
  gained, followed by the records still waiting, are a subsequence of what the requests booked, and those of the energy table
  of what the meters charged: nothing is invented, counted twice, altered or reordered. When the queue always had room and no statement failed they are all of it. And what was
  booked is what each request booked on its own: the usage its response body showed, once, under the key it presented.
\<close>

theorem usage_accounted_end_to_end:
  fixes rs :: "(proxy_env \<times> proxy_request \<times> registry \<times> ('e + string) option list) list"
  assumes "effects_of evs \<in> interleavings (map (\<lambda>(env, req, reg, answers). request_trace env req reg answers) rs)"
  shows "case foldl accounting_step (spawn, db) evs of (w, db') \<Rightarrow>
    (\<exists>us. map row_usage (ud_tokens db') = map row_usage (ud_tokens db) @ us \<and>
       subseq (us @ usages_in (aw_queue w)) (bookings (effects_of evs)) \<and>
       (lossless evs (spawn, db) \<longrightarrow> us @ usages_in (aw_queue w) = bookings (effects_of evs))) \<and>
    (\<exists>ps. map row_energy (ud_energy db') = map row_energy (ud_energy db) @ ps \<and>
       subseq (ps @ energies_in (aw_queue w)) (metered evs) \<and>
       (lossless evs (spawn, db) \<longrightarrow> ps @ energies_in (aw_queue w) = metered evs)) \<and>
    mset (bookings (effects_of evs)) = mset (concat (map (\<lambda>(env, req, reg, answers). booked env req reg answers) rs))"
proof -
  obtain w db' where run: "foldl accounting_step (spawn, db) evs = (w, db')" by fastforce
  have "aw_queue spawn = []" by (simp add: spawn_def spawn_with_def)
  with usage_records.flow [OF run] energy_records.flow [OF run]
  have flow: "\<exists>us. map row_usage (ud_tokens db') = map row_usage (ud_tokens db) @ us \<and>
       subseq (us @ usages_in (aw_queue w)) (bookings (effects_of evs)) \<and>
       (lossless evs (spawn, db) \<longrightarrow> us @ usages_in (aw_queue w) = bookings (effects_of evs))"
    "\<exists>ps. map row_energy (ud_energy db') = map row_energy (ud_energy db) @ ps \<and>
       subseq (ps @ energies_in (aw_queue w)) (metered evs) \<and>
       (lossless evs (spawn, db) \<longrightarrow> ps @ energies_in (aw_queue w) = metered evs)"
    by (simp_all add: offers_split usages_in_def energies_in_def)
  have each: "map bookings (map (\<lambda>(env, req, reg, answers). request_trace env req reg answers) rs) =
      map (\<lambda>(env, req, reg, answers). booked env req reg answers) rs"
    by (auto simp: bookings_request)
  have "mset (bookings (effects_of evs)) = mset (concat (map (\<lambda>(env, req, reg, answers). booked env req reg answers) rs))"
    using bookings_interleavings [OF assms] by (simp only: each)
  with flow run show ?thesis by simp
qed

text \<open>A request with a usage report in its answer, and the turn of the writer that stores it.\<close>

definition usage_json :: json where
  "usage_json = Object [(''model'', String ''m''), (''usage'', Object [(''prompt_tokens'', Number (PosInt 3)),
     (''completion_tokens'', Number (PosInt 4))])]"

definition usage_env :: proxy_env where
  "usage_env = demo_env\<lparr>pe_from_slice := (\<lambda>_. Some usage_json)\<rparr>"

definition usage_answers :: "(unit + string) option list" where
  "usage_answers = [Some (Inr ''x''), None]"

definition usage_events :: "accounting_event list" where
  "usage_events = map RequestEffect (request_trace usage_env demo_request demo_reg usage_answers) @ [WriterTurn (Some 7) None None]"

definition usage_seen :: usage where
  "usage_seen = \<lparr>u_model = ''m'', u_endpoint = ''/v1/embeddings'', u_input_tokens = 3, u_output_tokens = 4, u_cached_tokens = 0,
     u_total_tokens = 7, u_api_key_id = None\<rparr>"

lemma usage_body:
  "prepare_body (\<lambda>_. Some usage_json) (\<lambda>_. None) (\<lambda>_. 0) ''/v1/embeddings'' ''x'' = (''x'', Some ''m'', None)"
  by (simp add: prepare_body_def compute_prefix_hash_def starts_with_def ends_with_def Let_def usage_json_def)

lemma usage_classified: "classify Some \<lparr>ur_status = 200, ur_headers = []\<rparr> = Buffered True"
  by code_simp

lemma usage_extracted: "extract_usage usage_json ''/v1/embeddings'' (Some ''m'') = Some usage_seen"
  by code_simp

lemma usage_accounted:
  "fst (accounting_body (\<lambda>_. Some usage_json) (Buffered True)
     \<lparr>ac_endpoint = ''/v1/embeddings'', ac_req_model = Some ''m'', ac_api_key_id = None\<rparr> usage_answers) = Some usage_seen"
  by (simp add: accounting_body_def usage_answers_def buffered_accounting_poll_def body_poll_def body_stream_new_def body_finish_def
        bounded_buffer_new_def bounded_buffer_push_def bounded_buffer_complete_def MAX_ACCOUNTING_BUFFER_def opt_filter_def
        finalize_buffered_usage_def usage_extracted)

lemma usage_trace:
  "\<exists>uq vq. request_trace usage_env demo_request demo_reg usage_answers =
     [AcquireSlot None, EnterLoad 0, EnterMeter 0, SendTo 0 uq, LeaveMeter 0, LeaveLoad 0, EnterLoad 1, EnterMeter 1, SendTo 1 vq,
      RecordUsage usage_seen, LeaveMeter 1, LeaveLoad 1, ReleaseSlot]"
proof -
  have "length (reg_backends demo_reg) = 2" "reg_backends demo_reg \<noteq> []" by (simp_all add: demo_reg_def)
  moreover have "recorder_usage None (Some usage_seen) = Some usage_seen" by (simp add: recorder_usage_def usage_seen_def)
  ultimately show ?thesis
    by (simp add: request_trace_def proxy_handler_def validate_client_key_bounded_def extract_client_key_def demo_request_def
          header_get_def usage_env_def demo_env_def proxy_admitted_def usage_body demo_route demo_client_def Let_def
          usage_classified usage_accounted recorder_drop_def)
qed

theorem usage_accounted_end_to_end_witness:
  "case foldl accounting_step (spawn, usage_empty) usage_events of (w, db') \<Rightarrow>
     map row_usage (ud_tokens db') @ usages_in (aw_queue w) = [usage_seen]"
proof -
  let ?rs = "[(usage_env, demo_request, demo_reg, usage_answers)]"
  obtain uq vq where t: "request_trace usage_env demo_request demo_reg usage_answers =
     [AcquireSlot None, EnterLoad 0, EnterMeter 0, SendTo 0 uq, LeaveMeter 0, LeaveLoad 0, EnterLoad 1, EnterMeter 1, SendTo 1 vq,
      RecordUsage usage_seen, LeaveMeter 1, LeaveLoad 1, ReleaseSlot]" using usage_trace by blast
  have effects: "effects_of usage_events = request_trace usage_env demo_request demo_reg usage_answers"
    by (simp add: usage_events_def t effects_of_def map_filter_Cons)
  then have mem: "effects_of usage_events \<in> interleavings (map (\<lambda>(env, req, reg, answers). request_trace env req reg answers) ?rs)"
    by simp
  have "lossless usage_events (spawn, usage_empty)"
    by (simp add: usage_events_def t record_usage_def enqueue_cases spawn_def spawn_with_def ACCOUNTING_QUEUE_CAPACITY_def
          usage_empty_def i64_max_def)
  moreover have "bookings (effects_of usage_events) = [usage_seen]" by (simp add: effects t bookings_def map_filter_Cons)
  moreover obtain w db' where "foldl accounting_step (spawn, usage_empty) usage_events = (w, db')" by fastforce
  ultimately show ?thesis
    using usage_accounted_end_to_end [OF mem, of usage_empty] by (simp add: usage_empty_def)
qed

end
