(* ===== verification/Pricing.thy ===== *)
theory Pricing
  imports F64
begin

text \<open>
  The price table and the cost of a usage record (\<open>crates/twl-pricing/src/lib.rs\<close>): \<open>ModelPrice\<close>,
  \<open>Cost\<close> and \<open>Pricing\<close> as records, \<open>normalize_rate\<close>, \<open>clamp_finite_non_negative\<close>,
  \<open>Pricing::sanitized\<close>, \<open>Pricing::load\<close> and \<open>Pricing::cost\<close>. The file read and the JSON
  deserializer are arguments of \<open>pricing_load\<close>; log lines are not modelled.
\<close>

section \<open>Data\<close>

record model_price =
  p_input :: f64
  p_output :: f64
  p_input_cached :: f64

record cost_split =
  c_input :: f64
  c_input_cached :: f64
  c_output :: f64
  c_total :: f64

record pricing =
  currency :: string
  unit_tokens :: f64
  models :: "string \<rightharpoonup> model_price"

definition default_currency :: string where
  "default_currency = ''USD''"

definition default_unit :: f64 where
  "default_unit = Fin 1000000"

definition cost_default :: cost_split where
  "cost_default = \<lparr>c_input = Fin 0, c_input_cached = Fin 0, c_output = Fin 0, c_total = Fin 0\<rparr>"

definition pricing_default :: pricing where
  "pricing_default = \<lparr>currency = default_currency, unit_tokens = default_unit, models = Map.empty\<rparr>"

section \<open>Sanitizing\<close>

definition clamp_finite_non_negative :: "f64 \<Rightarrow> f64" where
  "clamp_finite_non_negative v = (if is_finite v \<and> f_le (Fin 0) v then v else Fin 0)"

definition normalize_rate :: "f64 \<Rightarrow> f64" where
  "normalize_rate value = (if \<not> is_finite value \<or> f_lt value (Fin 0) then Fin 0 else value)"

definition sanitize_price :: "model_price \<Rightarrow> model_price" where
  "sanitize_price price =
     (let norm_input = normalize_rate (p_input price);
          norm_output = normalize_rate (p_output price);
          norm_cached = normalize_rate (p_input_cached price)
      in if \<not> f_eq norm_input (p_input price) \<or> \<not> f_eq norm_output (p_output price)
            \<or> \<not> f_eq norm_cached (p_input_cached price)
         then price\<lparr>p_input := norm_input, p_output := norm_output, p_input_cached := norm_cached\<rparr>
         else price)"

definition sanitized :: "pricing \<Rightarrow> pricing" where
  "sanitized p =
     (let p' = (if \<not> is_finite (unit_tokens p) \<or> f_le (unit_tokens p) (Fin 0)
                then p\<lparr>unit_tokens := default_unit\<rparr> else p)
      in p'\<lparr>models := (\<lambda>name. map_option sanitize_price (models p' name))\<rparr>)"

definition pricing_load :: "(string \<Rightarrow> 'e + string) \<Rightarrow> (string \<Rightarrow> 'f + pricing) \<Rightarrow> string \<Rightarrow> pricing" where
  "pricing_load read_to_string from_str path =
     (case read_to_string path of
        Inr text \<Rightarrow> (case from_str text of
            Inr p \<Rightarrow> sanitized p
          | Inl _ \<Rightarrow> pricing_default)
      | Inl _ \<Rightarrow> pricing_default)"

section \<open>Cost\<close>

text \<open>The quantization suffix: \<open>model.split(':').next()\<close>.\<close>

definition base_model :: "string \<Rightarrow> string" where
  "base_model model = takeWhile (\<lambda>c. c \<noteq> CHR '':'') model"

definition price_entry :: "pricing \<Rightarrow> string \<Rightarrow> model_price option" where
  "price_entry p model =
     (case models p model of Some e \<Rightarrow> Some e | None \<Rightarrow> models p (base_model model))"

definition cost :: "pricing \<Rightarrow> string \<Rightarrow> int \<Rightarrow> int \<Rightarrow> int \<Rightarrow> cost_split" where
  "cost self model input output cached =
     (case price_entry self model of
        None \<Rightarrow> cost_default
      | Some p \<Rightarrow>
          (let unit = (if is_finite (unit_tokens self) \<and> f_lt (Fin 0) (unit_tokens self)
                       then unit_tokens self else Fin 1000000);
               rate_input = normalize_rate (p_input p);
               rate_output = normalize_rate (p_output p);
               rate_cached = normalize_rate (p_input_cached p);
               billable_input = f_of_int (max (saturating_sub input cached) 0);
               input_cost = clamp_finite_non_negative (f_div (f_mul billable_input rate_input) unit);
               input_cached_cost =
                 clamp_finite_non_negative (f_div (f_mul (f_of_int (max cached 0)) rate_cached) unit);
               output_cost =
                 clamp_finite_non_negative (f_div (f_mul (f_of_int (max output 0)) rate_output) unit);
               total = clamp_finite_non_negative (f_add (f_add input_cost input_cached_cost) output_cost)
           in \<lparr>c_input = input_cost, c_input_cached = input_cached_cost, c_output = output_cost,
               c_total = total\<rparr>))"

section \<open>Lemmas\<close>

text \<open>The values a cost field may take.\<close>

definition cost_value :: "f64 \<Rightarrow> bool" where
  "cost_value v \<longleftrightarrow> is_finite v \<and> f_le (Fin 0) v"

lemma cost_value_iff: "cost_value v \<longleftrightarrow> (\<exists>x. v = Fin x \<and> 0 \<le> x)"
  by (cases v) (auto simp: cost_value_def is_finite_def)

lemma clamp_value [simp]: "cost_value (clamp_finite_non_negative v)"
  by (auto simp: clamp_finite_non_negative_def cost_value_def is_finite_def)

lemma clamp_id: "cost_value v \<Longrightarrow> clamp_finite_non_negative v = v"
  by (auto simp: clamp_finite_non_negative_def cost_value_def)

lemma normalize_rate_value [simp]: "cost_value (normalize_rate v)"
  by (cases v) (auto simp: normalize_rate_def cost_value_def is_finite_def)

lemma normalize_rate_id: "cost_value v \<Longrightarrow> normalize_rate v = v"
  by (cases v) (auto simp: normalize_rate_def cost_value_def is_finite_def)

lemma f_eq_Fin: "f_eq (Fin x) v \<longleftrightarrow> v = Fin x"
  by (cases v) auto

lemma sanitize_price_eq:
  "sanitize_price e = e\<lparr>p_input := normalize_rate (p_input e), p_output := normalize_rate (p_output e),
     p_input_cached := normalize_rate (p_input_cached e)\<rparr>"
proof -
  have eq: "f_eq (normalize_rate v) v \<longleftrightarrow> normalize_rate v = v" for v
    using normalize_rate_value [of v] by (auto simp: cost_value_iff f_eq_Fin)
  show ?thesis by (cases e) (auto simp: sanitize_price_def eq Let_def)
qed

lemma normalize_idem [simp]: "normalize_rate (normalize_rate v) = normalize_rate v"
  by (simp add: normalize_rate_id)

lemma sanitized_unit:
  "unit_tokens (sanitized p) =
     (if is_finite (unit_tokens p) \<and> f_lt (Fin 0) (unit_tokens p) then unit_tokens p else Fin 1000000)"
  by (cases "unit_tokens p") (auto simp: sanitized_def default_unit_def is_finite_def Let_def)

lemma sanitized_unit_ok: "is_finite (unit_tokens (sanitized p)) \<and> f_lt (Fin 0) (unit_tokens (sanitized p))"
  by (simp add: sanitized_unit is_finite_def)

lemma sanitized_models: "models (sanitized p) name = map_option sanitize_price (models p name)"
  by (simp add: sanitized_def Let_def)

lemma price_entry_sanitized: "price_entry (sanitized p) m = map_option sanitize_price (price_entry p m)"
  by (simp add: price_entry_def sanitized_models split: option.splits)

section \<open>Properties\<close>


text \<open>
  Sanitizing a table at load time never changes a bill: \<open>cost\<close> on the sanitized table equals
  \<open>cost\<close> on the raw one, sanitizing twice is sanitizing once, and afterwards the unit is positive
  and every rate finite and non-negative.
\<close>

theorem sanitized_preserves_cost:
  "cost (sanitized p) model i out c = cost p model i out c \<and>
   sanitized (sanitized p) = sanitized p \<and>
   is_finite (unit_tokens (sanitized p)) \<and> f_lt (Fin 0) (unit_tokens (sanitized p)) \<and>
   (\<forall>name e. models (sanitized p) name = Some e \<longrightarrow>
      cost_value (p_input e) \<and> cost_value (p_output e) \<and> cost_value (p_input_cached e))"
proof -
  have "models (sanitized (sanitized p)) = models (sanitized p)"
    by (rule ext) (simp add: sanitized_models option.map_comp comp_def sanitize_price_eq cong: map_option_cong)
  moreover have "unit_tokens (sanitized (sanitized p)) = unit_tokens (sanitized p)"
    by (subst sanitized_unit) (simp add: sanitized_unit_ok)
  moreover have "currency (sanitized (sanitized p)) = currency (sanitized p)"
    by (simp add: sanitized_def Let_def)
  ultimately have idem: "sanitized (sanitized p) = sanitized p" by simp
  have same: "cost (sanitized p) model i out c = cost p model i out c"
  proof (cases "price_entry p model")
    case (Some e)
    then show ?thesis
      by (simp add: cost_def price_entry_sanitized sanitized_unit_ok sanitize_price_eq)
         (simp add: sanitized_unit)
  qed (simp add: cost_def price_entry_sanitized)
  show ?thesis
    using same idem sanitized_unit_ok by (auto simp: sanitized_models sanitize_price_eq)
qed

definition pricing_demo :: pricing where
  "pricing_demo = \<lparr>currency = ''USD'', unit_tokens = NaN,
     models = [''qwen3'' \<mapsto> \<lparr>p_input = Fin 2, p_output = Fin 8, p_input_cached = Inf False\<rparr>]\<rparr>"

theorem sanitized_preserves_cost_witness:
  "cost (sanitized pricing_demo) ''qwen3:8b'' 10 5 2 = cost pricing_demo ''qwen3:8b'' 10 5 2 \<and>
   cost_value (p_input_cached (sanitize_price \<lparr>p_input = Fin 2, p_output = Fin 8, p_input_cached = Inf False\<rparr>))"
  using sanitized_preserves_cost [of pricing_demo "''qwen3:8b''" 10 5 2]
  by (auto simp: sanitized_models pricing_demo_def)

text \<open>The price of one token class, before it is clamped.\<close>

definition class_cost :: "rat \<Rightarrow> rat \<Rightarrow> int \<Rightarrow> f64" where
  "class_cost rate unit n = f_div (f_mul (f_of_int (max n 0)) (Fin rate)) (Fin unit)"

lemma representable_pow2: "0 \<le> e \<Longrightarrow> e \<le> 971 \<Longrightarrow> representable (2 powi e)"
  unfolding representable_def by (rule exI [of _ 1], rule exI [of _ e]) simp

lemma round64_bounded:
  assumes "0 \<le> x" "x \<le> 2 powi e" "0 \<le> e" "e \<le> 971"
  shows "\<exists>y. round64 x = Fin y \<and> 0 \<le> y \<and> y \<le> 2 powi e"
  using ieee.rnd_le_exact [OF representable_pow2 [OF assms(3,4)] assms(2)]
    ieee.rnd_ge_exact [OF _ assms(1)] representable_int [of 0]
  by (cases "round64 x") auto

lemma f_of_int_bounded:
  assumes "in_i64 n"
  shows "\<exists>x. f_of_int (max n 0) = Fin x \<and> 0 \<le> x \<and> x \<le> 2 powi 63"
proof -
  have "max n 0 \<le> 2 ^ 63" using assms by (simp add: machine_int)
  then have "of_int (max n 0) \<le> (of_int (2 ^ 63) :: rat)" by (simp only: of_int_le_iff)
  then show ?thesis unfolding f_of_int_def by (intro round64_bounded) auto
qed

lemma class_cost_bounded:
  assumes "in_i64 n" "0 \<le> rate" "rate \<le> 1000000000" "1 \<le> unit"
  shows "\<exists>x. class_cost rate unit n = Fin x \<and> 0 \<le> x \<and> x \<le> 2 powi 93"
proof -
  from f_of_int_bounded [OF assms(1)] obtain x where x: "f_of_int (max n 0) = Fin x" "0 \<le> x" "x \<le> 2 powi 63" by blast
  have "x * rate \<le> 2 powi 63 * 2 powi 30"
    using x assms by (intro mult_mono) auto
  then have "x * rate \<le> 2 powi 93" by simp
  with round64_bounded [of "x * rate" 93] x assms obtain y where
    y: "round64 (x * rate) = Fin y" "0 \<le> y" "y \<le> 2 powi 93" by auto
  have "y / unit \<le> y" using y assms by (simp add: divide_le_eq mult_le_cancel_left1)
  with round64_bounded [of "y / unit" 93] y assms show ?thesis
    by (auto simp: class_cost_def x)
qed

lemma class_cost_mono:
  assumes "m \<le> n" "in_i64 m" "in_i64 n" "0 \<le> rate" "rate \<le> 1000000000" "1 \<le> unit"
  shows "f_le (class_cost rate unit m) (class_cost rate unit n)"
proof -
  obtain x y where x: "f_of_int (max m 0) = Fin x" "0 \<le> x" "x \<le> 2 powi 63"
    and y: "f_of_int (max n 0) = Fin y" "0 \<le> y" "y \<le> 2 powi 63"
    using f_of_int_bounded assms(2,3) by meson
  have "f_le (f_of_int (max m 0)) (f_of_int (max n 0))"
    unfolding f_of_int_def using assms(1) by (intro ieee.rnd_mono) simp
  then have xy: "x \<le> y" using x y by simp
  have bound: "z * rate \<le> 2 powi 93" if "z \<le> 2 powi 63" "0 \<le> z" for z :: rat
  proof -
    have "z * rate \<le> 2 powi 63 * 2 powi 30" using that assms by (intro mult_mono) auto
    then show ?thesis by simp
  qed
  obtain x' y' where x': "round64 (x * rate) = Fin x'" and y': "round64 (y * rate) = Fin y'"
    using round64_bounded [of "x * rate" 93] round64_bounded [of "y * rate" 93] bound x y assms by auto
  have "f_le (Fin x') (Fin y')"
    unfolding x' [symmetric] y' [symmetric] using xy assms by (intro ieee.rnd_mono mult_right_mono)
  then have "x' / unit \<le> y' / unit" using assms by (simp add: divide_right_mono)
  then have "f_le (round64 (x' / unit)) (round64 (y' / unit))" by (rule ieee.rnd_mono)
  then show ?thesis using assms by (simp add: class_cost_def x y x' y')
qed

lemma f_add_mono: "f_le (Fin a) (Fin b) \<Longrightarrow> f_le (f_add v (Fin a)) (f_add v (Fin b)) \<or> v = NaN"
  by (cases v) (auto intro: ieee.rnd_mono)

lemma cost_class_fields:
  assumes "price_entry p model = Some \<lparr>p_input = Fin ri, p_output = Fin ro, p_input_cached = Fin rc\<rparr>"
    and "unit_tokens p = Fin u" and "1 \<le> u"
    and "0 \<le> ri" "ri \<le> 1000000000" "0 \<le> ro" "ro \<le> 1000000000" "0 \<le> rc" "rc \<le> 1000000000"
    and "in_i64 i" "in_i64 out" "in_i64 c"
  shows "c_input (cost p model i out c) = class_cost ri u (saturating_sub i c)"
    and "c_input_cached (cost p model i out c) = class_cost rc u c"
    and "c_output (cost p model i out c) = class_cost ro u out"
proof -
  have clamp: "clamp_finite_non_negative (class_cost r u n) = class_cost r u n"
    if "in_i64 n" "0 \<le> r" "r \<le> 1000000000" for r n
    using class_cost_bounded [OF that assms(3)] by (intro clamp_id) (auto simp: cost_value_iff)
  have norm: "normalize_rate (Fin r) = Fin r" if "0 \<le> r" for r
    using that by (simp add: normalize_rate_def is_finite_def)
  note defs = cost_def assms(1,2) Let_def norm [OF assms(4)] norm [OF assms(6)] norm [OF assms(8)]
  show "c_input (cost p model i out c) = class_cost ri u (saturating_sub i c)"
    using clamp [of "saturating_sub i c" ri] assms
    by (simp add: defs is_finite_def saturating_sub_def class_cost_def [symmetric])
  show "c_input_cached (cost p model i out c) = class_cost rc u c"
    using clamp [of c rc] assms by (simp add: defs is_finite_def class_cost_def [symmetric])
  show "c_output (cost p model i out c) = class_cost ro u out"
    using clamp [of out ro] assms by (simp add: defs is_finite_def class_cost_def [symmetric])
qed

text \<open>
  With sane prices (rates between 0 and a billion, unit at least one) rounding never turns more
  tokens into a smaller bill: raising the output count raises the output cost and leaves the other
  two classes alone, and raising the cached part of a fixed input raises the cached cost while it
  lowers the full-price one.
\<close>

theorem cost_monotone:
  assumes "price_entry p model = Some \<lparr>p_input = Fin ri, p_output = Fin ro, p_input_cached = Fin rc\<rparr>"
    and "unit_tokens p = Fin u" and "1 \<le> u"
    and "0 \<le> ri" "ri \<le> 1000000000" "0 \<le> ro" "ro \<le> 1000000000" "0 \<le> rc" "rc \<le> 1000000000"
    and "in_i64 i" "in_i64 out" "in_i64 out'" "in_i64 c" "in_i64 c'" and "out \<le> out'" "c \<le> c'"
  shows "f_le (c_output (cost p model i out c)) (c_output (cost p model i out' c')) \<and>
    f_le (c_input_cached (cost p model i out c)) (c_input_cached (cost p model i out' c')) \<and>
    f_le (c_input (cost p model i out' c')) (c_input (cost p model i out c))"
proof -
  note lo = cost_class_fields [OF assms(1-10) assms(11) assms(13)]
    and hi = cost_class_fields [OF assms(1-10) assms(12) assms(14)]
  have "saturating_sub i c' \<le> saturating_sub i c"
    using assms(16) by (simp add: saturating_sub_def sat64_mono)
  then show ?thesis
    unfolding lo hi using assms by (intro conjI class_cost_mono) (simp_all add: saturating_sub_def)
qed

theorem cost_monotone_witness:
  "f_le (c_output (cost (pricing_demo\<lparr>unit_tokens := Fin 1000000, models :=
      [''m'' \<mapsto> \<lparr>p_input = Fin 2, p_output = Fin 8, p_input_cached = Fin 1\<rparr>]\<rparr>) ''m'' 10 5 2))
        (c_output (cost (pricing_demo\<lparr>unit_tokens := Fin 1000000, models :=
      [''m'' \<mapsto> \<lparr>p_input = Fin 2, p_output = Fin 8, p_input_cached = Fin 1\<rparr>]\<rparr>) ''m'' 10 7 3))"
  by (rule cost_monotone [where ri = 2 and ro = 8 and rc = 1 and u = 1000000, THEN conjunct1])
     (simp_all add: price_entry_def machine_int)

end
