(* ===== verification/Config.thy ===== *)
theory Config
  imports Backends Pricing
begin

text \<open>
  Configuration (\<open>crates/twl-config/src/config.rs\<close>, \<open>cli.rs\<close>): the layers of command line, environment and
  file, the validation of every value, and \<open>Config::resolve\<close>. Environment variables, the file system, the
  decoding of the file, URL, address and header parsing and the display of floating-point numbers are
  fields of \<open>config_io\<close>. A \<open>usize\<close> is a \<open>nat\<close>, a \<open>u64\<close> a word; a hash map of headers is the list of its
  entries in iteration order.
\<close>

section \<open>Data\<close>

record load_balancing =
  lb_strategy_of :: lb_strategy
  lb_overload_factor :: f64

definition load_balancing_default :: load_balancing where
  "load_balancing_default = \<lparr>lb_strategy_of = LeastLoaded, lb_overload_factor = Fin (5 / 4)\<rparr>"

record fair_queue_config =
  fqc_enabled :: bool
  fqc_window_seconds :: "64 word"

definition fair_queue_config_default :: fair_queue_config where
  "fair_queue_config_default = \<lparr>fqc_enabled = False, fqc_window_seconds = 30 * 60\<rparr>"

text \<open>\<open>'ip\<close> stands for \<open>std::net::IpAddr\<close>.\<close>

record 'ip dashboard_config =
  dc_cards :: "string list"
  dc_graphs :: "string list"
  dc_max_rows :: "nat option"
  dc_trusted_proxies :: "'ip list"

definition dashboard_config_default :: "'ip dashboard_config" where
  "dashboard_config_default =
     \<lparr>dc_cards = [''cost'', ''energy'', ''tokens'', ''requests'', ''io'', ''cache_hit''],
      dc_graphs = [''today'', ''over_time''], dc_max_rows = None, dc_trusted_proxies = []\<rparr>"

record tls_config =
  tls_enabled :: bool
  tls_cert_path :: string
  tls_key_path :: string
  tls_hostnames :: "string list"

record dashboard_config_file =
  dcf_cards :: "string list option"
  dcf_graphs :: "string list option"
  dcf_max_rows :: "nat option"
  dcf_trusted_proxies :: "string list option"

record tls_config_file =
  tcf_enabled :: "bool option"
  tcf_cert_path :: "string option"
  tcf_key_path :: "string option"
  tcf_hostnames :: "string list option"

record load_balancing_file =
  lbf_strategy :: "lb_strategy option"
  lbf_overload_factor :: "f64 option"

record fair_queue_config_file =
  fqf_enabled :: "bool option"
  fqf_window_seconds :: "64 word option"

datatype config_error =
    ConfigFileError string string
  | Bare string
  | Validation string

record backend_config_file =
  bf_provider :: "provider_kind option"
  bf_upstream :: "string option"
  bf_api_key :: "string option"
  bf_api_key_env :: "string option"
  bf_headers :: "(string \<times> string) list option"
  bf_models :: "string list option"
  bf_models_poll_secs :: "64 word option"
  bf_gpu_watts :: "f64 option"
  bf_model_types :: "(string \<rightharpoonup> model_kind) option"
  bf_model_filter :: "string list option"

record config_file =
  cf_host :: "string option"
  cf_port :: "16 word option"
  cf_upstream :: "string option"
  cf_db_path :: "string option"
  cf_pricing :: "pricing option"
  cf_max_concurrency :: "nat option"
  cf_gpu_watts :: "f64 option"
  cf_backends :: "backend_config_file list option"
  cf_dashboard_user :: "string option"
  cf_dashboard_password :: "string option"
  cf_public_usage :: "bool option"
  cf_require_api_key :: "bool option"
  cf_load_balancing :: "load_balancing_file option"
  cf_fair_queue :: "fair_queue_config_file option"
  cf_dashboard :: "dashboard_config_file option"
  cf_retention_days :: "64 word option"
  cf_tls :: "tls_config_file option"
  cf_metrics_token :: "string option"

record backend_config =
  bc_upstream :: string
  bc_provider :: provider_kind
  bc_api_key :: "string option"
  bc_extra_headers :: "(string \<times> string) list"
  bc_models :: "string list"
  bc_models_poll_secs :: "64 word option"
  bc_gpu_watts :: f64
  bc_model_types :: "string \<rightharpoonup> model_kind"
  bc_model_filter :: "string list option"

record 'ip config =
  cfg_bind :: string
  cfg_upstream :: string
  cfg_db_path :: string
  cfg_pricing :: pricing
  cfg_max_concurrency :: nat
  cfg_gpu_watts :: f64
  cfg_backends :: "backend_config list"
  cfg_flat_passthrough :: bool
  cfg_dashboard_auth :: "(string \<times> string) option"
  cfg_public_usage :: bool
  cfg_require_api_key :: bool
  cfg_load_balancing :: load_balancing
  cfg_fair_queue :: fair_queue_config
  cfg_dashboard :: "'ip dashboard_config"
  cfg_retention_days :: "64 word"
  cfg_tls :: tls_config
  cfg_metrics_token :: "string option"

record cli =
  cli_port :: "16 word option"
  cli_host :: "string option"
  cli_upstream :: "string option"
  cli_db :: "string option"
  cli_max_concurrency :: "nat option"
  cli_config :: "string option"
  cli_tls :: "bool option"
  cli_tls_cert :: "string option"
  cli_tls_key :: "string option"

section \<open>The outside\<close>

datatype var_result = VarOk string | VarNotPresent | VarNotUnicode

fun var_ok :: "var_result \<Rightarrow> string option" where
  "var_ok (VarOk s) = Some s"
| "var_ok _ = None"

record url =
  url_scheme :: string
  url_host :: "string option"
  url_query :: "string option"
  url_fragment :: "string option"
  url_before_path :: string
  url_path :: string

datatype component = RootDir | CurDir | ParentDir | Normal string

record 'ip config_io =
  ci_var :: "string \<Rightarrow> var_result"
  ci_exists :: "string \<Rightarrow> bool"
  ci_read :: "string \<Rightarrow> string + string"
  ci_from_str :: "string \<Rightarrow> string + config_file"
  ci_current_dir :: "string + string"
  ci_try_exists :: "string \<Rightarrow> string + bool"
  ci_canonicalize :: "string \<Rightarrow> string + component list"
  ci_parse_url :: "string \<Rightarrow> string + url"
  ci_parse_ip :: "string \<Rightarrow> 'ip option"
  ci_header_name :: "string \<Rightarrow> string option"
  ci_header_value :: "string \<Rightarrow> bool"
  ci_show_f64 :: "f64 \<Rightarrow> string"
  ci_show_debug :: "string \<Rightarrow> string"
  ci_max_permits :: nat

text \<open>\<open>str::parse::<usize>\<close>: an optional plus sign, then digits, in range.\<close>

definition parse_usize :: "string \<Rightarrow> nat option" where
  "parse_usize s =
     (let ds = (case s of c # cs \<Rightarrow> if c = CHR ''+'' then cs else s | [] \<Rightarrow> [])
      in if ds \<noteq> [] \<and> list_all is_ascii_digit ds \<and> digits_value ds < 2 ^ 64 then Some (digits_value ds) else None)"

lemma parse_usize_show: "n < 2 ^ 64 \<Longrightarrow> parse_usize (show_nat n) = Some n"
proof -
  assume n: "n < 2 ^ 64"
  have digits: "list_all is_ascii_digit (show_nat n)"
    using show_nat_digits [of n] by (simp add: list_all_iff)
  obtain c cs where s: "show_nat n = c # cs" using show_nat_not_Nil [of n] by (cases "show_nat n") auto
  with digits have "c \<noteq> CHR ''+''" by (auto simp: is_ascii_digit_def byte_def)
  then have "(case show_nat n of c # cs \<Rightarrow> if c = CHR ''+'' then cs else show_nat n | [] \<Rightarrow> []) = show_nat n"
    by (simp add: s)
  with digits n show ?thesis
    by (simp add: parse_usize_def Let_def show_nat_not_Nil digits_value_show_nat)
qed

section \<open>Command line\<close>

definition parse_max_concurrency :: "nat \<Rightarrow> string \<Rightarrow> string + nat" where
  "parse_max_concurrency limit s =
     (case parse_usize s of
        None \<Rightarrow> Inl (''max concurrency must be an integer between 1 and '' @ show_nat limit)
      | Some n \<Rightarrow>
          if \<not> (1 \<le> n \<and> n \<le> limit) then Inl (''max concurrency must be between 1 and '' @ show_nat limit) else Inr n)"

section \<open>TLS paths\<close>

text \<open>\<open>Path::components\<close> on Unix: empty segments and inner dots vanish, a leading dot stays.\<close>

definition segment :: "string \<Rightarrow> component" where
  "segment s = (if s = ''.'' then CurDir else if s = ''..'' then ParentDir else Normal s)"

definition path_components :: "string \<Rightarrow> component list" where
  "path_components p =
     (let segs = map segment (filter (\<lambda>s. s \<noteq> []) (split_on (CHR ''/'') p))
      in if starts_with p ''/'' then RootDir # filter (\<lambda>c. c \<noteq> CurDir) segs
         else (case segs of
                 CurDir # rest \<Rightarrow> CurDir # filter (\<lambda>c. c \<noteq> CurDir) rest
               | _ \<Rightarrow> filter (\<lambda>c. c \<noteq> CurDir) segs))"

text \<open>The components are kept in reverse: the head is the last component pushed.\<close>

fun push_component :: "component list \<Rightarrow> component \<Rightarrow> component list" where
  "push_component acc CurDir = acc"
| "push_component (Normal s # acc) ParentDir = acc"
| "push_component acc ParentDir = acc"
| "push_component acc RootDir = [RootDir]"
| "push_component acc (Normal s) = Normal s # acc"

definition normalize_path :: "component list \<Rightarrow> component list" where
  "normalize_path cs = rev (foldl push_component [] cs)"

record comparable_path =
  cp_normalized :: "component list"
  cp_canonical :: "component list option"

definition comparable_tls_path :: "'ip config_io \<Rightarrow> string \<Rightarrow> config_error + comparable_path" where
  "comparable_tls_path io path =
     bind_result
       (if starts_with path ''/'' then Inr (path_components path)
        else (case ci_current_dir io of
                Inl e \<Rightarrow> Inl (Bare (''failed to resolve TLS path: '' @ e))
              | Inr cwd \<Rightarrow> Inr (path_components cwd @ path_components path)))
       (\<lambda>absolute.
     bind_result
       (case ci_try_exists io path of
          Inl e \<Rightarrow> Inl (Bare (''failed to inspect TLS path: '' @ e))
        | Inr True \<Rightarrow>
            (case ci_canonicalize io path of
               Inl e \<Rightarrow> Inl (Bare (''failed to canonicalize TLS path: '' @ e))
             | Inr c \<Rightarrow> Inr (Some c))
        | Inr False \<Rightarrow> Inr None)
       (\<lambda>canonical. Inr \<lparr>cp_normalized = normalize_path absolute, cp_canonical = canonical\<rparr>))"

definition validate_distinct_paths :: "'ip config_io \<Rightarrow> tls_config \<Rightarrow> config_error + unit" where
  "validate_distinct_paths io tls =
     (if \<not> tls_enabled tls then Inr ()
      else
        bind_result (comparable_tls_path io (tls_cert_path tls)) (\<lambda>cert.
        bind_result (comparable_tls_path io (tls_key_path tls)) (\<lambda>key.
          if cp_normalized cert = cp_normalized key \<or>
             (cp_canonical cert \<noteq> None \<and> cp_canonical cert = cp_canonical key)
          then Inl (Validation ''TLS certificate and private key paths must resolve to different files'')
          else Inr ())))"

section \<open>Single values\<close>

definition resolve_fair_queue :: "config_file option \<Rightarrow> config_error + fair_queue_config" where
  "resolve_fair_queue cfg =
     (let file = Option.bind cfg cf_fair_queue;
          enabled = unwrap_or (Option.bind file fqf_enabled) False;
          window_seconds = unwrap_or (Option.bind file fqf_window_seconds) (30 * 60)
      in if window_seconds = 0 then Inl (Validation ''fair_queue.window_seconds must be greater than zero'')
         else Inr \<lparr>fqc_enabled = enabled, fqc_window_seconds = window_seconds\<rparr>)"

definition resolve_retention_days :: "config_file option \<Rightarrow> config_error + 64 word" where
  "resolve_retention_days cfg =
     (let days = unwrap_or (Option.bind cfg cf_retention_days) 90
      in if Option.bind (checked64 (uint days)) (\<lambda>d. checked_mul d 86400) \<noteq> None then Inr days
         else Inl (Validation (''retention_days must be at most '' @ show_int (i64_max div 86400))))"

definition resolve_config_path :: "'ip config_io \<Rightarrow> string option \<Rightarrow> string option" where
  "resolve_config_path io chosen = or_else chosen (var_ok (ci_var io ''CONFIG_PATH''))"

definition load_config_file :: "'ip config_io \<Rightarrow> string \<Rightarrow> config_error + config_file" where
  "load_config_file io path =
     bind_result (map_err Bare (ci_read io path)) (\<lambda>text. map_err Bare (ci_from_str io text))"

definition resolve_string :: "'ip config_io \<Rightarrow> string option \<Rightarrow> string \<Rightarrow> string option \<Rightarrow> string \<Rightarrow> string" where
  "resolve_string io cli env_name cfg fallback =
     unwrap_or (or_else cli (or_else (var_ok (ci_var io env_name)) cfg)) fallback"

definition validate_concurrency :: "'ip config_io \<Rightarrow> nat \<Rightarrow> string \<Rightarrow> config_error + nat" where
  "validate_concurrency io v source =
     (if 1 \<le> v \<and> v \<le> ci_max_permits io then Inr v
      else Inl (Validation (''max_concurrency from '' @ source @ '' must be between 1 and '' @ show_nat (ci_max_permits io))))"

definition resolve_max_concurrency :: "'ip config_io \<Rightarrow> nat option \<Rightarrow> nat option \<Rightarrow> config_error + nat" where
  "resolve_max_concurrency io cli_max cfg_max =
     (case cli_max of
        Some v \<Rightarrow> validate_concurrency io v ''CLI''
      | None \<Rightarrow>
          (case ci_var io ''MAX_CONCURRENCY'' of
             VarOk raw \<Rightarrow>
               (case parse_usize raw of
                  None \<Rightarrow> Inl (Validation (''MAX_CONCURRENCY must be an integer between 1 and '' @ show_nat (ci_max_permits io)))
                | Some v \<Rightarrow> validate_concurrency io v ''MAX_CONCURRENCY'')
           | VarNotUnicode \<Rightarrow>
               Inl (Validation (''MAX_CONCURRENCY must be valid Unicode and an integer between 1 and '' @ show_nat (ci_max_permits io)))
           | VarNotPresent \<Rightarrow>
               (case cfg_max of Some v \<Rightarrow> validate_concurrency io v ''config file'' | None \<Rightarrow> Inr 32)))"

definition validate_upstream :: "'ip config_io \<Rightarrow> string \<Rightarrow> config_error + string" where
  "validate_upstream io upstream =
     (case ci_parse_url io upstream of
        Inl e \<Rightarrow> Inl (Validation (''upstream must be a valid absolute URL: '' @ e))
      | Inr parsed \<Rightarrow>
          if url_scheme parsed \<notin> {''http'', ''https''} then Inl (Validation ''upstream URL scheme must be http or https'')
          else if url_host parsed = None then Inl (Validation ''upstream URL must include a host'')
          else if url_query parsed \<noteq> None \<or> url_fragment parsed \<noteq> None
          then Inl (Validation ''upstream URL must not include a query string or fragment'')
          else Inr (url_before_path parsed @ trim_end_matches {CHR ''/''} (url_path parsed)))"

definition resolve_upstream :: "'ip config_io \<Rightarrow> string option \<Rightarrow> string option \<Rightarrow> config_error + string" where
  "resolve_upstream io cli_up config_up =
     validate_upstream io (resolve_string io cli_up ''UPSTREAM_URL'' config_up ''http://127.0.0.1:8080'')"

definition bracket_host :: "string \<Rightarrow> string" where
  "bracket_host host = (if CHR '':'' \<in> set host \<and> \<not> starts_with host ''['' then ''['' @ host @ '']'' else host)"

definition bind_address :: "string \<Rightarrow> 16 word \<Rightarrow> string" where
  "bind_address host port = bracket_host host @ '':'' @ show_nat (unat port)"

definition resolve_bind ::
    "'ip config_io \<Rightarrow> string option \<Rightarrow> 16 word option \<Rightarrow> string option \<Rightarrow> 16 word option \<Rightarrow> string" where
  "resolve_bind io cli_h cli_p cfg_host cfg_port =
     (if cli_h \<noteq> None \<or> cli_p \<noteq> None
      then bind_address (unwrap_or (or_else cli_h cfg_host) ''127.0.0.1'') (unwrap_or (or_else cli_p cfg_port) 3000)
      else (case opt_filter (\<lambda>a. a \<noteq> []) (var_ok (ci_var io ''BIND_ADDR'')) of
              Some bind_addr \<Rightarrow> bind_addr
            | None \<Rightarrow> bind_address (unwrap_or cfg_host ''127.0.0.1'') (unwrap_or cfg_port 3000)))"

definition resolve_dashboard_auth :: "'ip config_io \<Rightarrow> config_file option \<Rightarrow> (string \<times> string) option" where
  "resolve_dashboard_auth io cfg =
     (let user = unwrap_or (or_else (var_ok (ci_var io ''DASHBOARD_USER'')) (Option.bind cfg cf_dashboard_user)) ''admin'';
          password = or_else (var_ok (ci_var io ''DASHBOARD_PASSWORD'')) (Option.bind cfg cf_dashboard_password)
      in map_option (Pair user) (opt_filter (\<lambda>p. p \<noteq> []) password))"

definition resolve_metrics_token :: "'ip config_io \<Rightarrow> config_file option \<Rightarrow> config_error + string option" where
  "resolve_metrics_token io cfg =
     (let token = opt_filter (\<lambda>t. t \<noteq> []) (or_else (var_ok (ci_var io ''METRICS_TOKEN'')) (Option.bind cfg cf_metrics_token))
      in case token of
           Some t \<Rightarrow> if length t < 16 then Inl (Validation ''metrics_token must be at least 16 characters'') else Inr token
         | None \<Rightarrow> Inr token)"

definition validate_gpu_watts :: "'ip config_io \<Rightarrow> f64 \<Rightarrow> config_error + f64" where
  "validate_gpu_watts io v =
     (if \<not> is_finite v \<or> f_lt v (Fin 0)
      then Inl (Validation (''gpu_watts must be finite and non-negative, got '' @ ci_show_f64 io v)) else Inr v)"

definition resolve_gpu_watts :: "'ip config_io \<Rightarrow> config_file option \<Rightarrow> config_error + f64" where
  "resolve_gpu_watts io cfg =
     (case Option.bind cfg cf_gpu_watts of None \<Rightarrow> Inr (Fin 0) | Some v \<Rightarrow> validate_gpu_watts io v)"

definition resolve_load_balancing :: "'ip config_io \<Rightarrow> config_file option \<Rightarrow> config_error + load_balancing" where
  "resolve_load_balancing io cfg =
     (case Option.bind cfg cf_load_balancing of
        None \<Rightarrow> Inr load_balancing_default
      | Some lb \<Rightarrow>
          (let strategy = unwrap_or (lbf_strategy lb) LeastLoaded;
               overload_factor = unwrap_or (lbf_overload_factor lb) (Fin (5 / 4))
           in if \<not> is_finite overload_factor \<or> f_lt overload_factor (Fin 1)
              then Inl (Validation (''load_balancing.overload_factor must be finite and >= 1.0, got ''
                                    @ ci_show_f64 io overload_factor))
              else Inr \<lparr>lb_strategy_of = strategy, lb_overload_factor = overload_factor\<rparr>))"

section \<open>Dashboard\<close>

definition VALID_CARDS :: "string list" where
  "VALID_CARDS = [''cost'', ''energy'', ''tokens'', ''requests'', ''io'', ''cache_hit'']"

definition VALID_GRAPHS :: "string list" where
  "VALID_GRAPHS = [''today'', ''over_time'']"

definition quoted :: "string \<Rightarrow> string" where
  "quoted s = [CHR 0x27] @ s @ [CHR 0x27]"

text \<open>The loop over a list of identifiers with the set of those seen.\<close>

fun check_identifiers :: "string \<Rightarrow> string list \<Rightarrow> string set \<Rightarrow> string list \<Rightarrow> config_error + unit" where
  "check_identifiers kind valid seen [] = Inr ()"
| "check_identifiers kind valid seen (x # xs) =
     (if x \<notin> set valid then Inl (Validation (''invalid dashboard '' @ kind @ '' identifier: '' @ quoted x))
      else if x \<in> seen then Inl (Validation (''duplicate dashboard '' @ kind @ '' identifier: '' @ quoted x))
      else check_identifiers kind valid (insert x seen) xs)"

definition resolve_identifiers ::
    "string \<Rightarrow> string list \<Rightarrow> string list \<Rightarrow> string list option \<Rightarrow> config_error + string list" where
  "resolve_identifiers kind valid fallback chosen =
     (case chosen of
        Some xs \<Rightarrow> bind_result (check_identifiers kind valid {} xs) (\<lambda>_. Inr xs)
      | None \<Rightarrow> Inr fallback)"

fun parse_proxies :: "'ip config_io \<Rightarrow> string list \<Rightarrow> config_error + 'ip list" where
  "parse_proxies io [] = Inr []"
| "parse_proxies io (raw # rest) =
     (case ci_parse_ip io raw of
        None \<Rightarrow> Inl (Validation (''dashboard.trusted_proxies contains invalid IP address: '' @ quoted raw))
      | Some ip \<Rightarrow> bind_result (parse_proxies io rest) (\<lambda>ips. Inr (ip # ips)))"

definition resolve_dashboard :: "'ip config_io \<Rightarrow> config_file option \<Rightarrow> config_error + 'ip dashboard_config" where
  "resolve_dashboard io cfg =
     (case Option.bind cfg cf_dashboard of
        None \<Rightarrow> Inr dashboard_config_default
      | Some d \<Rightarrow>
          bind_result (resolve_identifiers ''card'' VALID_CARDS (dc_cards (dashboard_config_default :: 'ip dashboard_config)) (dcf_cards d)) (\<lambda>cards.
          bind_result (resolve_identifiers ''graph'' VALID_GRAPHS (dc_graphs (dashboard_config_default :: 'ip dashboard_config)) (dcf_graphs d)) (\<lambda>graphs.
          bind_result
            (case dcf_max_rows d of
               Some v \<Rightarrow> if v < 1 then Inl (Validation (''dashboard.max_rows must be at least 1, got '' @ show_nat v))
                         else Inr (Some v)
             | None \<Rightarrow> Inr None) (\<lambda>max_rows.
          bind_result (parse_proxies io (unwrap_or (dcf_trusted_proxies d) [])) (\<lambda>trusted_proxies.
            Inr \<lparr>dc_cards = cards, dc_graphs = graphs, dc_max_rows = max_rows,
                 dc_trusted_proxies = trusted_proxies\<rparr>)))))"

section \<open>TLS\<close>

text \<open>
  The lower-case comparison of \<open>TLS_ENABLED\<close> is written with ASCII letters: no other character has a
  lower-case form among the letters of \<open>true\<close> and \<open>false\<close>.
\<close>

definition resolve_tls_enabled :: "'ip config_io \<Rightarrow> bool option \<Rightarrow> tls_config_file option \<Rightarrow> config_error + bool" where
  "resolve_tls_enabled io cli_t cfg =
     (case cli_t of
        Some v \<Rightarrow> Inr v
      | None \<Rightarrow>
          (case var_ok (ci_var io ''TLS_ENABLED'') of
             Some val \<Rightarrow>
               let low = to_ascii_lowercase val
               in if low = ''true'' \<or> low = ''1'' then Inr True
                  else if low = ''false'' \<or> low = ''0'' then Inr False
                  else Inl (Validation ''TLS_ENABLED must be true or false'')
           | None \<Rightarrow> Inr (unwrap_or (Option.bind cfg tcf_enabled) True)))"

definition resolve_tls ::
    "'ip config_io \<Rightarrow> bool option \<Rightarrow> string option \<Rightarrow> string option \<Rightarrow> tls_config_file option \<Rightarrow> config_error + tls_config" where
  "resolve_tls io cli_t cli_cert cli_key cfg =
     bind_result (resolve_tls_enabled io cli_t cfg) (\<lambda>enabled.
       let cert_path = resolve_string io cli_cert ''TLS_CERT_PATH'' (Option.bind cfg tcf_cert_path) ''tls/cert.pem'';
           key_path = resolve_string io cli_key ''TLS_KEY_PATH'' (Option.bind cfg tcf_key_path) ''tls/key.pem'';
           hostnames = (case Option.bind cfg tcf_hostnames of
                          Some hs \<Rightarrow> if hs \<noteq> [] then hs else [''localhost''] | None \<Rightarrow> [''localhost'']);
           tls = \<lparr>tls_enabled = enabled, tls_cert_path = cert_path, tls_key_path = key_path, tls_hostnames = hostnames\<rparr>
       in if enabled \<and> cert_path = [] then Inl (Validation ''TLS is enabled but cert_path is empty'')
          else if enabled \<and> key_path = [] then Inl (Validation ''TLS is enabled but key_path is empty'')
          else if enabled \<and> [] \<in> set hostnames then Inl (Validation ''TLS hostname entry must not be empty'')
          else bind_result (validate_distinct_paths io tls) (\<lambda>_. Inr tls))"

end
