(* ===== verification/ConfigResolve.thy ===== *)
theory ConfigResolve
  imports Config "HOL-Library.Product_Lexorder"
begin

text \<open>
  \<open>Config::resolve\<close> (\<open>crates/twl-config/src/config.rs\<close>): the backends of the file, their headers, the two
  modes, and the redacted \<open>Debug\<close> output; with the proof that a resolved configuration satisfies every
  contract the rest of the server relies on.
\<close>

section \<open>Backend entries\<close>

text \<open>\<open>Display\<close> of an error.\<close>

fun show_error :: "config_error \<Rightarrow> string" where
  "show_error (ConfigFileError path message) = ''config file error ('' @ path @ ''): '' @ message"
| "show_error (Bare m) = m"
| "show_error (Validation m) = m"

fun parse_headers :: "'ip config_io \<Rightarrow> (string \<times> string) list \<Rightarrow> config_error + (string \<times> string) list" where
  "parse_headers io [] = Inr []"
| "parse_headers io ((name, v) # rest) =
     (case ci_header_name io name of
        None \<Rightarrow> Inl (Validation (''invalid HTTP header name: '' @ ci_show_debug io name))
      | Some parsed_name \<Rightarrow>
          if \<not> ci_header_value io v
          then Inl (Validation (''invalid HTTP header value for '' @ parsed_name
                                @ '': contains bytes not permitted in a header value''))
          else bind_result (parse_headers io rest) (\<lambda>hs. Inr ((parsed_name, v) # hs)))"

text \<open>\<open>windows(2).find\<close>: the first of two neighbours with the same name.\<close>

fun adjacent_duplicate :: "(string \<times> string) list \<Rightarrow> string option" where
  "adjacent_duplicate (a # b # rest) = (if fst a = fst b then Some (fst a) else adjacent_duplicate (b # rest))"
| "adjacent_duplicate _ = None"

definition resolve_backend_headers ::
    "'ip config_io \<Rightarrow> (string \<times> string) list option \<Rightarrow> config_error + (string \<times> string) list" where
  "resolve_backend_headers io headers =
     (case headers of
        None \<Rightarrow> Inr []
      | Some hs \<Rightarrow>
          bind_result (parse_headers io hs) (\<lambda>parsed.
            let resolved = sort parsed
            in case adjacent_duplicate resolved of
                 Some name \<Rightarrow> Inl (Validation (''duplicate HTTP header name (case-insensitive): '' @ ci_show_debug io name))
               | None \<Rightarrow> Inr resolved))"

definition backend_error :: "nat \<Rightarrow> string \<Rightarrow> config_error" where
  "backend_error i m = Validation (''backend['' @ show_nat i @ '']: '' @ m)"

definition resolve_backend_key :: "'ip config_io \<Rightarrow> nat \<Rightarrow> backend_config_file \<Rightarrow> config_error + string option" where
  "resolve_backend_key io i entry =
     (case bf_api_key entry of
        Some k \<Rightarrow> Inr (Some k)
      | None \<Rightarrow>
          (case bf_api_key_env entry of
             None \<Rightarrow> Inr None
           | Some env_name \<Rightarrow>
               (case var_ok (ci_var io env_name) of
                  Some val \<Rightarrow>
                    if val \<noteq> [] then Inr (Some val)
                    else Inl (backend_error i (''api_key_env env var '' @ [CHR 0x22] @ env_name @ [CHR 0x22] @ '' is empty''))
                | None \<Rightarrow> Inl (backend_error i (''api_key_env env var '' @ [CHR 0x22] @ env_name @ [CHR 0x22] @ '' is not set'')))))"

fun check_filter :: "nat \<Rightarrow> string set \<Rightarrow> string list \<Rightarrow> config_error + unit" where
  "check_filter i seen [] = Inr ()"
| "check_filter i seen (m # ms) =
     (if m = [] then Inl (backend_error i ''model_filter entries must not be empty'')
      else if m \<in> seen then Inl (backend_error i (''duplicate model_filter entry: '' @ quoted m))
      else check_filter i (insert m seen) ms)"

definition resolve_backend :: "'ip config_io \<Rightarrow> nat \<Rightarrow> backend_config_file \<Rightarrow> config_error + backend_config" where
  "resolve_backend io i entry =
     bind_result
       (case bf_upstream entry of
          Some s \<Rightarrow> map_err (\<lambda>e. backend_error i (show_error e)) (validate_upstream io s)
        | None \<Rightarrow> Inl (backend_error i ''upstream is required'')) (\<lambda>upstream.
     if bf_api_key entry \<noteq> None \<and> bf_api_key_env entry \<noteq> None
     then Inl (backend_error i ''api_key and api_key_env are mutually exclusive'')
     else
       bind_result (resolve_backend_key io i entry) (\<lambda>api_key.
       let gpu_watts = unwrap_or (bf_gpu_watts entry) (Fin 0)
       in bind_result (map_err (\<lambda>e. backend_error i (show_error e)) (validate_gpu_watts io gpu_watts)) (\<lambda>_.
          if bf_models_poll_secs entry = Some 0
          then Inl (backend_error i (''models_poll_secs must be >= 1, got '' @ show_nat 0))
          else if bf_models entry = None \<and> bf_models_poll_secs entry = None
          then Inl (backend_error i ''each backend must have at least one of models or models_poll_secs'')
          else
            bind_result (map_err (\<lambda>e. backend_error i (show_error e)) (resolve_backend_headers io (bf_headers entry)))
              (\<lambda>extra_headers.
            if api_key \<noteq> None \<and> ''authorization'' \<in> fst ` set extra_headers
            then Inl (backend_error i ''authorization header cannot be combined with api_key or api_key_env'')
            else
              bind_result
                (case bf_model_filter entry of
                   None \<Rightarrow> Inr ()
                 | Some f \<Rightarrow> if f = [] then Inl (backend_error i ''model_filter must not be empty'') else check_filter i {} f)
                (\<lambda>_.
              Inr \<lparr>bc_upstream = upstream, bc_provider = unwrap_or (bf_provider entry) LlamaCpp, bc_api_key = api_key,
                   bc_extra_headers = extra_headers, bc_models = unwrap_or (bf_models entry) [],
                   bc_models_poll_secs = bf_models_poll_secs entry, bc_gpu_watts = gpu_watts,
                   bc_model_types = unwrap_or (bf_model_types entry) Map.empty,
                   bc_model_filter = bf_model_filter entry\<rparr>)))))"

fun resolve_entries :: "'ip config_io \<Rightarrow> nat \<Rightarrow> backend_config_file list \<Rightarrow> config_error + backend_config list" where
  "resolve_entries io i [] = Inr []"
| "resolve_entries io i (e # es) =
     bind_result (resolve_backend io i e) (\<lambda>b. bind_result (resolve_entries io (Suc i) es) (\<lambda>bs. Inr (b # bs)))"

definition resolve_backends :: "'ip config_io \<Rightarrow> backend_config_file list \<Rightarrow> config_error + backend_config list" where
  "resolve_backends io entries =
     (if entries = [] then Inl (Validation ''backends array must not be empty'') else resolve_entries io 0 entries)"

section \<open>The whole configuration\<close>

definition named_config_error :: "string \<Rightarrow> config_error \<Rightarrow> config_error" where
  "named_config_error path inner =
     ConfigFileError path (case inner of Bare m \<Rightarrow> m | _ \<Rightarrow> show_error inner)"

text \<open>The file layer: an explicit path must load, the implicit \<open>config.json\<close> may be absent.\<close>

definition load_layer :: "'ip config_io \<Rightarrow> cli \<Rightarrow> config_error + config_file option" where
  "load_layer io cli =
     (case resolve_config_path io (cli_config cli) of
        Some path \<Rightarrow> bind_result (map_err (named_config_error path) (load_config_file io path)) (\<lambda>cf. Inr (Some cf))
      | None \<Rightarrow>
          if ci_exists io ''config.json''
          then bind_result (map_err (named_config_error ''config.json'') (load_config_file io ''config.json'')) (\<lambda>cf. Inr (Some cf))
          else Inr None)"

text \<open>The values both modes resolve alike, in the order in which their errors surface.\<close>

definition assemble ::
    "'ip config_io \<Rightarrow> cli \<Rightarrow> config_file option \<Rightarrow> 64 word \<Rightarrow> backend_config list \<Rightarrow> string \<Rightarrow> f64 \<Rightarrow> bool
     \<Rightarrow> config_error + 'ip config" where
  "assemble io cli file retention_days backends upstream gpu_watts flat =
     bind_result (resolve_load_balancing io file) (\<lambda>load_balancing.
     bind_result (resolve_dashboard io file) (\<lambda>dashboard.
     bind_result (resolve_max_concurrency io (cli_max_concurrency cli) (Option.bind file cf_max_concurrency)) (\<lambda>max_concurrency.
     bind_result (resolve_tls io (cli_tls cli) (cli_tls_cert cli) (cli_tls_key cli) (Option.bind file cf_tls)) (\<lambda>tls.
     bind_result (resolve_fair_queue file) (\<lambda>fair_queue.
     bind_result (resolve_metrics_token io file) (\<lambda>metrics_token.
       Inr \<lparr>cfg_bind = resolve_bind io (cli_host cli) (cli_port cli) (Option.bind file cf_host) (Option.bind file cf_port),
            cfg_upstream = upstream,
            cfg_db_path = resolve_string io (cli_db cli) ''DB_PATH'' (Option.bind file cf_db_path) ''proxydb.db'',
            cfg_pricing = unwrap_or (map_option sanitized (Option.bind file cf_pricing)) pricing_default,
            cfg_max_concurrency = max_concurrency, cfg_gpu_watts = gpu_watts, cfg_backends = backends,
            cfg_flat_passthrough = flat, cfg_dashboard_auth = resolve_dashboard_auth io file,
            cfg_public_usage = unwrap_or (Option.bind file cf_public_usage) False,
            cfg_require_api_key = unwrap_or (Option.bind file cf_require_api_key) True,
            cfg_load_balancing = load_balancing, cfg_fair_queue = fair_queue, cfg_dashboard = dashboard,
            cfg_retention_days = retention_days, cfg_tls = tls, cfg_metrics_token = metrics_token\<rparr>))))))"

definition flat_backend :: "string \<Rightarrow> f64 \<Rightarrow> backend_config" where
  "flat_backend upstream gpu_watts =
     \<lparr>bc_upstream = upstream, bc_provider = LlamaCpp, bc_api_key = None, bc_extra_headers = [], bc_models = [],
      bc_models_poll_secs = Some 30, bc_gpu_watts = gpu_watts, bc_model_types = Map.empty, bc_model_filter = None\<rparr>"

definition resolve :: "'ip config_io \<Rightarrow> cli \<Rightarrow> config_error + 'ip config" where
  "resolve io cli =
     bind_result (load_layer io cli) (\<lambda>file.
     bind_result (resolve_retention_days file) (\<lambda>retention_days.
       let has_flat_fields = (Option.bind file cf_upstream \<noteq> None \<or> Option.bind file cf_gpu_watts \<noteq> None)
       in case Option.bind file cf_backends of
            Some backends_arr \<Rightarrow>
              if has_flat_fields
              then Inl (Validation ''backends array and flat upstream/gpu_watts fields are mutually exclusive'')
              else if cli_upstream cli \<noteq> None
              then Inl (Validation ''the --upstream flag is not supported when a backends array is configured'')
              else if var_ok (ci_var io ''UPSTREAM_URL'') \<noteq> None
              then Inl (Validation ''UPSTREAM_URL env var is not supported when a backends array is configured'')
              else
                bind_result (resolve_backends io backends_arr) (\<lambda>backends.
                  assemble io cli file retention_days backends (bc_upstream (backends ! 0)) (bc_gpu_watts (backends ! 0)) False)
          | None \<Rightarrow>
              bind_result (resolve_gpu_watts io file) (\<lambda>gpu_watts.
              bind_result (resolve_upstream io (cli_upstream cli) (Option.bind file cf_upstream)) (\<lambda>upstream.
                assemble io cli file retention_days [flat_backend upstream gpu_watts] upstream gpu_watts True))))"

section \<open>Debug output\<close>

text \<open>
  What \<open>Formatter::debug_struct\<close> is given: a field is shown by its derived implementation, or redacted.
\<close>

datatype 'ip debug_value =
    Redacted
  | NoneValue
  | SomeValue "'ip debug_value"
  | ListValue "'ip debug_value list"
  | Struct string "(string \<times> 'ip debug_value) list"
  | StrValue string
  | StrOption "string option"
  | StrsValue "string list"
  | StrsOption "string list option"
  | PricingValue pricing
  | PricingOption "pricing option"
  | NatValue nat
  | NatOption "nat option"
  | PortOption "16 word option"
  | U64Value "64 word"
  | U64Option "64 word option"
  | F64Value f64
  | F64Option "f64 option"
  | BoolValue bool
  | BoolOption "bool option"
  | ProviderValue provider_kind
  | ProviderOption "provider_kind option"
  | TypesValue "string \<rightharpoonup> model_kind"
  | TypesOption "(string \<rightharpoonup> model_kind) option"
  | LbValue load_balancing
  | LbOption "load_balancing_file option"
  | FqValue fair_queue_config
  | FqOption "fair_queue_config_file option"
  | DashboardValue "'ip dashboard_config"
  | DashboardOption "dashboard_config_file option"
  | TlsValue tls_config
  | TlsOption "tls_config_file option"

definition redacted_if_present :: "'a option \<Rightarrow> 'ip debug_value" where
  "redacted_if_present v = (case v of None \<Rightarrow> NoneValue | Some _ \<Rightarrow> SomeValue Redacted)"

definition debug_backend_config :: "backend_config \<Rightarrow> 'ip debug_value" where
  "debug_backend_config b = Struct ''BackendConfig''
     [(''upstream'', StrValue (bc_upstream b)), (''provider'', ProviderValue (bc_provider b)),
      (''api_key'', redacted_if_present (bc_api_key b)), (''extra_headers'', Redacted),
      (''models'', StrsValue (bc_models b)), (''models_poll_secs'', U64Option (bc_models_poll_secs b)),
      (''gpu_watts'', F64Value (bc_gpu_watts b)), (''model_types'', TypesValue (bc_model_types b)),
      (''model_filter'', StrsOption (bc_model_filter b))]"

definition debug_config :: "'ip config \<Rightarrow> 'ip debug_value" where
  "debug_config c = Struct ''Config''
     [(''bind'', StrValue (cfg_bind c)), (''upstream'', StrValue (cfg_upstream c)), (''db_path'', StrValue (cfg_db_path c)),
      (''pricing'', PricingValue (cfg_pricing c)), (''max_concurrency'', NatValue (cfg_max_concurrency c)),
      (''gpu_watts'', F64Value (cfg_gpu_watts c)), (''backends'', ListValue (map debug_backend_config (cfg_backends c))),
      (''flat_passthrough'', BoolValue (cfg_flat_passthrough c)),
      (''dashboard_auth'', redacted_if_present (cfg_dashboard_auth c)), (''public_usage'', BoolValue (cfg_public_usage c)),
      (''require_api_key'', BoolValue (cfg_require_api_key c)), (''load_balancing'', LbValue (cfg_load_balancing c)),
      (''fair_queue'', FqValue (cfg_fair_queue c)), (''dashboard'', DashboardValue (cfg_dashboard c)),
      (''retention_days'', U64Value (cfg_retention_days c)), (''tls'', TlsValue (cfg_tls c)),
      (''metrics_token'', redacted_if_present (cfg_metrics_token c))]"

definition debug_backend_config_file :: "backend_config_file \<Rightarrow> 'ip debug_value" where
  "debug_backend_config_file b = Struct ''BackendConfigFile''
     [(''provider'', ProviderOption (bf_provider b)), (''upstream'', StrOption (bf_upstream b)),
      (''api_key'', redacted_if_present (bf_api_key b)), (''api_key_env'', StrOption (bf_api_key_env b)),
      (''headers'', redacted_if_present (bf_headers b)), (''models'', StrsOption (bf_models b)),
      (''models_poll_secs'', U64Option (bf_models_poll_secs b)), (''gpu_watts'', F64Option (bf_gpu_watts b)),
      (''model_types'', TypesOption (bf_model_types b)), (''model_filter'', StrsOption (bf_model_filter b))]"

definition debug_config_file :: "config_file \<Rightarrow> 'ip debug_value" where
  "debug_config_file c = Struct ''ConfigFile''
     [(''host'', StrOption (cf_host c)), (''port'', PortOption (cf_port c)), (''upstream'', StrOption (cf_upstream c)),
      (''db_path'', StrOption (cf_db_path c)), (''pricing'', PricingOption (cf_pricing c)),
      (''max_concurrency'', NatOption (cf_max_concurrency c)), (''gpu_watts'', F64Option (cf_gpu_watts c)),
      (''backends'', (case cf_backends c of None \<Rightarrow> NoneValue
                     | Some bs \<Rightarrow> SomeValue (ListValue (map debug_backend_config_file bs)))),
      (''dashboard_user'', StrOption (cf_dashboard_user c)),
      (''dashboard_password'', redacted_if_present (cf_dashboard_password c)),
      (''public_usage'', BoolOption (cf_public_usage c)), (''require_api_key'', BoolOption (cf_require_api_key c)),
      (''load_balancing'', LbOption (cf_load_balancing c)), (''fair_queue'', FqOption (cf_fair_queue c)),
      (''dashboard'', DashboardOption (cf_dashboard c)), (''retention_days'', U64Option (cf_retention_days c)),
      (''tls'', TlsOption (cf_tls c)), (''metrics_token'', redacted_if_present (cf_metrics_token c))]"

text \<open>A configuration with its secrets overwritten.\<close>

definition erase_backend :: "backend_config \<Rightarrow> backend_config" where
  "erase_backend b = b\<lparr>bc_api_key := map_option (\<lambda>_. []) (bc_api_key b), bc_extra_headers := []\<rparr>"

definition erase_secrets :: "'ip config \<Rightarrow> 'ip config" where
  "erase_secrets c =
     c\<lparr>cfg_backends := map erase_backend (cfg_backends c),
       cfg_dashboard_auth := map_option (\<lambda>_. ([], [])) (cfg_dashboard_auth c),
       cfg_metrics_token := map_option (\<lambda>_. []) (cfg_metrics_token c)\<rparr>"

definition erase_backend_file :: "backend_config_file \<Rightarrow> backend_config_file" where
  "erase_backend_file b =
     b\<lparr>bf_api_key := map_option (\<lambda>_. []) (bf_api_key b), bf_headers := map_option (\<lambda>_. []) (bf_headers b)\<rparr>"

definition erase_file_secrets :: "config_file \<Rightarrow> config_file" where
  "erase_file_secrets c =
     c\<lparr>cf_backends := map_option (map erase_backend_file) (cf_backends c),
       cf_dashboard_password := map_option (\<lambda>_. []) (cf_dashboard_password c),
       cf_metrics_token := map_option (\<lambda>_. []) (cf_metrics_token c)\<rparr>"

section \<open>What validation establishes\<close>

definition backend_config_ok :: "backend_config \<Rightarrow> bool" where
  "backend_config_ok b \<longleftrightarrow>
     is_finite (bc_gpu_watts b) \<and> f_le (Fin 0) (bc_gpu_watts b) \<and> bc_models_poll_secs b \<noteq> Some 0 \<and>
     sorted_wrt (<) (map fst (bc_extra_headers b)) \<and>
     (bc_api_key b \<noteq> None \<longrightarrow> ''authorization'' \<notin> fst ` set (bc_extra_headers b)) \<and>
     (case bc_model_filter b of None \<Rightarrow> True | Some f \<Rightarrow> f \<noteq> [] \<and> distinct f \<and> [] \<notin> set f)"

definition config_ok :: "nat \<Rightarrow> 'ip config \<Rightarrow> bool" where
  "config_ok limit c \<longleftrightarrow>
     cfg_backends c \<noteq> [] \<and> list_all backend_config_ok (cfg_backends c) \<and>
     (cfg_flat_passthrough c \<longrightarrow> length (cfg_backends c) = 1) \<and>
     cfg_upstream c = bc_upstream (cfg_backends c ! 0) \<and> cfg_gpu_watts c = bc_gpu_watts (cfg_backends c ! 0) \<and>
     1 \<le> cfg_max_concurrency c \<and> cfg_max_concurrency c \<le> limit \<and>
     is_finite (lb_overload_factor (cfg_load_balancing c)) \<and> f_le (Fin 1) (lb_overload_factor (cfg_load_balancing c)) \<and>
     fqc_window_seconds (cfg_fair_queue c) \<noteq> 0 \<and> uint (cfg_retention_days c) * 86400 \<le> i64_max \<and>
     distinct (dc_cards (cfg_dashboard c)) \<and> set (dc_cards (cfg_dashboard c)) \<subseteq> set VALID_CARDS \<and>
     distinct (dc_graphs (cfg_dashboard c)) \<and> set (dc_graphs (cfg_dashboard c)) \<subseteq> set VALID_GRAPHS \<and>
     dc_max_rows (cfg_dashboard c) \<noteq> Some 0 \<and>
     (tls_enabled (cfg_tls c) \<longrightarrow>
        tls_cert_path (cfg_tls c) \<noteq> [] \<and> tls_key_path (cfg_tls c) \<noteq> [] \<and>
        tls_cert_path (cfg_tls c) \<noteq> tls_key_path (cfg_tls c) \<and> [] \<notin> set (tls_hostnames (cfg_tls c))) \<and>
     (case cfg_metrics_token c of None \<Rightarrow> True | Some t \<Rightarrow> 16 \<le> length t) \<and>
     (case cfg_dashboard_auth c of None \<Rightarrow> True | Some (u, p) \<Rightarrow> p \<noteq> [])"

lemma finite_bounds:
  "is_finite v \<Longrightarrow> \<not> f_lt v (Fin x) \<Longrightarrow> f_le (Fin x) v"
  by (cases v) (auto simp: is_finite_def)

lemma validate_gpu_watts_Inr: "validate_gpu_watts io v = Inr w \<longleftrightarrow> w = v \<and> is_finite v \<and> \<not> f_lt v (Fin 0)"
  by (auto simp: validate_gpu_watts_def)

lemma parse_headers_Inr:
  "parse_headers io hs = Inr ps \<longleftrightarrow>
     (\<forall>(n, v) \<in> set hs. ci_header_name io n \<noteq> None \<and> ci_header_value io v) \<and>
     ps = map (\<lambda>(n, v). (the (ci_header_name io n), v)) hs"
proof (induction hs arbitrary: ps)
  case (Cons h hs)
  obtain n v where h: "h = (n, v)" by (cases h)
  show ?case unfolding h
    by (cases "ci_header_name io n") (auto simp: bind_result_Inr Cons.IH)
qed auto

lemma adjacent_duplicate_sorted:
  "sorted xs \<Longrightarrow> adjacent_duplicate xs = None \<Longrightarrow> sorted_wrt (<) (map fst xs)"
proof (induction xs rule: adjacent_duplicate.induct)
  case (1 a b rest)
  then have ne: "fst a \<noteq> fst b" and IH: "sorted_wrt (<) (map fst (b # rest))"
    by (auto split: if_splits)
  from "1.prems"(1) have "a \<le> b" by simp
  with ne have "fst a < fst b" by (cases a; cases b) (auto simp: less_eq_prod_def)
  with IH show ?case by (auto intro: less_trans)
qed auto

lemma resolve_backend_headers_sorted:
  "resolve_backend_headers io hs = Inr r \<Longrightarrow> sorted_wrt (<) (map fst r)"
  by (auto simp: resolve_backend_headers_def bind_result_Inr Let_def adjacent_duplicate_sorted split: option.splits)

text \<open>The hash map's iteration order does not matter.\<close>

lemma backend_headers_order:
  assumes "mset hs = mset hs'" "resolve_backend_headers io (Some hs) = Inr r"
  shows "resolve_backend_headers io (Some hs') = Inr r"
proof -
  let ?f = "\<lambda>(n, v). (the (ci_header_name io n), v)"
  from assms(2) obtain ps where ps: "parse_headers io hs = Inr ps"
    by (auto simp: resolve_backend_headers_def bind_result_Inr)
  then have p: "ps = map ?f hs" and ok: "\<forall>(n, v) \<in> set hs. ci_header_name io n \<noteq> None \<and> ci_header_value io v"
    by (simp_all add: parse_headers_Inr)
  from ok mset_eq_setD [OF assms(1)] have ps': "parse_headers io hs' = Inr (map ?f hs')"
    by (simp add: parse_headers_Inr)
  have "sort (map ?f hs) = sort (map ?f hs')"
    by (rule properties_for_sort) (simp_all add: assms(1) [symmetric])
  with assms(2) ps ps' p show ?thesis
    by (auto simp: resolve_backend_headers_def Let_def split: option.splits)
qed

lemma check_filter_ok: "check_filter i seen f = Inr () \<Longrightarrow> distinct f \<and> [] \<notin> set f \<and> set f \<inter> seen = {}"
  by (induction i seen f rule: check_filter.induct) (auto split: if_splits)

lemma check_identifiers_ok:
  "check_identifiers kind valid seen xs = Inr () \<Longrightarrow> distinct xs \<and> set xs \<subseteq> set valid \<and> set xs \<inter> seen = {}"
  by (induction kind valid seen xs rule: check_identifiers.induct) (auto split: if_splits)

lemma resolve_backend_ok:
  assumes "resolve_backend io i entry = Inr b"
  shows "backend_config_ok b"
proof -
  from assms obtain headers where
    hs: "resolve_backend_headers io (bf_headers entry) = Inr headers" "bc_extra_headers b = headers"
    and key: "bc_api_key b \<noteq> None \<longrightarrow> ''authorization'' \<notin> fst ` set headers"
    and gpu: "is_finite (bc_gpu_watts b)" "\<not> f_lt (bc_gpu_watts b) (Fin 0)"
    and poll: "bc_models_poll_secs b \<noteq> Some 0"
    and flt: "bc_model_filter b = bf_model_filter entry"
      "case bf_model_filter entry of None \<Rightarrow> True | Some f \<Rightarrow> f \<noteq> [] \<and> check_filter i {} f = Inr ()"
    by (auto simp: resolve_backend_def bind_result_Inr Let_def validate_gpu_watts_Inr split: if_splits option.splits)
  have "case bc_model_filter b of None \<Rightarrow> True | Some f \<Rightarrow> f \<noteq> [] \<and> distinct f \<and> [] \<notin> set f"
    using flt by (auto split: option.splits dest: check_filter_ok)
  with hs key poll gpu show ?thesis
    by (auto simp: backend_config_ok_def finite_bounds resolve_backend_headers_sorted)
qed

lemma resolve_entries_ok: "resolve_entries io i es = Inr bs \<Longrightarrow> list_all backend_config_ok bs \<and> length bs = length es"
proof (induction es arbitrary: i bs)
  case (Cons e es)
  then obtain b bs' where "resolve_backend io i e = Inr b" "resolve_entries io (Suc i) es = Inr bs'" "bs = b # bs'"
    by (auto simp: bind_result_Inr)
  with Cons.IH [of "Suc i" bs'] show ?case by (simp add: resolve_backend_ok)
qed simp

lemma resolve_backends_ok: "resolve_backends io es = Inr bs \<Longrightarrow> list_all backend_config_ok bs \<and> bs \<noteq> []"
  using resolve_entries_ok [of io 0 es bs] by (auto simp: resolve_backends_def split: if_splits)

lemma flat_backend_ok: "is_finite w \<Longrightarrow> \<not> f_lt w (Fin 0) \<Longrightarrow> backend_config_ok (flat_backend u w)"
  by (simp add: flat_backend_def backend_config_ok_def finite_bounds)

lemma resolve_gpu_watts_ok: "resolve_gpu_watts io file = Inr w \<Longrightarrow> is_finite w \<and> \<not> f_lt w (Fin 0)"
  by (auto simp: resolve_gpu_watts_def validate_gpu_watts_Inr is_finite_def split: option.splits)

lemma resolve_load_balancing_ok:
  "resolve_load_balancing io file = Inr lb \<Longrightarrow> is_finite (lb_overload_factor lb) \<and> f_le (Fin 1) (lb_overload_factor lb)"
  by (auto simp: resolve_load_balancing_def load_balancing_default_def Let_def finite_bounds is_finite_def
        split: option.splits if_splits)

lemma validate_concurrency_Inr: "validate_concurrency io v s = Inr n \<longleftrightarrow> n = v \<and> 1 \<le> v \<and> v \<le> ci_max_permits io"
  by (auto simp: validate_concurrency_def)

lemma resolve_max_concurrency_ok:
  assumes "32 \<le> ci_max_permits io" "resolve_max_concurrency io a b = Inr n"
  shows "1 \<le> n \<and> n \<le> ci_max_permits io"
  using assms by (auto simp: resolve_max_concurrency_def validate_concurrency_Inr split: option.splits var_result.splits)

lemma resolve_fair_queue_ok: "resolve_fair_queue file = Inr fq \<Longrightarrow> fqc_window_seconds fq \<noteq> 0"
  by (auto simp: resolve_fair_queue_def Let_def split: if_splits)

lemma resolve_retention_days_ok:
  assumes "resolve_retention_days file = Inr d"
  shows "uint d * 86400 \<le> i64_max"
proof -
  from assms have "Option.bind (checked64 (uint d)) (\<lambda>d. checked_mul d 86400) \<noteq> None"
    by (auto simp: resolve_retention_days_def Let_def split: if_splits)
  then show ?thesis
    by (auto simp: checked64_def checked_mul_def in_i64_def bind_eq_None_conv split: if_splits)
qed

lemma resolve_metrics_token_ok:
  "resolve_metrics_token io file = Inr t \<Longrightarrow> (case t of None \<Rightarrow> True | Some s \<Rightarrow> 16 \<le> length s)"
  by (auto simp: resolve_metrics_token_def Let_def split: option.splits if_splits)

lemma resolve_dashboard_auth_ok: "resolve_dashboard_auth io fl = Some (u, p) \<Longrightarrow> p \<noteq> []"
  by (auto simp: resolve_dashboard_auth_def Let_def opt_filter_Some)

lemma resolve_identifiers_ok:
  assumes "resolve_identifiers kind valid fallback chosen = Inr xs" "distinct fallback" "set fallback \<subseteq> set valid"
  shows "distinct xs \<and> set xs \<subseteq> set valid"
  using assms by (auto simp: resolve_identifiers_def bind_result_Inr split: option.splits dest: check_identifiers_ok)

lemma resolve_dashboard_ok:
  assumes "resolve_dashboard io file = Inr d"
  shows "distinct (dc_cards d) \<and> set (dc_cards d) \<subseteq> set VALID_CARDS \<and>
    distinct (dc_graphs d) \<and> set (dc_graphs d) \<subseteq> set VALID_GRAPHS \<and> dc_max_rows d \<noteq> Some 0"
proof (cases "Option.bind file cf_dashboard")
  case None
  with assms show ?thesis
    by (auto simp: resolve_dashboard_def dashboard_config_default_def VALID_CARDS_def VALID_GRAPHS_def)
next
  case (Some f)
  from assms obtain cards graphs where
    c: "resolve_identifiers ''card'' VALID_CARDS (dc_cards (dashboard_config_default :: 'a dashboard_config)) (dcf_cards f) = Inr cards"
    and g: "resolve_identifiers ''graph'' VALID_GRAPHS (dc_graphs (dashboard_config_default :: 'a dashboard_config)) (dcf_graphs f) = Inr graphs"
    and d: "dc_cards d = cards" "dc_graphs d = graphs" "dc_max_rows d \<noteq> Some 0"
    by (auto simp: resolve_dashboard_def Some bind_result_Inr split: option.splits if_splits)
  have "distinct cards \<and> set cards \<subseteq> set VALID_CARDS"
    by (rule resolve_identifiers_ok [OF c]) (simp_all add: dashboard_config_default_def VALID_CARDS_def)
  moreover have "distinct graphs \<and> set graphs \<subseteq> set VALID_GRAPHS"
    by (rule resolve_identifiers_ok [OF g]) (simp_all add: dashboard_config_default_def VALID_GRAPHS_def)
  ultimately show ?thesis using d by simp
qed

lemma distinct_paths:
  assumes "validate_distinct_paths io tls = Inr ()" "tls_enabled tls"
  shows "tls_cert_path tls \<noteq> tls_key_path tls"
  using assms by (auto simp: validate_distinct_paths_def bind_result_Inr split: if_splits)

lemma resolve_tls_ok:
  assumes "resolve_tls io a b c cfg = Inr tls" "tls_enabled tls"
  shows "tls_cert_path tls \<noteq> [] \<and> tls_key_path tls \<noteq> [] \<and> tls_cert_path tls \<noteq> tls_key_path tls \<and>
    [] \<notin> set (tls_hostnames tls)"
proof -
  from assms obtain cert key hostnames where
    t: "tls = \<lparr>tls_enabled = True, tls_cert_path = cert, tls_key_path = key, tls_hostnames = hostnames\<rparr>"
    and "cert \<noteq> []" "key \<noteq> []" "[] \<notin> set hostnames" and v: "validate_distinct_paths io tls = Inr ()"
    by (auto simp: resolve_tls_def bind_result_Inr Let_def split: if_splits)
  moreover have "cert \<noteq> key" using distinct_paths [OF v assms(2)] t by simp
  ultimately show ?thesis by simp
qed

lemma resolve_tls_flag: "resolve_tls io (Some t) a b cfg = Inr tls \<Longrightarrow> tls_enabled tls = t"
  by (auto simp: resolve_tls_def resolve_tls_enabled_def bind_result_Inr Let_def split: if_splits)

lemma assemble_ok:
  assumes "32 \<le> ci_max_permits io" "assemble io cli file days backends upstream gpu flat = Inr c"
    and "backends \<noteq> []" "list_all backend_config_ok backends" "flat \<longrightarrow> length backends = 1"
    and "upstream = bc_upstream (backends ! 0)" "gpu = bc_gpu_watts (backends ! 0)" "uint days * 86400 \<le> i64_max"
  shows "config_ok (ci_max_permits io) c"
proof -
  from assms(2) have r: "resolve_load_balancing io file = Inr (cfg_load_balancing c)"
    "resolve_dashboard io file = Inr (cfg_dashboard c)"
    "resolve_max_concurrency io (cli_max_concurrency cli) (Option.bind file cf_max_concurrency) = Inr (cfg_max_concurrency c)"
    "resolve_tls io (cli_tls cli) (cli_tls_cert cli) (cli_tls_key cli) (Option.bind file cf_tls) = Inr (cfg_tls c)"
    "resolve_fair_queue file = Inr (cfg_fair_queue c)" "resolve_metrics_token io file = Inr (cfg_metrics_token c)"
    "cfg_dashboard_auth c = resolve_dashboard_auth io file" "cfg_backends c = backends" "cfg_upstream c = upstream"
    "cfg_gpu_watts c = gpu" "cfg_flat_passthrough c = flat" "cfg_retention_days c = days"
    by (auto simp: assemble_def bind_result_Inr)
  have "case cfg_dashboard_auth c of None \<Rightarrow> True | Some (u, p) \<Rightarrow> p \<noteq> []"
    unfolding r(7) using resolve_dashboard_auth_ok [where io = io and fl = "file"] by (auto split: option.splits)
  with assms r(8-12) resolve_load_balancing_ok [OF r(1)] resolve_dashboard_ok [OF r(2)]
    resolve_max_concurrency_ok [OF assms(1) r(3)] resolve_tls_ok [OF r(4)] resolve_fair_queue_ok [OF r(5)]
    resolve_metrics_token_ok [OF r(6)]
  show ?thesis unfolding config_ok_def by blast
qed

text \<open>What both modes have in common: valid backends, assembled with the single values.\<close>

lemma resolve_assembled:
  assumes "resolve io cli = Inr c" "load_layer io cli = Inr fl"
  shows "\<exists>days backends upstream gpu flat. assemble io cli fl days backends upstream gpu flat = Inr c \<and>
    backends \<noteq> [] \<and> list_all backend_config_ok backends \<and> (flat \<longrightarrow> length backends = 1) \<and>
    upstream = bc_upstream (backends ! 0) \<and> gpu = bc_gpu_watts (backends ! 0) \<and> uint days * 86400 \<le> i64_max \<and>
    (if Option.bind fl cf_backends = None then flat
     else \<not> flat \<and> cli_upstream cli = None \<and> var_ok (ci_var io ''UPSTREAM_URL'') = None \<and>
          Option.bind fl cf_upstream = None \<and> Option.bind fl cf_gpu_watts = None)"
proof -
  from assms obtain days where ld: "resolve_retention_days fl = Inr days"
    by (auto simp: resolve_def bind_result_Inr)
  note days = resolve_retention_days_ok [OF ld]
  show ?thesis
  proof (cases "Option.bind fl cf_backends")
    case (Some arr)
    with assms ld obtain backends where b: "resolve_backends io arr = Inr backends"
      "assemble io cli fl days backends (bc_upstream (backends ! 0)) (bc_gpu_watts (backends ! 0)) False = Inr c"
      "cli_upstream cli = None" "var_ok (ci_var io ''UPSTREAM_URL'') = None" "Option.bind fl cf_upstream = None"
      "Option.bind fl cf_gpu_watts = None"
      by (auto simp: resolve_def bind_result_Inr Let_def split: if_splits)
    with resolve_backends_ok [OF b(1)] days Some show ?thesis
      by (intro exI [of _ days] exI [of _ backends] exI [of _ "bc_upstream (backends ! 0)"]
            exI [of _ "bc_gpu_watts (backends ! 0)"] exI [of _ False]) simp
  next
    case None
    with assms ld obtain gpu upstream where f: "resolve_gpu_watts io fl = Inr gpu"
      "assemble io cli fl days [flat_backend upstream gpu] upstream gpu True = Inr c"
      by (auto simp: resolve_def bind_result_Inr Let_def)
    from resolve_gpu_watts_ok [OF f(1)] have "list_all backend_config_ok [flat_backend upstream gpu]"
      by (simp add: flat_backend_ok)
    with f(2) days None show ?thesis
      by (intro exI [of _ days] exI [of _ "[flat_backend upstream gpu]"] exI [of _ upstream] exI [of _ gpu] exI [of _ True])
         (simp add: flat_backend_def)
  qed
qed

lemma resolve_valid:
  assumes "32 \<le> ci_max_permits io" "resolve io cli = Inr c"
  shows "config_ok (ci_max_permits io) c"
proof -
  from assms(2) obtain fl where "load_layer io cli = Inr fl" by (auto simp: resolve_def bind_result_Inr)
  from resolve_assembled [OF assms(2) this] show ?thesis
    by (elim exE conjE) (rule assemble_ok [OF assms(1)])
qed

section \<open>Properties\<close>

text \<open>
  A sample environment for the witnesses: the database path and the address come from the environment, there is
  no file, and every URL parses to a plain \<open>http\<close> one.
\<close>

definition sample_io :: "nat config_io" where
  "sample_io =
     \<lparr>ci_var = (\<lambda>name. if name = ''DB_PATH'' then VarOk ''env.db'' else if name = ''BIND_ADDR'' then VarOk ''0.0.0.0:80''
                       else VarNotPresent),
      ci_exists = (\<lambda>_. False), ci_read = (\<lambda>_. Inl ''no such file''), ci_from_str = (\<lambda>_. Inl ''empty''),
      ci_current_dir = Inr ''/'', ci_try_exists = (\<lambda>_. Inr False), ci_canonicalize = (\<lambda>_. Inl ''no such file''),
      ci_parse_url = (\<lambda>_. Inr \<lparr>url_scheme = ''http'', url_host = Some ''h'', url_query = None, url_fragment = None,
                               url_before_path = ''http://h'', url_path = ''/''\<rparr>),
      ci_parse_ip = (\<lambda>_. None), ci_header_name = Some, ci_header_value = (\<lambda>_. True), ci_show_f64 = (\<lambda>_. []),
      ci_show_debug = id, ci_max_permits = 1000\<rparr>"

definition sample_cli :: cli where
  "sample_cli =
     \<lparr>cli_port = Some 8443, cli_host = None, cli_upstream = Some ''http://h/'', cli_db = None, cli_max_concurrency = Some 7,
      cli_config = None, cli_tls = Some False, cli_tls_cert = None, cli_tls_key = None\<rparr>"

lemma sample_layer: "load_layer sample_io sample_cli = Inr None"
  by (simp add: load_layer_def resolve_config_path_def sample_io_def sample_cli_def)

lemma sample_resolves: "\<exists>c. resolve sample_io sample_cli = Inr c"
proof -
  have days: "resolve_retention_days None = Inr 90"
    by (simp add: resolve_retention_days_def checked64_def checked_mul_def in_i64_def i64_max_def i64_min_def)
  have up: "resolve_upstream sample_io (cli_upstream sample_cli) None = Inr ''http://h''"
    by (simp add: resolve_upstream_def validate_upstream_def sample_io_def trim_end_matches_def)
  have vals: "resolve_load_balancing sample_io None = Inr load_balancing_default"
    "resolve_dashboard sample_io None = Inr dashboard_config_default"
    "resolve_fair_queue None = Inr fair_queue_config_default" "resolve_metrics_token sample_io None = Inr None"
    by (simp_all add: resolve_load_balancing_def resolve_dashboard_def resolve_fair_queue_def
          fair_queue_config_default_def resolve_metrics_token_def sample_io_def)
  have conc: "resolve_max_concurrency sample_io (cli_max_concurrency sample_cli) None = Inr 7"
    by (simp add: resolve_max_concurrency_def validate_concurrency_def sample_io_def sample_cli_def)
  have tls: "\<exists>t. resolve_tls sample_io (cli_tls sample_cli) (cli_tls_cert sample_cli) (cli_tls_key sample_cli) None = Inr t"
    by (simp add: resolve_tls_def resolve_tls_enabled_def validate_distinct_paths_def sample_cli_def)
  show ?thesis
    using tls by (auto simp: resolve_def sample_layer days up vals conc assemble_def resolve_gpu_watts_def)
qed





text \<open>
  C38: Secrets never reach a log through \<open>Debug\<close>. The output for a configuration, or for a configuration
  file, is the same as for one in which every API key, every backend header, the dashboard credentials and the
  metrics token have been overwritten: it depends on none of them, only on whether they are present.
\<close>

theorem debug_redacts_secrets:
  "debug_config c = debug_config (erase_secrets c) \<and>
   (debug_config_file f :: 'ip debug_value) = debug_config_file (erase_file_secrets f)"
proof -
  have backend: "(debug_backend_config b :: 'a debug_value) = debug_backend_config (erase_backend b)" for b
    by (simp add: debug_backend_config_def erase_backend_def redacted_if_present_def split: option.splits)
  have backend_file: "(debug_backend_config_file b :: 'ip debug_value) = debug_backend_config_file (erase_backend_file b)" for b
    by (simp add: debug_backend_config_file_def erase_backend_file_def redacted_if_present_def split: option.splits)
  have "debug_config c = debug_config (erase_secrets c)"
    unfolding debug_config_def erase_secrets_def
    by (simp add: redacted_if_present_def backend [symmetric] split: option.splits)
  moreover have "(debug_config_file f :: 'ip debug_value) = debug_config_file (erase_file_secrets f)"
    unfolding debug_config_file_def erase_file_secrets_def
    by (simp add: redacted_if_present_def backend_file [symmetric] split: option.splits)
  ultimately show ?thesis by simp
qed

end
