(* ===== verification/Handlers.thy ===== *)
theory Handlers
  imports Auth
begin

text \<open>
  The management API (\<open>crates/twl-server/src/handlers/accounts.rs\<close>, with the response helpers of \<open>routes.rs\<close>): one
  definition per handler, from the authenticated user and the decoded body to the response and the identity tables
  afterwards. What a handler takes from outside (clock, hashes, random source, the order of equal sort keys, a
  failure to get a connection and a panic of the blocking task) is a field of \<open>api_env\<close>. The header
  \<open>content-type: application/json\<close> that every JSON body implies is not listed; one that is set explicitly is.
\<close>

section \<open>Responses\<close>

definition json_int :: "int \<Rightarrow> json" where
  "json_int i = Number (if 0 \<le> i then PosInt (word_of_int i) else NegInt (word_of_int i))"

definition json_f64 :: "f64 \<Rightarrow> json" where
  "json_f64 x = (if is_finite x then Number (Float x) else Null)"

text \<open>The object of \<open>json!\<close> or of a derived \<open>Serialize\<close>: a map filled field by field.\<close>

definition json_object :: "(string \<times> json) list \<Rightarrow> json" where
  "json_object fs = Object (foldl (\<lambda>m (k, v). map_insert k v m) [] fs)"

definition json_opt :: "('a \<Rightarrow> json) \<Rightarrow> 'a option \<Rightarrow> json" where
  "json_opt f x = (case x of None \<Rightarrow> Null | Some y \<Rightarrow> f y)"

definition problem :: "nat \<Rightarrow> string \<Rightarrow> string \<Rightarrow> response" where
  "problem status title detail =
     \<lparr>r_status = status, r_headers = [(''content-type'', ''application/problem+json'')],
      r_body = JsonBody (json_object
        [(''type'', String ''about:blank''), (''title'', String title), (''status'', json_int (int status)),
         (''detail'', String detail)])\<rparr>"

fun show_db_error :: "db_error \<Rightarrow> string" where
  "show_db_error UniqueViolation = ''unique constraint violation''"
| "show_db_error Clock = ''system clock before Unix epoch''"
| "show_db_error (Pool e) = ''connection pool error: '' @ e"
| "show_db_error (Sqlite e) = e"

definition internal_problem :: "string \<Rightarrow> response" where
  "internal_problem detail = problem 500 ''Internal Server Error'' detail"

text \<open>The outcome of a blocking task: \<open>None\<close> when it panicked.\<close>

definition run_db_problem :: "(db_error + 'a) option \<Rightarrow> string \<Rightarrow> response + 'a" where
  "run_db_problem result panic_detail =
     (case result of
        Some (Inr v) \<Rightarrow> Inr v
      | Some (Inl e) \<Rightarrow> Inl (internal_problem (show_db_error e))
      | None \<Rightarrow> Inl (internal_problem panic_detail))"

definition db_error_response :: "db_error \<Rightarrow> response" where
  "db_error_response e = plain 500 (JsonBody (json_object [(''error'', String (show_db_error e))]))"

definition server_error :: "string \<Rightarrow> response" where
  "server_error msg = plain 500 (JsonBody (json_object [(''error'', String msg)]))"

definition run_db :: "(db_error + 'a) option \<Rightarrow> string \<Rightarrow> response + 'a" where
  "run_db result msg =
     (case result of
        Some (Inr v) \<Rightarrow> Inr v
      | Some (Inl e) \<Rightarrow> Inl (db_error_response e)
      | None \<Rightarrow> Inl (server_error msg))"

section \<open>The outside\<close>

text \<open>
  A blocking task that panics leaves the tables as they were: its transaction rolls back. \<open>env_conn\<close> is the
  error of the pool when a read finds no connection.
\<close>

record api_env =
  env_clock :: "int option"
  env_hash_password :: "string \<Rightarrow> string + string"
  env_verify_password :: "string \<Rightarrow> string \<Rightarrow> string + bool"
  env_sha256_hex :: "string \<Rightarrow> string"
  env_random :: string
  env_order_keys :: "(key_row \<Rightarrow> int) \<Rightarrow> key_row list \<Rightarrow> key_row list"
  env_order_users :: "(user_row \<Rightarrow> int) \<Rightarrow> user_row list \<Rightarrow> user_row list"
  env_conn :: "db_error option"
  env_panicked :: bool

definition spawn_blocking :: "api_env \<Rightarrow> (database \<Rightarrow> 'a \<times> database) \<Rightarrow> database \<Rightarrow> 'a option \<times> database" where
  "spawn_blocking env f db = (if env_panicked env then (None, db) else (case f db of (r, db') \<Rightarrow> (Some r, db')))"

definition blocking_read :: "api_env \<Rightarrow> (database \<Rightarrow> 'a) \<Rightarrow> database \<Rightarrow> (db_error + 'a) option" where
  "blocking_read env f db =
     (if env_panicked env then None
      else Some (case env_conn env of Some e \<Rightarrow> Inl e | None \<Rightarrow> Inr (f db)))"

section \<open>Handlers\<close>

record create_user_request =
  cu_username :: string
  cu_password :: string
  cu_admin :: "bool option"

fun show_account_error :: "account_error \<Rightarrow> string" where
  "show_account_error InvalidUsername =
     ''username must be 1-64 characters of ASCII alphanumerics, dots, dashes or underscores''"
| "show_account_error WeakPassword = ''password must be at least 8 characters''"
| "show_account_error UsernameTaken = ''username already exists''"
| "show_account_error NotFound = ''user not found''"
| "show_account_error LastAdmin = ''the last admin cannot be deleted''"
| "show_account_error WrongPassword = ''old password is wrong''"
| "show_account_error ConcurrentPasswordChange = ''password was changed concurrently''"
| "show_account_error (Db e) = ''database error: '' @ show_db_error e"
| "show_account_error (Internal m) = m"

definition forbidden :: response where
  "forbidden = problem 403 ''Forbidden'' ''admin access required''"

definition user_not_found :: response where
  "user_not_found = problem 404 ''Not Found'' ''user not found''"

definition no_content :: response where
  "no_content = plain 204 (Text [])"

definition create_user_api ::
    "api_env \<Rightarrow> auth_user \<Rightarrow> create_user_request \<Rightarrow> database \<Rightarrow> response \<times> database" where
  "create_user_api env user body db =
     (if \<not> au_is_admin user then (forbidden, db)
      else (let is_admin = unwrap_or (cu_admin body) False
            in case spawn_blocking env
                      (create_user (env_clock env) (env_hash_password env) (cu_username body) (cu_password body) is_admin) db of
                 (Some (Inr i), db') \<Rightarrow>
                   (\<lparr>r_status = 201, r_headers = [(''location'', ''/api/users/'' @ show_int i)],
                     r_body = JsonBody (json_object [(''id'', json_int i), (''username'', String (cu_username body)),
                                                     (''admin'', Bool is_admin)])\<rparr>, db')
               | (Some (Inl InvalidUsername), db') \<Rightarrow> (problem 400 ''Bad Request'' (show_account_error InvalidUsername), db')
               | (Some (Inl WeakPassword), db') \<Rightarrow> (problem 400 ''Bad Request'' (show_account_error WeakPassword), db')
               | (Some (Inl UsernameTaken), db') \<Rightarrow> (problem 409 ''Conflict'' ''username already exists'', db')
               | (Some (Inl e), db') \<Rightarrow> (internal_problem (show_account_error e), db')
               | (None, db') \<Rightarrow> (internal_problem ''database task panicked'', db')))"

text \<open>The prefix is derived again from the raw key, whose characters are ASCII.\<close>

definition create_api_key_api ::
    "api_env \<Rightarrow> auth_user \<Rightarrow> string option option \<Rightarrow> database \<Rightarrow> response \<times> database" where
  "create_api_key_api env user body db =
     (let name = Option.bind body (\<lambda>b. b)
      in case spawn_blocking env
                (create_api_key (env_clock env) (env_sha256_hex env) (env_random env) (au_id user) name) db of
           (Some (Inr (i, raw_key)), db') \<Rightarrow>
             (\<lparr>r_status = 201, r_headers = [(''location'', ''/api/keys/'' @ show_int i)],
               r_body = JsonBody (json_object [(''id'', json_int i), (''name'', json_opt String name),
                 (''prefix'', String (take 10 raw_key)), (''key'', String raw_key),
                 (''note'', String ''this is the only time the key will be shown; it is stored hashed'')])\<rparr>, db')
         | (Some (Inl e), db') \<Rightarrow> (internal_problem (show_account_error e), db')
         | (None, db') \<Rightarrow> (internal_problem ''database task panicked'', db'))"

definition api_key_entry :: "api_key_row \<Rightarrow> json" where
  "api_key_entry r = json_object [(''id'', json_int (ak_id r)), (''name'', json_opt String (ak_name r)),
     (''prefix'', String (ak_prefix r)), (''created_ts'', json_int (ak_created_ts r))]"

definition list_api_keys_api :: "api_env \<Rightarrow> auth_user \<Rightarrow> database \<Rightarrow> response" where
  "list_api_keys_api env user db =
     (case run_db_problem (blocking_read env (list_api_keys (env_order_keys env) (au_id user)) db) ''database task panicked'' of
        Inl resp \<Rightarrow> resp
      | Inr rows \<Rightarrow> plain 200 (JsonBody (json_object [(''keys'', Array (map api_key_entry rows))])))"

definition me_api :: "auth_user \<Rightarrow> response" where
  "me_api user = plain 200 (JsonBody (json_object
     [(''id'', json_int (au_id user)), (''username'', String (au_username user)), (''admin'', Bool (au_is_admin user))]))"

definition user_list_entry :: "user_list_row \<Rightarrow> json" where
  "user_list_entry u = json_object [(''id'', json_int (ul_id u)), (''username'', String (ul_username u)),
     (''is_admin'', Bool (ul_is_admin u)), (''created_ts'', json_int (ul_created_ts u))]"

definition list_users_api :: "api_env \<Rightarrow> auth_user \<Rightarrow> database \<Rightarrow> response" where
  "list_users_api env user db =
     (if \<not> au_is_admin user then forbidden
      else (case run_db_problem (blocking_read env (list_users (env_order_users env)) db) ''database task panicked'' of
              Inl resp \<Rightarrow> resp
            | Inr users \<Rightarrow> plain 200 (JsonBody (json_object [(''users'', Array (map user_list_entry users))]))))"

definition get_user_api :: "api_env \<Rightarrow> auth_user \<Rightarrow> int \<Rightarrow> database \<Rightarrow> response" where
  "get_user_api env user i db =
     (if \<not> au_is_admin user then forbidden
      else (case run_db_problem (blocking_read env (get_user_by_id i) db) ''database task panicked'' of
              Inl resp \<Rightarrow> resp
            | Inr (Some row) \<Rightarrow> plain 200 (JsonBody (json_object
                [(''id'', json_int (us_id row)), (''username'', String (us_username row)),
                 (''admin'', Bool (us_is_admin row)), (''created_ts'', json_int (us_created_ts row))]))
            | Inr None \<Rightarrow> user_not_found))"

definition delete_user_api :: "api_env \<Rightarrow> auth_user \<Rightarrow> int \<Rightarrow> database \<Rightarrow> response \<times> database" where
  "delete_user_api env user i db =
     (if \<not> au_is_admin user then (forbidden, db)
      else (case spawn_blocking env (delete_user i) db of
              (Some (Inr _), db') \<Rightarrow> (no_content, db')
            | (Some (Inl NotFound), db') \<Rightarrow> (user_not_found, db')
            | (Some (Inl LastAdmin), db') \<Rightarrow> (problem 409 ''Conflict'' ''the last admin cannot be deleted'', db')
            | (Some (Inl e), db') \<Rightarrow> (internal_problem (show_account_error e), db')
            | (None, db') \<Rightarrow> (internal_problem ''database task panicked'', db')))"

definition reset_password_api :: "api_env \<Rightarrow> auth_user \<Rightarrow> int \<Rightarrow> string \<Rightarrow> database \<Rightarrow> response \<times> database" where
  "reset_password_api env user i password db =
     (if \<not> au_is_admin user then (forbidden, db)
      else (case spawn_blocking env (reset_password (env_hash_password env) i password) db of
              (Some (Inr _), db') \<Rightarrow> (no_content, db')
            | (Some (Inl WeakPassword), db') \<Rightarrow> (problem 400 ''Bad Request'' (show_account_error WeakPassword), db')
            | (Some (Inl NotFound), db') \<Rightarrow> (user_not_found, db')
            | (Some (Inl e), db') \<Rightarrow> (internal_problem (show_account_error e), db')
            | (None, db') \<Rightarrow> (internal_problem ''database task panicked'', db')))"

text \<open>\<open>meanwhile\<close> is what other requests do between the verification and the compare-and-swap.\<close>

definition change_password_api ::
    "api_env \<Rightarrow> (database \<Rightarrow> database) \<Rightarrow> auth_user \<Rightarrow> string \<Rightarrow> string \<Rightarrow> database \<Rightarrow> response \<times> database" where
  "change_password_api env meanwhile user old_password new_password db =
     (case spawn_blocking env
             (change_password (env_hash_password env) (env_verify_password env) meanwhile (au_id user) old_password new_password) db of
        (Some (Inr _), db') \<Rightarrow> (no_content, db')
      | (Some (Inl WeakPassword), db') \<Rightarrow> (problem 400 ''Bad Request'' (show_account_error WeakPassword), db')
      | (Some (Inl WrongPassword), db') \<Rightarrow> (problem 403 ''Forbidden'' ''old password is wrong'', db')
      | (Some (Inl ConcurrentPasswordChange), db') \<Rightarrow>
          (problem 409 ''Conflict'' ''password changed during this request; retry with the current password'', db')
      | (Some (Inl e), db') \<Rightarrow> (internal_problem (show_account_error e), db')
      | (None, db') \<Rightarrow> (internal_problem ''database task panicked'', db'))"

definition delete_api_key_api :: "api_env \<Rightarrow> auth_user \<Rightarrow> int \<Rightarrow> database \<Rightarrow> response \<times> database" where
  "delete_api_key_api env user i db =
     (case spawn_blocking env
             (\<lambda>d. case env_conn env of Some e \<Rightarrow> (Inl e, d) | None \<Rightarrow> (case delete_api_key i (au_id user) d of (n, d') \<Rightarrow> (Inr n, d'))) db of
        (r, db') \<Rightarrow>
          (case run_db_problem r ''database task panicked'' of
             Inl resp \<Rightarrow> (resp, db')
           | Inr n_rows \<Rightarrow>
               if n_rows = 0 then (problem 404 ''Not Found'' ''api key not found'', db') else (no_content, db')))"

section \<open>All requests\<close>

datatype api_request =
    CreateUserReq create_user_request
  | CreateKeyReq "string option option"
  | ListKeysReq
  | MeReq
  | ListUsersReq
  | GetUserReq int
  | DeleteUserReq int
  | ResetPasswordReq int string
  | ChangePasswordReq string string
  | DeleteKeyReq int

text \<open>The handler behind each route, with no other request between its two steps.\<close>

fun management_api :: "api_env \<Rightarrow> auth_user \<Rightarrow> api_request \<Rightarrow> database \<Rightarrow> response \<times> database" where
  "management_api env user (CreateUserReq body) db = create_user_api env user body db"
| "management_api env user (CreateKeyReq body) db = create_api_key_api env user body db"
| "management_api env user ListKeysReq db = (list_api_keys_api env user db, db)"
| "management_api env user MeReq db = (me_api user, db)"
| "management_api env user ListUsersReq db = (list_users_api env user db, db)"
| "management_api env user (GetUserReq i) db = (get_user_api env user i db, db)"
| "management_api env user (DeleteUserReq i) db = delete_user_api env user i db"
| "management_api env user (ResetPasswordReq i password) db = reset_password_api env user i password db"
| "management_api env user (ChangePasswordReq old new) db = change_password_api env id user old new db"
| "management_api env user (DeleteKeyReq i) db = delete_api_key_api env user i db"

fun admin_only :: "api_request \<Rightarrow> bool" where
  "admin_only (CreateUserReq _) = True"
| "admin_only ListUsersReq = True"
| "admin_only (GetUserReq _) = True"
| "admin_only (DeleteUserReq _) = True"
| "admin_only (ResetPasswordReq _ _) = True"
| "admin_only _ = False"

text \<open>
  What a user may not touch: every user row but for the own password, and the keys and attributions of the others.
\<close>

definition protected_of :: "int \<Rightarrow> database \<Rightarrow> user_row list \<times> user_row list \<times> key_row list \<times> attribution_row list" where
  "protected_of i db =
     (filter (\<lambda>u. us_id u \<noteq> i) (db_users db), map (\<lambda>u. u\<lparr>us_password_hash := []\<rparr>) (db_users db),
      filter (\<lambda>k. kr_user_id k \<noteq> i) (db_keys db), filter (\<lambda>a. at_user_id a \<noteq> i) (db_attribution db))"

lemmas handler_defs =
  create_user_api_def create_api_key_api_def delete_user_api_def reset_password_api_def change_password_api_def
  delete_api_key_api_def list_api_keys_api_def me_api_def list_users_api_def get_user_api_def

lemmas response_defs =
  problem_def internal_problem_def forbidden_def user_not_found_def no_content_def plain_def

lemmas handler_splits = prod.splits option.splits sum.splits account_error.splits

subsection \<open>Failing operations\<close>

lemma create_user_row_error: "create_user_row clock n h a db = (Inl e, db') \<Longrightarrow> db' = db"
  by (auto simp: create_user_row_def Let_def split: option.splits if_splits)

lemma create_user_error: "create_user clock hash n p a db = (Inl e, db') \<Longrightarrow> db' = db"
  by (auto simp: create_user_def dest: create_user_row_error split: if_splits sum.splits prod.splits db_error.splits)

lemma insert_api_key_error: "insert_api_key clock u n h p db = (Inl e, db') \<Longrightarrow> db' = db"
  by (auto simp: insert_api_key_def Let_def split: option.splits if_splits)

lemma create_api_key_error: "create_api_key clock sha random u n db = (Inl e, db') \<Longrightarrow> db' = db"
  by (auto simp: create_api_key_def dest: insert_api_key_error split: sum.splits prod.splits)

lemma delete_user_error: "delete_user i db = (Inl e, db') \<Longrightarrow> db' = db"
  by (auto simp: delete_user_def delete_user_guarded_def split: option.splits if_splits prod.splits delete_user_outcome.splits)

lemma reset_password_error:
  assumes "db_inv db" "reset_password hash i p db = (Inl e, db')"
  shows "db' = db"
proof -
  have n: "n = 1" if "replace_password_and_revoke_keys i h db = (n, d)" "get_user_by_id i db = Some u" for h u n d
    using update_count [OF assms(1), of i "\<lambda>_. True" h] that
    by (auto simp: replace_password_and_revoke_keys_def split_beta)
  show ?thesis using assms(2)
    by (auto simp: reset_password_def update_result_def dest: n split: if_splits option.splits sum.splits prod.splits)
qed

lemma change_password_error:
  assumes "db_inv db" "change_password hash verify id i old new db = (Inl e, db')"
  shows "db' = db"
proof (cases "change_password_verify hash verify i old new db")
  case (Inr hs)
  with assms(2) have "change_password_commit i (fst hs, snd hs) db = (Inl e, db')" by (simp add: change_password_def)
  from commit_effect [OF assms(1) this] show ?thesis by (auto split: option.splits if_splits)
qed (use assms(2) in \<open>simp add: change_password_def\<close>)

lemma delete_api_key_none: "delete_api_key i u db = (0, db') \<Longrightarrow> db' = db"
  by (auto simp: delete_api_key_def filter_empty_conv intro!: filter_True)

subsection \<open>Confined operations\<close>

lemma create_api_key_confined: "protected_of u (snd (create_api_key clock sha random u n db)) = protected_of u db"
  by (auto simp: create_api_key_db insert_api_key_def protected_of_def Let_def split: option.splits)

lemma delete_api_key_confined: "protected_of u (snd (delete_api_key i u db)) = protected_of u db"
  by (auto simp: delete_api_key_def protected_of_def intro: filter_cong)

lemma update_where_confined: "protected_of i (snd (update_where (\<lambda>u. us_id u = i \<and> Q u) h db)) = protected_of i db"
proof -
  have "filter (\<lambda>u. us_id u \<noteq> i) (map (\<lambda>u. if us_id u = i \<and> Q u then u\<lparr>us_password_hash := h\<rparr> else u) us) =
      filter (\<lambda>u. us_id u \<noteq> i) us" for us
    by (induction us) auto
  then show ?thesis by (simp add: protected_of_def update_where_def)
qed

lemma delete_keys_confined: "protected_of i (snd (delete_api_keys_for_user i db)) = protected_of i db"
  by (simp add: delete_api_keys_for_user_def protected_of_def)

lemma change_password_confined: "protected_of i (snd (change_password hash verify id i old new db)) = protected_of i db"
  by (auto simp: change_password_def change_password_commit_db compare_and_swap_password_and_revoke_keys_def split_beta
        update_where_confined delete_keys_confined split: sum.splits)

subsection \<open>Every request is a sequence of account steps\<close>

lemma spawn_blocking_cases:
  "spawn_blocking env f db = (r, db') \<longleftrightarrow>
     (if env_panicked env then r = None \<and> db' = db else r = Some (fst (f db)) \<and> db' = snd (f db))"
  by (auto simp: spawn_blocking_def split: prod.splits)

lemma change_password_steps:
  "\<exists>es. snd (change_password hash verify id i old new db) = foldl (account_exec hash sha) db es"
proof (cases "change_password_verify hash verify i old new db")
  case (Inl e)
  then show ?thesis by (intro exI [of _ "[]"]) (simp add: change_password_def)
next
  case (Inr hs)
  then show ?thesis by (intro exI [of _ "[CommitPassword i hs]"]) (simp add: change_password_def)
qed

lemma create_user_api_db:
  "snd (create_user_api env user body db) =
     (if \<not> au_is_admin user \<or> env_panicked env then db
      else snd (create_user (env_clock env) (env_hash_password env) (cu_username body) (cu_password body)
                  (unwrap_or (cu_admin body) False) db))"
  by (auto simp: create_user_api_def spawn_blocking_def Let_def split: handler_splits)

lemma create_api_key_api_db:
  "snd (create_api_key_api env user body db) =
     (if env_panicked env then db
      else snd (create_api_key (env_clock env) (env_sha256_hex env) (env_random env) (au_id user) (Option.bind body (\<lambda>b. b)) db))"
  by (auto simp: create_api_key_api_def spawn_blocking_def Let_def split: prod.splits option.splits sum.splits)

lemma delete_user_api_db:
  "snd (delete_user_api env user i db) = (if \<not> au_is_admin user \<or> env_panicked env then db else snd (delete_user i db))"
  by (auto simp: delete_user_api_def spawn_blocking_def split: handler_splits)

lemma reset_password_api_db:
  "snd (reset_password_api env user i p db) =
     (if \<not> au_is_admin user \<or> env_panicked env then db else snd (reset_password (env_hash_password env) i p db))"
  by (auto simp: reset_password_api_def spawn_blocking_def split: handler_splits)

lemma change_password_api_db:
  "snd (change_password_api env m user old new db) =
     (if env_panicked env then db
      else snd (change_password (env_hash_password env) (env_verify_password env) m (au_id user) old new db))"
  by (auto simp: change_password_api_def spawn_blocking_def split: handler_splits)

lemma delete_api_key_api_db:
  "snd (delete_api_key_api env user i db) =
     (if env_panicked env \<or> env_conn env \<noteq> None then db else snd (delete_api_key i (au_id user) db))"
  by (auto simp: delete_api_key_api_def spawn_blocking_def run_db_problem_def split: prod.splits option.splits sum.splits)

lemmas handler_dbs =
  create_user_api_db create_api_key_api_db delete_user_api_db reset_password_api_db change_password_api_db
  delete_api_key_api_db

lemma management_steps:
  "\<exists>es. snd (management_api env user req db) = foldl (account_exec (env_hash_password env) (env_sha256_hex env)) db es"
proof -
  let ?ex = "account_exec (env_hash_password env) (env_sha256_hex env)"
  have none: "\<exists>es. db = foldl ?ex db es" by (rule exI [of _ "[]"]) simp
  have one: "\<exists>es. ?ex db e = foldl ?ex db es" for e by (rule exI [of _ "[e]"]) simp
  note one [of "CreateUser _ _ _ _"] one [of "CreateKey _ _ _ _"] one [of "DeleteUser _"] one [of "DeleteKey _ _"]
    one [of "ResetPassword _ _"]
  with none change_password_steps show ?thesis by (cases req) (simp_all add: handler_dbs)
qed

lemma management_error_unchanged:
  assumes "db_inv db" "management_api env user req db = (r, db')"
  shows "r_status r \<in> {200, 201, 204} \<or> db' = db"
proof (cases req)
  case (CreateUserReq body)
  with assms(2) show ?thesis
    by (auto simp: create_user_api_def spawn_blocking_def response_defs Let_def dest: create_user_error split: handler_splits if_splits)
next
  case (CreateKeyReq body)
  with assms(2) show ?thesis
    by (auto simp: create_api_key_api_def spawn_blocking_def response_defs Let_def dest: create_api_key_error
          split: prod.splits option.splits sum.splits if_splits)
next
  case (DeleteUserReq i)
  with assms(2) show ?thesis
    by (auto simp: delete_user_api_def spawn_blocking_def response_defs dest: delete_user_error split: handler_splits if_splits)
next
  case (ResetPasswordReq i p)
  with assms(2) show ?thesis
    by (auto simp: reset_password_api_def spawn_blocking_def response_defs dest: reset_password_error [OF assms(1)]
          split: handler_splits if_splits)
next
  case (ChangePasswordReq old new)
  with assms(2) show ?thesis
    by (auto simp: change_password_api_def spawn_blocking_def response_defs dest: change_password_error [OF assms(1)]
          split: handler_splits if_splits)
next
  case (DeleteKeyReq i)
  with assms(2) show ?thesis
    by (auto simp: delete_api_key_api_def spawn_blocking_def run_db_problem_def response_defs dest: delete_api_key_none
          split: prod.splits option.splits sum.splits if_splits)
qed (use assms(2) in auto)

lemma management_not_admin:
  assumes "\<not> au_is_admin user"
  shows "protected_of (au_id user) (snd (management_api env user req db)) = protected_of (au_id user) db"
  using assms
  by (cases req) (simp_all add: handler_dbs create_api_key_confined delete_api_key_confined change_password_confined)

lemma management_forbidden:
  assumes "\<not> au_is_admin user" "admin_only req"
  shows "management_api env user req db = (forbidden, db)"
  using assms
  by (cases req)
     (simp_all add: create_user_api_def list_users_api_def get_user_api_def delete_user_api_def reset_password_api_def)

section \<open>Properties\<close>

text \<open>
  C11: The management API is confined. On consistent tables, a request of a user who is no administrator leaves
  every user row as it is, but for the own password, and all keys of the others; in particular nobody makes
  himself an administrator, and the five administrative requests are answered 403 and change nothing. Whoever
  sends a request, an answer other than 200, 201 or 204 means that nothing changed; the tables stay
  consistent and never lose the last administrator.
\<close>

theorem management_api_confined:
  assumes "db_inv db"
  shows "case management_api env user req db of (r, db') \<Rightarrow>
    db_inv db' \<and> (admins db = [] \<or> admins db' \<noteq> []) \<and> (r_status r \<in> {200, 201, 204} \<or> db' = db) \<and>
    (if au_is_admin user then True
     else protected_of (au_id user) db' = protected_of (au_id user) db \<and>
          (if admin_only req then r = forbidden \<and> db' = db else True))"
proof -
  obtain r db' where m: "management_api env user req db = (r, db')" by (cases "management_api env user req db")
  with management_steps [of env user req db] account_run_inv [OF assms]
  have "db_inv db'" "admins db = [] \<or> admins db' \<noteq> []" by fastforce+
  with m management_error_unchanged [OF assms m] management_not_admin [of user env req db]
    management_forbidden [of user req env db]
  show ?thesis by auto
qed

definition sample_env :: api_env where
  "sample_env = \<lparr>env_clock = Some 9, env_hash_password = Inr, env_verify_password = (\<lambda>p h. Inr (p = h)),
     env_sha256_hex = id, env_random = ''abc'', env_order_keys = sort_key, env_order_users = sort_key, env_conn = None,
     env_panicked = False\<rparr>"

theorem management_api_confined_witness:
  "\<exists>r. management_api sample_env \<lparr>au_id = 2, au_username = ''u'', au_is_admin = False\<rparr> (DeleteUserReq 1) demo_db = (r, demo_db) \<and>
     r = forbidden"
  using management_api_confined [OF demo_db_inv, where env = sample_env
      and user = "\<lparr>au_id = 2, au_username = ''u'', au_is_admin = False\<rparr>" and req = "DeleteUserReq 1"]
  by (auto split: prod.splits)

definition erase_user :: "user_row \<Rightarrow> user_row" where
  "erase_user u = u\<lparr>us_password_hash := []\<rparr>"

definition erase_key :: "key_row \<Rightarrow> key_row" where
  "erase_key k = k\<lparr>kr_key_hash := []\<rparr>"

definition erase_hashes :: "database \<Rightarrow> database" where
  "erase_hashes db = db\<lparr>db_users := map erase_user (db_users db), db_keys := map erase_key (db_keys db)\<rparr>"

lemma erase_simps [simp]:
  "us_id (erase_user u) = us_id u" "us_username (erase_user u) = us_username u" "us_is_admin (erase_user u) = us_is_admin u"
  "us_created_ts (erase_user u) = us_created_ts u" "kr_id (erase_key k) = kr_id k" "kr_user_id (erase_key k) = kr_user_id k"
  "kr_name (erase_key k) = kr_name k" "kr_prefix (erase_key k) = kr_prefix k" "kr_created_ts (erase_key k) = kr_created_ts k"
  "(\<lambda>u. us_created_ts (erase_user u)) = us_created_ts"
  by (simp_all add: erase_user_def erase_key_def)

lemma insort_key_map: "insort_key f (g x) (map g xs) = map g (insort_key (\<lambda>x. f (g x)) x xs)"
  by (induction xs) auto

lemma sort_key_map: "sort_key f (map g xs) = map g (sort_key (\<lambda>x. f (g x)) xs)"
  by (induction xs) (simp_all add: insort_key_map)

text \<open>
  No response tells a hash. What the API answers to the requests that read (the list of users, one user, the
  own profile, the own keys) is the same on tables in which every password hash and every key hash has been
  overwritten, when the database orders rows without looking at the hashes.
\<close>

theorem api_hides_hashes:
  assumes "\<And>f xs. env_order_users env f (map erase_user xs) = map erase_user (env_order_users env (\<lambda>u. f (erase_user u)) xs)"
    and "\<And>f xs. env_order_keys env f (map erase_key xs) = map erase_key (env_order_keys env (\<lambda>k. f (erase_key k)) xs)"
  shows "list_users_api env user (erase_hashes db) = list_users_api env user db \<and>
    get_user_api env user i (erase_hashes db) = get_user_api env user i db \<and>
    list_api_keys_api env user (erase_hashes db) = list_api_keys_api env user db"
proof -
  have "list_users (env_order_users env) (erase_hashes db) = list_users (env_order_users env) db"
    by (simp add: list_users_def erase_hashes_def assms(1))
  moreover have "list_api_keys (env_order_keys env) v (erase_hashes db) = list_api_keys (env_order_keys env) v db" for v
    by (simp add: list_api_keys_def erase_hashes_def filter_map comp_def assms(2))
  moreover have "get_user_by_id i (erase_hashes db) = map_option erase_user (get_user_by_id i db)"
    by (simp add: get_user_by_id_def erase_hashes_def find_mapped)
  ultimately show ?thesis
    by (simp add: list_users_api_def list_api_keys_api_def get_user_api_def blocking_read_def run_db_problem_def
          split: option.splits)
qed

theorem api_hides_hashes_witness:
  "list_users_api sample_env \<lparr>au_id = 1, au_username = ''admin'', au_is_admin = True\<rparr> (erase_hashes demo_db) =
   list_users_api sample_env \<lparr>au_id = 1, au_username = ''admin'', au_is_admin = True\<rparr> demo_db"
  using api_hides_hashes [of sample_env "\<lparr>au_id = 1, au_username = ''admin'', au_is_admin = True\<rparr>" demo_db]
  by (simp add: sample_env_def sort_key_map)

end
