(* ===== verification/AppState.thy ===== *)
theory AppState
  imports ConfigResolve Sink FairQueue Routing Handlers
begin

text \<open>
  The dependencies shared by all handlers (\<open>AppState\<close> of \<open>crates/twl-server/src/state.rs\<close>). The two stores are
  the tables they hold; the admission queue is its configuration with its locked state; a semaphore is the number of
  its permits. The HTTP client has no state of its own.
\<close>

record 'ip app_state =
  as_registry :: registry
  as_usage :: usage_db
  as_accounting :: accounting_writer
  as_identity :: database
  as_pricing :: pricing
  as_dashboard :: "'ip dashboard_config"
  as_max_concurrency :: nat
  as_api_key_validation_slots :: nat
  as_fair_queue :: "fair_queue \<times> fq_inner"
  as_public_usage :: bool
  as_require_api_key :: bool
  as_login_throttle :: throttle
  as_metrics_token :: "string option"

end
