(* ===== verification/Watchdog.thy ===== *)
theory Watchdog
  imports Routing
begin

text \<open>
  The model watchdog (\<open>crates/twl-server/src/watchdog.rs\<close>): one polling task per backend with a poll interval, each
  with the identifiers it saw last. What a poll receives (a timeout, a transport error, a status with the text of the
  body or its error) and the JSON parser are parameters; sleeping and logging are not modelled, and the tasks
  interleave in any order.
\<close>

section \<open>One poll\<close>

datatype poll_reply = PollTimedOut | PollFailed string | PollResponse nat "string + string"

text \<open>The address that is asked, and the headers sent along.\<close>

definition poll_request :: "backend \<Rightarrow> string \<times> (string \<times> string) list" where
  "poll_request b = (b_upstream b @ models_endpoint (b_provider b), b_auth_headers b)"

definition is_success :: "nat \<Rightarrow> bool" where
  "is_success status \<longleftrightarrow> 200 \<le> status \<and> status < 300"

definition poll_once :: "(string \<Rightarrow> json option) \<Rightarrow> provider_kind \<Rightarrow> poll_reply \<Rightarrow> model_entry list option" where
  "poll_once from_slice provider reply =
     (case reply of
        PollResponse status (Inr body) \<Rightarrow>
          if is_success status
          then (case parse_models from_slice provider body of Inr entries \<Rightarrow> Some entries | Inl _ \<Rightarrow> None)
          else None
      | _ \<Rightarrow> None)"

section \<open>The tasks\<close>

text \<open>One turn of the loop of the task of backend \<open>idx\<close>, with the identifiers it saw last.\<close>

definition watch_turn ::
    "nat \<Rightarrow> model_entry list option \<Rightarrow> string list option \<Rightarrow> registry \<Rightarrow> reg_panic + (string list option \<times> registry)" where
  "watch_turn idx polled last_ids reg =
     (case polled of
        Some entries \<Rightarrow>
          (let ids = map me_id entries
           in if last_ids \<noteq> Some ids
              then bind_result (set_backend_models idx entries reg) (\<lambda>reg'. Inr (Some ids, reg'))
              else Inr (last_ids, reg))
      | None \<Rightarrow>
          if last_ids \<noteq> Some []
          then bind_result (set_backend_models idx [] reg) (\<lambda>reg'. Inr (Some [], reg'))
          else Inr (last_ids, reg))"

text \<open>The backends with a task, each with its interval.\<close>

definition watched :: "registry \<Rightarrow> (nat \<times> 64 word) list" where
  "watched reg = List.map_filter (\<lambda>(idx, b). map_option (Pair idx) (b_models_poll_secs b)) (enumerate 0 (reg_backends reg))"

text \<open>The turns of all tasks in the order in which they happen; every task starts without identifiers.\<close>

fun watch_run ::
    "(string \<Rightarrow> json option) \<Rightarrow> (nat \<times> poll_reply) list \<Rightarrow> (nat \<Rightarrow> string list option) \<Rightarrow> registry
     \<Rightarrow> reg_panic + ((nat \<Rightarrow> string list option) \<times> registry)" where
  "watch_run from_slice [] known reg = Inr (known, reg)"
| "watch_run from_slice ((idx, reply) # polls) known reg =
     bind_result (watch_turn idx (poll_once from_slice (b_provider (reg_backends reg ! idx)) reply) (known idx) reg)
       (\<lambda>(ids, reg'). watch_run from_slice polls (known(idx := ids)) reg')"

section \<open>What the catalog should hold\<close>

text \<open>The first occurrences, in order.\<close>

fun keep_first :: "string set \<Rightarrow> string list \<Rightarrow> string list" where
  "keep_first seen [] = []"
| "keep_first seen (x # xs) = (if x \<in> seen then keep_first seen xs else x # keep_first (insert x seen) xs)"

text \<open>The models listed by the latest poll of a backend, none if it failed; \<open>before\<close> if there was no poll.\<close>

fun latest ::
    "(string \<Rightarrow> json option) \<Rightarrow> backend list \<Rightarrow> nat \<Rightarrow> (nat \<times> poll_reply) list \<Rightarrow> string list option \<Rightarrow> string list option" where
  "latest from_slice backends i [] before = before"
| "latest from_slice backends i ((idx, reply) # polls) before =
     latest from_slice backends i polls
       (if idx = i
        then Some (case poll_once from_slice (b_provider (backends ! i)) reply of Some es \<Rightarrow> map me_id es | None \<Rightarrow> [])
        else before)"

definition served_ids :: "backend \<Rightarrow> string list \<Rightarrow> string list" where
  "served_ids b ids = keep_first {} (filter (model_allowed (b_model_filter b)) ids)"

lemma retain_unseen_keep_first: "map ce_id (retain_unseen seen es) = keep_first seen (map ce_id es)"
  by (induction seen es rule: retain_unseen.induct) auto

lemma polled_entries_ids: "map ce_id (polled_entries b es) = served_ids b (map me_id es)"
  by (simp add: polled_entries_def deduplicate_backend_entries_def retain_unseen_keep_first served_ids_def comp_def filter_map)

definition catalog_ids :: "registry \<Rightarrow> nat \<Rightarrow> string list" where
  "catalog_ids reg i = map ce_id (cat_entries (reg_catalog reg) ! i)"

text \<open>What a task knows is what the catalog holds.\<close>

definition watch_inv :: "(nat \<Rightarrow> string list option) \<Rightarrow> registry \<Rightarrow> bool" where
  "watch_inv known reg \<longleftrightarrow> reg_inv reg \<and>
     (\<forall>i < length (reg_backends reg).
        case known i of None \<Rightarrow> True | Some ids \<Rightarrow> catalog_ids reg i = served_ids (reg_backends reg ! i) ids)"

lemma watch_invD:
  assumes "watch_inv known reg" "i < length (reg_backends reg)" "known i = Some ids"
  shows "catalog_ids reg i = served_ids (reg_backends reg ! i) ids"
  using assms by (auto simp: watch_inv_def dest!: spec [of _ i])

lemma set_backend_models_ids:
  assumes "set_backend_models idx es reg = Inr reg'"
  shows "reg_backends reg' = reg_backends reg"
    "catalog_ids reg' idx = served_ids (reg_backends reg ! idx) (map me_id es)"
    "i \<noteq> idx \<Longrightarrow> catalog_ids reg' i = catalog_ids reg i"
  using assms by (auto elim!: set_backend_models_Inr simp: catalog_ids_def polled_entries_ids)

lemma watch_turn_step:
  assumes "watch_inv known reg" "idx < length (reg_backends reg)"
  shows "\<exists>reg'. watch_turn idx polled (known idx) reg =
      Inr (Some (case polled of Some es \<Rightarrow> map me_id es | None \<Rightarrow> []), reg') \<and>
    watch_inv (known(idx := Some (case polled of Some es \<Rightarrow> map me_id es | None \<Rightarrow> []))) reg' \<and>
    reg_backends reg' = reg_backends reg \<and> (\<forall>i. i \<noteq> idx \<longrightarrow> catalog_ids reg' i = catalog_ids reg i)"
proof -
  let ?es = "case polled of Some es \<Rightarrow> es | None \<Rightarrow> []" and ?ids = "case polled of Some es \<Rightarrow> map me_id es | None \<Rightarrow> []"
  have ids: "?ids = map me_id ?es" by (simp split: option.splits)
  have inv: "reg_inv reg" using assms(1) by (simp add: watch_inv_def)
  obtain reg' where r: "set_backend_models idx ?es reg = Inr reg'" using set_backend_models_total [OF inv assms(2)] by blast
  note ids' = set_backend_models_ids [OF r]
  with set_backend_models_inv [OF inv r] have inv': "watch_inv (known(idx := Some ?ids)) reg'"
    using assms(1) by (simp add: watch_inv_def ids split: option.splits)
  show ?thesis
  proof (cases "known idx = Some ?ids")
    case True
    moreover from this have "known(idx := Some ?ids) = known" by auto
    ultimately show ?thesis using assms(1) by (intro exI [of _ reg]) (auto simp: watch_turn_def split: option.splits)
  next
    case False
    with r inv' ids' show ?thesis
      by (intro exI [of _ reg']) (auto simp: watch_turn_def split: option.splits)
  qed
qed

lemma watch_run_spec:
  assumes "watch_inv known reg" "\<forall>(idx, _) \<in> set polls. idx < length (reg_backends reg)"
  shows "\<exists>known' reg'. watch_run from_slice polls known reg = Inr (known', reg') \<and> watch_inv known' reg' \<and>
    reg_backends reg' = reg_backends reg \<and>
    (\<forall>i. known' i = latest from_slice (reg_backends reg) i polls (known i) \<and>
         (i \<notin> fst ` set polls \<longrightarrow> catalog_ids reg' i = catalog_ids reg i))"
  using assms
proof (induction polls arbitrary: known reg)
  case (Cons p polls)
  obtain idx reply where p: "p = (idx, reply)" by (cases p)
  let ?polled = "poll_once from_slice (b_provider (reg_backends reg ! idx)) reply"
  let ?known = "known(idx := Some (case ?polled of Some es \<Rightarrow> map me_id es | None \<Rightarrow> []))"
  have idx: "idx < length (reg_backends reg)" using Cons.prems(2) by (simp add: p)
  obtain reg1 where t: "watch_turn idx ?polled (known idx) reg = Inr (?known idx, reg1)" "watch_inv ?known reg1"
    "reg_backends reg1 = reg_backends reg" "\<forall>i. i \<noteq> idx \<longrightarrow> catalog_ids reg1 i = catalog_ids reg i"
    using watch_turn_step [OF Cons.prems(1) idx, of ?polled] by auto
  moreover have "\<forall>(idx, _) \<in> set polls. idx < length (reg_backends reg1)" using Cons.prems(2) t(3) by auto
  ultimately obtain known' reg' where r: "watch_run from_slice polls ?known reg1 = Inr (known', reg')" "watch_inv known' reg'"
    "reg_backends reg' = reg_backends reg1"
    "\<forall>i. known' i = latest from_slice (reg_backends reg1) i polls (?known i) \<and>
         (i \<notin> fst ` set polls \<longrightarrow> catalog_ids reg' i = catalog_ids reg1 i)"
    using Cons.IH by blast
  have "watch_run from_slice (p # polls) known reg = Inr (known', reg')" using t(1) r(1) by (simp add: p)
  moreover have "known' i = latest from_slice (reg_backends reg) i (p # polls) (known i)" for i
    using r(4) t(3) by (simp add: p)
  moreover have "catalog_ids reg' i = catalog_ids reg i" if "i \<notin> fst ` set (p # polls)" for i
    using that r(4) t(4) by (simp add: p)
  moreover have "reg_backends reg' = reg_backends reg" using r(3) t(3) by simp
  ultimately show ?case using r(2) by blast
qed auto

lemma latest_None: "latest from_slice bs i polls before = None \<longleftrightarrow> before = None \<and> i \<notin> fst ` set polls"
proof (induction polls arbitrary: before)
  case (Cons p polls)
  then show ?case by (cases p) simp
qed simp

section \<open>Properties\<close>

text \<open>
  C15: The catalog follows the polls. However the polling tasks interleave, no turn panics, the registry stays
  consistent, and every backend that was polled advertises exactly the models of its latest poll that its filter
  allows, each once and in the listed order, and none at all if that poll failed, whichever way it failed; a
  backend that was not polled advertises what it did before. Skipping the update when a task sees the same
  identifiers again loses nothing of this.
\<close>

theorem watchdog_follows_polls:
  assumes "reg_inv reg" "\<forall>(idx, _) \<in> set polls. idx \<in> fst ` set (watched reg)"
  shows "\<exists>known reg'. watch_run from_slice polls (\<lambda>_. None) reg = Inr (known, reg') \<and> reg_inv reg' \<and>
    (\<forall>i < length (reg_backends reg).
       case latest from_slice (reg_backends reg) i polls None of
         Some ids \<Rightarrow> catalog_ids reg' i = served_ids (reg_backends reg ! i) ids
       | None \<Rightarrow> catalog_ids reg' i = catalog_ids reg i)"
proof -
  have "fst ` set (watched reg) \<subseteq> {..<length (reg_backends reg)}"
    by (auto simp: watched_def List.map_filter_def in_set_enumerate_eq)
  with assms(2) have "\<forall>(idx, _) \<in> set polls. idx < length (reg_backends reg)" by fastforce
  moreover have "watch_inv (\<lambda>_. None) reg" using assms(1) by (simp add: watch_inv_def)
  ultimately obtain known reg' where r: "watch_run from_slice polls (\<lambda>_. None) reg = Inr (known, reg')" "watch_inv known reg'"
    "reg_backends reg' = reg_backends reg"
    "\<forall>i. known i = latest from_slice (reg_backends reg) i polls None \<and>
         (i \<notin> fst ` set polls \<longrightarrow> catalog_ids reg' i = catalog_ids reg i)"
    using watch_run_spec [of "\<lambda>_. None" reg polls from_slice] by blast
  have "case latest from_slice (reg_backends reg) i polls None of
         Some ids \<Rightarrow> catalog_ids reg' i = served_ids (reg_backends reg ! i) ids
       | None \<Rightarrow> catalog_ids reg' i = catalog_ids reg i" if i: "i < length (reg_backends reg)" for i
  proof (cases "latest from_slice (reg_backends reg) i polls None")
    case None
    moreover from this have "i \<notin> fst ` set polls" by (simp add: latest_None)
    ultimately show ?thesis using r(4) by simp
  next
    case (Some ids)
    then have "known i = Some ids" using r(4) by simp
    with watch_invD [OF r(2)] r(3) i Some show ?thesis by simp
  qed
  with r(1,2) show ?thesis by (auto simp: watch_inv_def)
qed

text \<open>One polled backend: it is reachable, then it is not.\<close>

definition polled_backend :: backend where
  "polled_backend = demo_backend\<lparr>b_models_poll_secs := Some 30\<rparr>"

definition polled_reg :: registry where
  "polled_reg = (case registry_new [polled_backend] [[''m'']] CatalogMode of Inr reg \<Rightarrow> reg)"

lemma polled_new: "registry_new [polled_backend] [[''m'']] CatalogMode = Inr polled_reg"
  by (simp add: registry_new_def polled_reg_def Let_def split: prod.splits)

lemma polled_backends: "reg_backends polled_reg = [polled_backend]"
  by (simp add: polled_reg_def registry_new_def Let_def split: prod.splits)

theorem watchdog_follows_polls_witness:
  "\<exists>known reg'. watch_run (\<lambda>_. None) [(0, PollResponse 500 (Inr [])), (0, PollTimedOut)] (\<lambda>_. None) polled_reg = Inr (known, reg') \<and>
     catalog_ids reg' 0 = []"
proof -
  have "reg_inv polled_reg" by (rule registry_new_inv [OF polled_new]) simp
  moreover have "\<forall>(idx, _) \<in> set [(0, PollResponse 500 (Inr [])), (0, PollTimedOut)]. idx \<in> fst ` set (watched polled_reg)"
    by (simp add: watched_def polled_backends polled_backend_def)
  ultimately show ?thesis
    using watchdog_follows_polls [of polled_reg "[(0, PollResponse 500 (Inr [])), (0, PollTimedOut)]" "\<lambda>_. None"]
    by (auto simp: polled_backends poll_once_def is_success_def served_ids_def)
qed

end
