(* ===== verification/Localtime.thy ===== *)
theory Localtime
  imports Strings
begin

text \<open>
  The start of a calendar day (\<open>crates/twl-server/src/localtime.rs\<close>). A date is the number of days since
  1970-01-01. Of a time zone the code uses the first instant with a given local date and full hour, \<open>None\<close> when
  a clock change skips it; \<open>tz_last\<close> is the last date the library represents.
\<close>

record timezone =
  tz_earliest :: "int \<Rightarrow> nat \<Rightarrow> int option"
  tz_last :: int

definition MAX_DAYS :: nat where
  "MAX_DAYS = 366"

definition succ_date :: "timezone \<Rightarrow> int \<Rightarrow> int" where
  "succ_date tz d = (if d < tz_last tz then d + 1 else d)"

text \<open>The second loop, with the turns that are left; after them, midnight in UTC.\<close>

fun advance_date :: "timezone \<Rightarrow> nat \<Rightarrow> int \<Rightarrow> int" where
  "advance_date tz 0 cur = cur * 86400"
| "advance_date tz (Suc n) cur =
     (let cur' = succ_date tz cur
      in case tz_earliest tz cur' 0 of Some ts \<Rightarrow> ts | None \<Rightarrow> advance_date tz n cur')"

definition date_to_start_timestamp :: "timezone \<Rightarrow> int \<Rightarrow> int" where
  "date_to_start_timestamp tz date =
     (case find_map (tz_earliest tz date) [0..<24] of
        Some ts \<Rightarrow> ts
      | None \<Rightarrow> advance_date tz MAX_DAYS date)"

text \<open>Local time moves forward: a later date and hour starts at a later instant.\<close>

definition tz_forward :: "timezone \<Rightarrow> bool" where
  "tz_forward tz \<longleftrightarrow>
     (\<forall>d h d' h' ts ts'. tz_earliest tz d h = Some ts \<longrightarrow> tz_earliest tz d' h' = Some ts' \<longrightarrow>
        h < 24 \<longrightarrow> h' < 24 \<longrightarrow> d < d' \<or> d = d' \<and> h < h' \<longrightarrow> ts < ts')"

lemma tz_forwardD:
  assumes "tz_forward tz" "tz_earliest tz d h = Some ts" "tz_earliest tz d' h' = Some ts'" "h < 24" "h' < 24"
    "d < d' \<or> d = d' \<and> h < h'"
  shows "ts < ts'"
  using assms unfolding tz_forward_def by blast

lemma find_map_first:
  "find_map f xs = Some y \<Longrightarrow> \<exists>i < length xs. f (xs ! i) = Some y \<and> (\<forall>j < i. f (xs ! j) = None)"
proof (induction xs)
  case (Cons x xs)
  show ?case
  proof (cases "f x")
    case None
    with Cons obtain i where "i < length xs" "f (xs ! i) = Some y" "\<forall>j < i. f (xs ! j) = None" by auto
    with None show ?thesis by (intro exI [of _ "Suc i"]) (auto simp: less_Suc_eq_0_disj)
  qed (use Cons.prems in \<open>auto intro: exI [of _ 0]\<close>)
qed simp

lemma start_of_day:
  assumes "h < 24" "tz_earliest tz d h = Some ts"
  shows "\<exists>h0 \<le> h. tz_earliest tz d h0 = Some (date_to_start_timestamp tz d) \<and> (\<forall>h' < h0. tz_earliest tz d h' = None)"
proof (cases "find_map (tz_earliest tz d) [0..<24]")
  case None
  with assms show ?thesis by (auto simp: find_map_None)
next
  case (Some y)
  then obtain h0 where h0: "h0 < 24" "tz_earliest tz d h0 = Some y" "\<forall>h' < h0. tz_earliest tz d h' = None"
    using find_map_first [OF Some] by auto
  with assms(2) have "h0 \<le> h" by (metis not_le_imp_less option.distinct(1))
  with h0 Some show ?thesis by (auto simp: date_to_start_timestamp_def)
qed

text \<open>A date that is skipped as a whole starts with the midnight of the first later date that has one.\<close>

lemma advance_date_spec:
  assumes "\<forall>k. 0 < k \<longrightarrow> k \<le> n \<longrightarrow> d + int k \<le> tz_last tz" "k < n" "tz_earliest tz (d + int (Suc k)) 0 = Some ts"
    "\<forall>j < k. tz_earliest tz (d + int (Suc j)) 0 = None"
  shows "advance_date tz n d = ts"
  using assms
proof (induction n arbitrary: d k)
  case (Suc n)
  have s: "succ_date tz d = d + 1" using Suc.prems(1) [rule_format, of 1] by (simp add: succ_date_def)
  show ?case
  proof (cases k)
    case 0
    with Suc.prems s show ?thesis by simp
  next
    case (Suc k')
    have "tz_earliest tz (d + 1) 0 = None" using Suc.prems(4) Suc by auto
    moreover have "advance_date tz n (d + 1) = ts"
    proof (rule Suc.IH [of "d + 1" k'])
      show "\<forall>k. 0 < k \<longrightarrow> k \<le> n \<longrightarrow> d + 1 + int k \<le> tz_last tz"
        using Suc.prems(1) by (metis Suc_le_mono add.assoc add.commute of_nat_Suc zero_less_Suc)
      show "\<forall>j < k'. tz_earliest tz (d + 1 + int (Suc j)) 0 = None"
        using Suc.prems(4) Suc by (auto simp: algebra_simps dest: spec [of _ "Suc _"])
    qed (use Suc.prems Suc in \<open>auto simp: algebra_simps\<close>)
    ultimately show ?thesis by (simp add: s)
  qed
qed simp

text \<open>
  Days start where they should. When some full hour of a date exists in the time zone, the computed start is
  the first instant among the date's hours, no later than any of them, and later than the start of every
  earlier such date; so the windows of consecutive days neither overlap nor run backwards.
\<close>

theorem day_start_correct:
  assumes "tz_forward tz" "h < 24" "tz_earliest tz d h = Some ts"
  shows "date_to_start_timestamp tz d \<le> ts \<and>
    (\<exists>h0 \<le> h. tz_earliest tz d h0 = Some (date_to_start_timestamp tz d) \<and> (\<forall>h' < h0. tz_earliest tz d h' = None)) \<and>
    (\<forall>d' h' ts'. d' < d \<and> h' < 24 \<and> tz_earliest tz d' h' = Some ts' \<longrightarrow>
       date_to_start_timestamp tz d' < date_to_start_timestamp tz d \<and> ts' < date_to_start_timestamp tz d)"
proof -
  obtain h0 where h0: "h0 \<le> h" "tz_earliest tz d h0 = Some (date_to_start_timestamp tz d)" "\<forall>h' < h0. tz_earliest tz d h' = None"
    using start_of_day [OF assms(2,3)] by blast
  have "date_to_start_timestamp tz d \<le> ts"
  proof (cases "h0 = h")
    case False
    with h0(1) assms(2) have "h0 < h" "h0 < 24" by auto
    with tz_forwardD [OF assms(1) h0(2) assms(3)] assms(2) show ?thesis by simp
  qed (use h0(2) assms(3) in simp)
  moreover have "date_to_start_timestamp tz d' < date_to_start_timestamp tz d \<and> ts' < date_to_start_timestamp tz d"
    if r: "d' < d" "h' < 24" "tz_earliest tz d' h' = Some ts'" for d' h' ts'
  proof -
    obtain h1 where "h1 \<le> h'" "tz_earliest tz d' h1 = Some (date_to_start_timestamp tz d')"
      using start_of_day [OF r(2,3)] by blast
    moreover have "h1 < 24" "h0 < 24" using calculation(1) r(2) h0(1) assms(2) by auto
    ultimately show ?thesis
      using tz_forwardD [OF assms(1) _ h0(2)] r by blast
  qed
  ultimately show ?thesis using h0 by blast
qed

definition utc :: timezone where
  "utc = \<lparr>tz_earliest = (\<lambda>d h. if d = 3 \<and> h = 0 then None else Some (86400 * d + 3600 * int h)), tz_last = 1000000\<rparr>"

theorem day_start_correct_witness:
  "date_to_start_timestamp utc 3 \<le> 86400 * 3 + 3600 * 5 \<and> date_to_start_timestamp utc 2 < date_to_start_timestamp utc 3"
proof -
  have "tz_forward utc" by (auto simp: tz_forward_def utc_def split: if_splits)
  moreover have "tz_earliest utc 3 5 = Some (86400 * 3 + 3600 * 5)" "tz_earliest utc 2 0 = Some (86400 * 2)"
    by (simp_all add: utc_def)
  ultimately show ?thesis using day_start_correct [of utc 5 3 "86400 * 3 + 3600 * 5"] by force
qed

end
