(* ===== verification/Routes.thy ===== *)
theory Routes
  imports AppState Localtime
begin

text \<open>
  The proxy's own endpoints (\<open>crates/twl-server/src/routes.rs\<close>): health, models, pages and assets, and the
  statistics of the dashboard with the scope of the user who asks. The embedded files, the time zone, today's date, the
  open orders of the queries and the failures of their tasks are parameters. Sums of \<open>i64\<close> wrap, as in a release
  build.
\<close>

section \<open>Scopes\<close>

datatype usage_scope = AllUsers | OneUser int

text \<open>\<open>str::parse::<i64>\<close>: an optional sign, then digits, in range.\<close>

definition parse_i64 :: "string \<Rightarrow> int option" where
  "parse_i64 s =
     (let (neg, ds) = (case s of
            c # cs \<Rightarrow> if c = CHR ''-'' then (True, cs) else if c = CHR ''+'' then (False, cs) else (False, s)
          | [] \<Rightarrow> (False, []));
          v = (if neg then - int (digits_value ds) else int (digits_value ds))
      in if ds \<noteq> [] \<and> list_all is_ascii_digit ds \<and> in_i64 v then Some v else None)"

definition resolve_usage_scope :: "auth_user option \<Rightarrow> (string \<rightharpoonup> string) \<Rightarrow> usage_scope" where
  "resolve_usage_scope auth params =
     (case auth of
        None \<Rightarrow> AllUsers
      | Some user \<Rightarrow>
          if \<not> au_is_admin user then OneUser (au_id user)
          else (case Option.bind (params ''user_id'') parse_i64 of
                  Some i \<Rightarrow> OneUser i
                | None \<Rightarrow> AllUsers))"

section \<open>Pages\<close>

definition health :: response where
  "health = plain 200 (JsonBody (json_object [(''status'', String ''ok'')]))"

definition models_handler :: "'ip app_state \<Rightarrow> response" where
  "models_handler state =
     plain 200 (JsonBody (json_object [(''object'', String ''list''), (''data'', Array (model_entries (as_registry state)))]))"

definition redirect_root :: response where
  "redirect_root = \<lparr>r_status = 308, r_headers = [(''location'', ''/usage'')], r_body = Text []\<rparr>"

definition not_found :: response where
  "not_found = plain 404 (Text ''Not found'')"

definition mime_type :: "string \<Rightarrow> string" where
  "mime_type path =
     (let ext = last (split_on (CHR ''.'') path)
      in if ext \<in> {''html'', ''htm''} then ''text/html; charset=utf-8''
         else if ext = ''css'' then ''text/css''
         else if ext = ''js'' then ''application/javascript''
         else if ext = ''json'' then ''application/json''
         else if ext = ''png'' then ''image/png''
         else if ext \<in> {''jpg'', ''jpeg''} then ''image/jpeg''
         else if ext = ''gif'' then ''image/gif''
         else if ext = ''svg'' then ''image/svg+xml''
         else if ext = ''ico'' then ''image/x-icon''
         else if ext = ''txt'' then ''text/plain''
         else ''application/octet-stream'')"

definition serve_asset :: "(string \<Rightarrow> string option) \<Rightarrow> string \<Rightarrow> string \<Rightarrow> response" where
  "serve_asset assets path mime =
     (case assets (unwrap_or (strip_prefix ''/'' path) path) of
        Some data \<Rightarrow> \<lparr>r_status = 200, r_headers = [(''content-type'', mime)], r_body = Text data\<rparr>
      | None \<Rightarrow> not_found)"

definition dashboard_page :: "(string \<Rightarrow> string option) \<Rightarrow> response" where
  "dashboard_page assets = serve_asset assets ''/dashboard.html'' (mime_type ''dashboard.html'')"

definition account_page :: "(string \<Rightarrow> string option) \<Rightarrow> response" where
  "account_page assets = serve_asset assets ''/account.html'' (mime_type ''account.html'')"

definition login_page :: "(string \<Rightarrow> string option) \<Rightarrow> response" where
  "login_page assets = serve_asset assets ''/login.html'' (mime_type ''login.html'')"

definition web_file :: "(string \<Rightarrow> string option) \<Rightarrow> string \<Rightarrow> response" where
  "web_file assets rest = (if rest = [] then not_found else serve_asset assets (''/'' @ rest) (mime_type rest))"

section \<open>Statistics\<close>

text \<open>
  The queries of a request are numbered in the order in which they run; each has its own connection and its own
  blocking task.
\<close>

record stats_env =
  se_order_models :: "model_stats order_by"
  se_order_keys :: "key_stats order_by"
  se_date_of :: "int \<Rightarrow> string option"
  se_sum_real :: "f64 list \<Rightarrow> f64"
  se_pool :: "nat \<Rightarrow> db_error option"
  se_panicked :: "nat \<Rightarrow> bool"
  se_today :: int
  se_tz :: timezone
  se_prices :: "pricing \<Rightarrow> json"

definition query :: "stats_env \<Rightarrow> nat \<Rightarrow> (db_error option \<Rightarrow> db_error + 'a) \<Rightarrow> string \<Rightarrow> response + 'a" where
  "query env n f msg = run_db (if se_panicked env n then None else Some (f (se_pool env n))) msg"

definition respond :: "response + 'a \<Rightarrow> ('a \<Rightarrow> response) \<Rightarrow> response" where
  "respond r f = (case r of Inl resp \<Rightarrow> resp | Inr v \<Rightarrow> f v)"

definition wrapping_add :: "int \<Rightarrow> int \<Rightarrow> int" where
  "wrapping_add a b = sint (word_of_int (a + b) :: 64 word)"

definition cost_json :: "cost_split \<Rightarrow> json" where
  "cost_json c = json_object [(''input'', json_f64 (c_input c)), (''input_cached'', json_f64 (c_input_cached c)),
     (''output'', json_f64 (c_output c)), (''total'', json_f64 (c_total c))]"

definition model_row_json :: "string \<Rightarrow> int \<Rightarrow> int \<Rightarrow> int \<Rightarrow> int \<Rightarrow> int \<Rightarrow> cost_split \<Rightarrow> json" where
  "model_row_json model requests input_tokens output_tokens cached_tokens total_tokens c = json_object
     [(''model'', String model), (''requests'', json_int requests), (''prompt_tokens'', json_int input_tokens),
      (''completion_tokens'', json_int output_tokens), (''input_tokens'', json_int input_tokens),
      (''output_tokens'', json_int output_tokens), (''cached_tokens'', json_int cached_tokens),
      (''total_tokens'', json_int total_tokens), (''cost'', cost_json c)]"

definition model_cost :: "pricing \<Rightarrow> model_stats \<Rightarrow> cost_split" where
  "model_cost pricing r = cost pricing (ms_model r) (ms_input_tokens r) (ms_output_tokens r) (ms_cached_tokens r)"

definition day_row_json :: "pricing \<Rightarrow> daily_stats \<Rightarrow> json" where
  "day_row_json pricing r =
     (case model_row_json (ds_model r) (ds_requests r) (ds_input_tokens r) (ds_output_tokens r) (ds_cached_tokens r)
             (ds_total_tokens r) (cost pricing (ds_model r) (ds_input_tokens r) (ds_output_tokens r) (ds_cached_tokens r)) of
        Object m \<Rightarrow> Object (map_insert ''day'' (String (ds_day r)) m)
      | j \<Rightarrow> j)"

definition key_stats_json :: "key_stats \<Rightarrow> json" where
  "key_stats_json k = json_object
     [(''api_key_id'', json_opt json_int (ks_api_key_id k)), (''label'', String (ks_label k)),
      (''requests'', json_int (ks_requests k)), (''input_tokens'', json_int (ks_input_tokens k)),
      (''output_tokens'', json_int (ks_output_tokens k)), (''cached_tokens'', json_int (ks_cached_tokens k)),
      (''total_tokens'', json_int (ks_total_tokens k))]"

definition scope_json :: "usage_scope \<Rightarrow> json" where
  "scope_json scope =
     (case scope of
        OneUser i \<Rightarrow> json_object [(''mode'', String ''user''), (''user_id'', json_int i)]
      | AllUsers \<Rightarrow> json_object [(''mode'', String ''all''), (''user_id'', Null)])"

text \<open>The response once all rows are there.\<close>

definition dashboard_body ::
    "'ip app_state \<Rightarrow> stats_env \<Rightarrow> bool \<Rightarrow> usage_scope \<Rightarrow> model_stats list \<Rightarrow> daily_stats list \<Rightarrow> daily_energy list
     \<Rightarrow> key_stats list \<Rightarrow> json" where
  "dashboard_body state env is_admin scope rows daily_rows energy_rows key_rows =
     (let pricing = as_pricing state;
          base =
            [(''models'', Array (map (\<lambda>r. model_row_json (ms_model r) (ms_requests r) (ms_input_tokens r)
                                   (ms_output_tokens r) (ms_cached_tokens r) (ms_total_tokens r) (model_cost pricing r)) rows)),
             (''days'', Array (map (day_row_json pricing) daily_rows)),
             (''grand_total_tokens'', json_int (foldl (\<lambda>t r. wrapping_add t (ms_total_tokens r)) 0 rows)),
             (''grand_total_cost'', json_f64 (foldl (\<lambda>t r. f_add t (c_total (model_cost pricing r))) (Fin 0) rows)),
             (''currency'', String (currency pricing)), (''unit'', json_f64 (unit_tokens pricing)),
             (''prices'', se_prices env pricing),
             (''energy_days'', Array (map (\<lambda>e. json_object [(''day'', String (de_day e)), (''kwh'', json_f64 (de_kwh e))]) energy_rows)),
             (''total_kwh'', json_f64 (foldl (\<lambda>t e. f_add t (de_kwh e)) (Fin 0) energy_rows)),
             (''dashboard'', json_object
                [(''cards'', Array (map String (dc_cards (as_dashboard state)))),
                 (''graphs'', Array (map String (dc_graphs (as_dashboard state)))),
                 (''max_rows'', json_opt (\<lambda>n. json_int (int n)) (dc_max_rows (as_dashboard state)))]),
             (''viewer_is_admin'', Bool is_admin), (''scope'', scope_json scope)]
      in json_object (if as_public_usage state then base else base @ [(''keys'', Array (map key_stats_json key_rows))]))"

definition window_days :: "(string \<rightharpoonup> string) \<Rightarrow> int" where
  "window_days params = min (max (unwrap_or (Option.bind (params ''days'') parse_i64) 30) 1) 3650"

definition dashboard_api ::
    "'ip app_state \<Rightarrow> stats_env \<Rightarrow> auth_user option \<Rightarrow> (string \<rightharpoonup> string) \<Rightarrow> response" where
  "dashboard_api state env auth params =
     (let is_admin = unwrap_or (map_option au_is_admin auth) False;
          scope = resolve_usage_scope auth params;
          since_ts = date_to_start_timestamp (se_tz env) (se_today env - (window_days params - 1));
          udb = as_usage state; idb = as_identity state
      in respond (query env 0 (\<lambda>pool. case scope of
                      OneUser i \<Rightarrow> stats_for_user (se_order_models env) pool since_ts i idb udb
                    | AllUsers \<Rightarrow> stats (se_order_models env) pool since_ts udb) ''stats query failed'') (\<lambda>rows.
         respond (query env 1 (\<lambda>pool. case scope of
                      OneUser i \<Rightarrow> daily_for_user (se_date_of env) pool since_ts i idb udb
                    | AllUsers \<Rightarrow> daily (se_date_of env) pool since_ts udb) ''daily query failed'') (\<lambda>daily_rows.
         respond (case scope of
                    OneUser _ \<Rightarrow> Inr []
                  | AllUsers \<Rightarrow> query env 2 (\<lambda>pool. daily_energy (se_sum_real env) (se_date_of env) pool since_ts udb)
                      ''energy query task failed'') (\<lambda>energy_rows.
         respond (if as_public_usage state then Inr []
                  else (case scope of
                          OneUser i \<Rightarrow> query env 3 (\<lambda>pool. stats_by_key_for_user (se_order_keys env) pool since_ts i idb udb)
                            ''key stats query failed''
                        | AllUsers \<Rightarrow> query env 3 (\<lambda>pool. stats_by_user (se_order_keys env) pool since_ts idb udb)
                            ''key stats query failed'')) (\<lambda>key_rows.
           plain 200 (JsonBody (dashboard_body state env is_admin scope rows daily_rows energy_rows key_rows)))))))"

definition bucket_json :: "today_bucket \<Rightarrow> json" where
  "bucket_json b = json_object
     [(''bucket'', json_int (int (tb_bucket b))), (''input_tokens'', json_int (tb_input_tokens b)),
      (''output_tokens'', json_int (tb_output_tokens b)), (''cached_tokens'', json_int (tb_cached_tokens b)),
      (''requests'', json_int (tb_requests b))]"

definition day_buckets_response ::
    "'ip app_state \<Rightarrow> stats_env \<Rightarrow> int \<Rightarrow> string \<Rightarrow> usage_scope \<Rightarrow> response" where
  "day_buckets_response state env days_ago label scope =
     (let start_date = se_today env - days_ago;
          day_start = date_to_start_timestamp (se_tz env) start_date;
          day_end = date_to_start_timestamp (se_tz env) (start_date + 1)
      in respond (query env 0 (\<lambda>pool. case scope of
                      OneUser i \<Rightarrow> today_buckets_for_user pool day_start day_end i (as_identity state) (as_usage state)
                    | AllUsers \<Rightarrow> today_buckets pool day_start day_end (as_usage state)) (label @ '' buckets task failed''))
           (\<lambda>buckets. plain 200 (JsonBody (json_object [(''buckets'', Array (map bucket_json buckets))]))))"

definition today_api :: "'ip app_state \<Rightarrow> stats_env \<Rightarrow> auth_user option \<Rightarrow> (string \<rightharpoonup> string) \<Rightarrow> response" where
  "today_api state env auth params = day_buckets_response state env 0 ''today'' (resolve_usage_scope auth params)"

definition yesterday_api :: "'ip app_state \<Rightarrow> stats_env \<Rightarrow> auth_user option \<Rightarrow> (string \<rightharpoonup> string) \<Rightarrow> response" where
  "yesterday_api state env auth params = day_buckets_response state env 1 ''yesterday'' (resolve_usage_scope auth params)"

section \<open>What a scope shows\<close>

text \<open>The usage tables as far as they concern one user: the rows recorded with one of the user's keys.\<close>

definition own_usage :: "int \<Rightarrow> database \<Rightarrow> usage_db \<Rightarrow> usage_db" where
  "own_usage i idb udb =
     udb\<lparr>ud_tokens := filter (\<lambda>t. \<exists>a \<in> set (db_attribution idb). on_key t a \<and> at_user_id a = i) (ud_tokens udb), ud_energy := []\<rparr>"

lemma rows_of_user_own:
  "rows_of_user i idb (filter P (ud_tokens (own_usage i idb udb))) = rows_of_user i idb (filter P (ud_tokens udb))"
proof -
  have "rows_of_user i idb (filter P (filter Q ts)) = rows_of_user i idb (filter P ts)"
    if "\<And>t. Q t = (\<exists>a \<in> set (db_attribution idb). on_key t a \<and> at_user_id a = i)" for Q ts
  proof (induction ts)
    case (Cons t ts)
    have "filter (\<lambda>(t, a). at_user_id a = i) (map (Pair t) (filter (on_key t) (db_attribution idb))) = []" if "\<not> Q t"
      using that \<open>\<And>t. Q t = _ t\<close> by (auto simp: filter_empty_conv)
    with Cons show ?case by (auto simp: rows_of_user_def inner_join_def)
  qed (simp add: rows_of_user_def)
  then show ?thesis by (simp add: own_usage_def)
qed

lemma own_queries:
  "stats_for_user ord pool ts i idb (own_usage i idb udb) = stats_for_user ord pool ts i idb udb"
  "daily_for_user dt pool ts i idb (own_usage i idb udb) = daily_for_user dt pool ts i idb udb"
  "stats_by_key_for_user ordk pool ts i idb (own_usage i idb udb) = stats_by_key_for_user ordk pool ts i idb udb"
  "today_buckets_for_user pool a b i idb (own_usage i idb udb) = today_buckets_for_user pool a b i idb udb"
  by (simp_all add: stats_for_user_def daily_for_user_def stats_by_key_for_user_def today_buckets_for_user_def since_def
        in_day_def rows_of_user_own)

section \<open>Properties\<close>

text \<open>
  C32: Statistics are scoped. A user who is no administrator is scoped to himself whatever the query says, and a
  request in the scope of one user gets the answer, on all three statistics endpoints and on every error branch,
  that it would get if the tables held nothing but the rows recorded with that user's keys and no energy at
  all. On a public dashboard an unscoped answer is the same whatever the identity tables hold: no user name, key
  name or prefix can be read from it.
\<close>

theorem statistics_scoped:
  "(case auth of Some user \<Rightarrow> if au_is_admin user then True else resolve_usage_scope auth params = OneUser (au_id user)
     | None \<Rightarrow> True) \<and>
   (case resolve_usage_scope auth params of
      OneUser i \<Rightarrow>
        let own = state\<lparr>as_usage := own_usage i (as_identity state) (as_usage state)\<rparr>
        in dashboard_api own env auth params = dashboard_api state env auth params \<and>
           today_api own env auth params = today_api state env auth params \<and>
           yesterday_api own env auth params = yesterday_api state env auth params
    | AllUsers \<Rightarrow>
        if as_public_usage state
        then dashboard_api (state\<lparr>as_identity := anything\<rparr>) env auth params = dashboard_api state env auth params \<and>
             today_api (state\<lparr>as_identity := anything\<rparr>) env auth params = today_api state env auth params \<and>
             yesterday_api (state\<lparr>as_identity := anything\<rparr>) env auth params = yesterday_api state env auth params
        else True)"
proof (rule conjI)
  show "case auth of Some user \<Rightarrow> if au_is_admin user then True else resolve_usage_scope auth params = OneUser (au_id user)
     | None \<Rightarrow> True"
    by (simp add: resolve_usage_scope_def split: option.splits)
next
  have body: "dashboard_body (state\<lparr>as_usage := u\<rparr>) env a sc rows ds es ks = dashboard_body state env a sc rows ds es ks"
    "dashboard_body (state\<lparr>as_identity := d\<rparr>) env a sc rows ds es ks = dashboard_body state env a sc rows ds es ks"
    for u d a sc rows ds es ks by (simp_all add: dashboard_body_def)
  show "case resolve_usage_scope auth params of
      OneUser i \<Rightarrow>
        let own = state\<lparr>as_usage := own_usage i (as_identity state) (as_usage state)\<rparr>
        in dashboard_api own env auth params = dashboard_api state env auth params \<and>
           today_api own env auth params = today_api state env auth params \<and>
           yesterday_api own env auth params = yesterday_api state env auth params
    | AllUsers \<Rightarrow>
        if as_public_usage state
        then dashboard_api (state\<lparr>as_identity := anything\<rparr>) env auth params = dashboard_api state env auth params \<and>
             today_api (state\<lparr>as_identity := anything\<rparr>) env auth params = today_api state env auth params \<and>
             yesterday_api (state\<lparr>as_identity := anything\<rparr>) env auth params = yesterday_api state env auth params
        else True"
    by (simp add: dashboard_api_def today_api_def yesterday_api_def day_buckets_response_def Let_def own_queries body
          split: usage_scope.splits)
qed

end
