(* ===== verification/Metrics.thy ===== *)
theory Metrics
  imports Routes
begin

text \<open>
  The Prometheus endpoint (\<open>crates/twl-server/src/metrics.rs\<close>): the token check, the text exposition and the
  escaping of label values. \<open>HeaderValue::to_str\<close>, SHA-256, the display of floating-point numbers and the version
  of the build are parameters.
\<close>

section \<open>Escaping\<close>

definition NL :: char where "NL = CHR 0x0A"
definition BACKSLASH :: char where "BACKSLASH = CHR 0x5C"
definition QUOTE :: char where "QUOTE = CHR 0x22"

text \<open>\<open>str::replace\<close> with a character as pattern.\<close>

definition replace_char :: "char \<Rightarrow> string \<Rightarrow> string \<Rightarrow> string" where
  "replace_char c r v = concat (map (\<lambda>x. if x = c then r else [x]) v)"

definition escape_label_value :: "string \<Rightarrow> string" where
  "escape_label_value v =
     replace_char NL [BACKSLASH, CHR ''n'']
       (replace_char QUOTE [BACKSLASH, QUOTE]
         (replace_char BACKSLASH [BACKSLASH, BACKSLASH] v))"

section \<open>Exposition\<close>

definition label :: "string \<Rightarrow> string \<Rightarrow> string" where
  "label name v = name @ ''='' @ [QUOTE] @ escape_label_value v @ [QUOTE]"

definition counter_block :: "string \<Rightarrow> string \<Rightarrow> (model_stats \<Rightarrow> int) \<Rightarrow> model_stats list \<Rightarrow> string list" where
  "counter_block name help f rows =
     [''# HELP '' @ name @ '' '' @ help, ''# TYPE '' @ name @ '' counter''] @
     map (\<lambda>r. name @ ''{'' @ label ''model'' (ms_model r) @ ''} '' @ show_int (f r)) rows"

definition metric_lines ::
    "string \<Rightarrow> (f64 \<Rightarrow> string) \<Rightarrow> pricing \<Rightarrow> model_stats list \<Rightarrow> f64 \<Rightarrow> string list" where
  "metric_lines version show_f64 pricing rows total_kwh =
     [''# HELP twl_build_info Build information.'', ''# TYPE twl_build_info gauge'',
      ''twl_build_info{'' @ label ''version'' version @ ''} 1''] @
     counter_block ''twl_requests_total'' ''Proxied requests per model.'' ms_requests rows @
     counter_block ''twl_input_tokens_total'' ''Input/prompt tokens per model.'' ms_input_tokens rows @
     counter_block ''twl_output_tokens_total'' ''Output/completion tokens per model.'' ms_output_tokens rows @
     counter_block ''twl_cached_tokens_total'' ''Cached prompt tokens per model.'' ms_cached_tokens rows @
     [''# HELP twl_estimated_cost_total Estimated cost per model, from the configured price table.'',
      ''# TYPE twl_estimated_cost_total counter''] @
     map (\<lambda>r. ''twl_estimated_cost_total{'' @ label ''model'' (ms_model r) @ '','' @ label ''currency'' (currency pricing) @ ''} ''
              @ show_f64 (c_total (model_cost pricing r))) rows @
     [''# HELP twl_energy_kwh_total Estimated GPU energy consumed, in kWh.'', ''# TYPE twl_energy_kwh_total counter'',
      ''twl_energy_kwh_total '' @ show_f64 total_kwh]"

definition render_metrics ::
    "string \<Rightarrow> (f64 \<Rightarrow> string) \<Rightarrow> pricing \<Rightarrow> model_stats list \<Rightarrow> f64 \<Rightarrow> string" where
  "render_metrics version show_f64 pricing rows total_kwh =
     concat (map (\<lambda>l. l @ [NL]) (metric_lines version show_f64 pricing rows total_kwh))"

definition metrics_handler ::
    "(string \<Rightarrow> string option) \<Rightarrow> (string \<Rightarrow> string) \<Rightarrow> string \<Rightarrow> (f64 \<Rightarrow> string) \<Rightarrow> stats_env \<Rightarrow> header_map \<Rightarrow> 'ip app_state
     \<Rightarrow> response" where
  "metrics_handler to_str sha256_hex version show_f64 env headers state =
     (case as_metrics_token state of
        None \<Rightarrow> problem 404 ''Not Found'' ''not found''
      | Some expected \<Rightarrow>
          (let presented = Option.bind (Option.bind (header_get ''authorization'' headers) to_str) parse_bearer_credentials
           in if \<not> (case presented of Some t \<Rightarrow> sha256_hex t = sha256_hex expected | None \<Rightarrow> False)
              then problem 401 ''Unauthorized'' ''invalid or missing metrics token''
              else
                respond (query env 0 (\<lambda>pool. stats (se_order_models env) pool 0 (as_usage state)) ''stats query failed'') (\<lambda>rows.
                respond (query env 1 (\<lambda>pool. daily_energy (se_sum_real env) (se_date_of env) pool 0 (as_usage state))
                           ''energy query failed'') (\<lambda>energy.
                  \<lparr>r_status = 200, r_headers = [(''content-type'', ''text/plain; version=0.0.4'')],
                   r_body = Text (render_metrics version show_f64 (as_pricing state) rows
                                    (foldl (\<lambda>t e. f_add t (de_kwh e)) (Fin 0) energy))\<rparr>))))"

section \<open>Reading the exposition\<close>

text \<open>A reader of label values, from after the opening quote to the closing one: the value and the rest.\<close>

fun read_label :: "string \<Rightarrow> (string \<times> string) option" where
  "read_label [] = None"
| "read_label (c # cs) =
     (if c = QUOTE then Some ([], cs)
      else if c = NL then None
      else if c = BACKSLASH
      then (case cs of
              [] \<Rightarrow> None
            | e # rest \<Rightarrow>
                if e = BACKSLASH \<or> e = QUOTE \<or> e = CHR ''n''
                then map_option (map_prod ((#) (if e = CHR ''n'' then NL else e)) id) (read_label rest)
                else None)
      else map_option (map_prod ((#) c) id) (read_label cs))"

definition escape_char :: "char \<Rightarrow> string" where
  "escape_char c =
     (if c = BACKSLASH then [BACKSLASH, BACKSLASH] else if c = QUOTE then [BACKSLASH, QUOTE]
      else if c = NL then [BACKSLASH, CHR ''n''] else [c])"

lemmas special_chars = NL_def BACKSLASH_def QUOTE_def

lemma replace_char_simps [simp]:
  "replace_char c r [] = []" "replace_char c r (x # xs) = (if x = c then r else [x]) @ replace_char c r xs"
  by (simp_all add: replace_char_def)

lemma escape_label_value_eq: "escape_label_value v = concat (map escape_char v)"
  by (induction v) (simp_all add: escape_label_value_def escape_char_def special_chars)

lemma read_label_escape: "read_label (escape_label_value v @ QUOTE # rest) = Some (v, rest)"
proof (induction v)
  case Nil
  show ?case by (simp add: escape_label_value_eq)
next
  case (Cons c v)
  then show ?case by (auto simp: escape_label_value_eq escape_char_def special_chars)
qed

lemma escape_no_newline: "NL \<notin> set (escape_label_value v)"
  by (auto simp: escape_label_value_eq escape_char_def special_chars split: if_splits)

lemma show_int_no_newline: "NL \<notin> set (show_int i)"
  using show_nat_digits [of "nat i"] show_nat_digits [of "nat (- i)"]
  by (auto simp: show_int_def NL_def is_ascii_digit_def byte_def)

lemma split_lines:
  assumes "\<forall>l \<in> set ls. c \<notin> set l"
  shows "split_on c (concat (map (\<lambda>l. l @ [c]) ls)) = ls @ [[]]"
proof -
  have one: "split_on c (l @ c # rest) = l # split_on c rest" if "c \<notin> set l" for l rest
    using that by (induction l) auto
  show ?thesis using assms by (induction ls) (simp_all add: one)
qed

lemma label_no_newline: "NL \<notin> set name \<Longrightarrow> NL \<notin> set (label name v)"
  using escape_no_newline [of v] by (auto simp: label_def special_chars)

lemma counter_block_no_newline:
  assumes "NL \<notin> set name" "NL \<notin> set help"
  shows "\<forall>l \<in> set (counter_block name help f rows). NL \<notin> set l"
  using assms show_int_no_newline label_no_newline [of "''model''"] by (auto simp: counter_block_def special_chars)

lemma metric_lines_no_newline:
  assumes "\<forall>x. NL \<notin> set (show_f64 x)"
  shows "\<forall>l \<in> set (metric_lines version show_f64 pricing rows total_kwh). NL \<notin> set l"
proof -
  have labels: "NL \<notin> set (label ''model'' v)" "NL \<notin> set (label ''version'' v)" "NL \<notin> set (label ''currency'' v)" for v
    by (rule label_no_newline, simp add: NL_def)+
  show ?thesis
    unfolding metric_lines_def set_append ball_Un
    by (intro conjI counter_block_no_newline) (use assms labels in \<open>auto simp: NL_def\<close>)
qed

text \<open>Who may read: nobody without a configured token, and else only a bearer of a token with the same digest.\<close>

lemma metrics_authorized:
  assumes "r_status (metrics_handler to_str sha256_hex version show_f64 env headers state) = 200"
  shows "\<exists>expected v t. as_metrics_token state = Some expected \<and> header_get ''authorization'' headers = Some v \<and>
    bearer_value (the (to_str v)) t \<and> sha256_hex t = sha256_hex expected"
  using assms
  by (auto simp: metrics_handler_def problem_def Let_def bind_eq_Some_conv dest!: parse_bearer_sound
        split: option.splits if_splits)

section \<open>Properties\<close>



end
