(* ===== verification/Server.thy ===== *)
theory Server
  imports AppState Watchdog Metrics
begin

text \<open>
  Server assembly (\<open>crates/twl-server/src/server.rs\<close>): from a resolved configuration to the shared state, with the
  first administrator and the rotation of the configured password, the background tasks, the table of routes and the
  middleware that adds headers. Starting a thread, hashing and the random password are parameters; the database is opened in
  theory \<open>Database\<close>, and theory \<open>Serve\<close> puts the state behind its layers and serves it.
\<close>

section \<open>Startup\<close>

datatype server_err =
    BindFailure string string
  | ServeFailure string
  | Tls string
  | DatabaseOpen string string
  | General string

datatype startup_panic = RegistryPanic reg_panic | QueuePanic fq_panic

definition backend_params_of :: "backend_config \<Rightarrow> backend_params" where
  "backend_params_of c =
     \<lparr>bp_upstream = bc_upstream c, bp_provider = bc_provider c, bp_api_key = bc_api_key c,
      bp_extra_headers = bc_extra_headers c, bp_gpu_watts = bc_gpu_watts c,
      bp_models_poll_secs = bc_models_poll_secs c, bp_model_types = bc_model_types c,
      bp_model_filter = bc_model_filter c\<rparr>"

text \<open>
  What startup takes from outside. The three steps of opening the database may fail one by one, and so may the queries
  of the bootstrap, which \<open>st_query\<close> numbers: counting the users, looking one up, replacing a password, creating one.
\<close>

record start_env =
  st_open :: "db_error option"
  st_identity_store :: "db_error + database"
  st_usage_store :: "db_error + usage_db"
  st_clock :: "int option"
  st_hash_password :: "string \<Rightarrow> string + string"
  st_verify_password :: "string \<Rightarrow> string \<Rightarrow> string + bool"
  st_random_password :: string
  st_writer :: "string option"
  st_query :: "nat \<Rightarrow> db_error option"

definition checked_query :: "start_env \<Rightarrow> nat \<Rightarrow> string \<Rightarrow> 'a \<Rightarrow> server_err + 'a" where
  "checked_query env n what v =
     (case st_query env n of Some e \<Rightarrow> Inl (General (what @ show_db_error e)) | None \<Rightarrow> Inr v)"

definition short_password :: server_err where
  "short_password = General ''dashboard password must be at least 8 characters''"

text \<open>The administrator of an empty table, from the configuration or made up.\<close>

definition initial_credentials :: "start_env \<Rightarrow> (string \<times> string) option \<Rightarrow> server_err + string \<times> string" where
  "initial_credentials env dashboard_auth =
     (case dashboard_auth of
        Some (user, pass) \<Rightarrow> if \<not> password_has_minimum_length pass then Inl short_password else Inr (user, pass)
      | None \<Rightarrow> Inr (''admin'', st_random_password env))"

definition create_admin :: "start_env \<Rightarrow> (string \<times> string) option \<Rightarrow> database \<Rightarrow> server_err + database" where
  "create_admin env dashboard_auth db =
     bind_result (initial_credentials env dashboard_auth) (\<lambda>(username, password).
     bind_result (map_err (\<lambda>e. General (''failed to hash admin password: '' @ e)) (st_hash_password env password)) (\<lambda>hash.
     bind_result (checked_query env 3 ''failed to create admin user: '' ()) (\<lambda>_.
       case create_user_row (st_clock env) username hash True db of
         (Inl e, _) \<Rightarrow> Inl (General (''failed to create admin user: '' @ show_db_error e))
       | (Inr _, db') \<Rightarrow> Inr db')))"

definition rotate_password :: "start_env \<Rightarrow> string \<Rightarrow> string \<Rightarrow> database \<Rightarrow> server_err + database" where
  "rotate_password env user pass db =
     (if \<not> password_has_minimum_length pass then Inl short_password
      else bind_result (checked_query env 1 ''db get_user: '' (get_user user db)) (\<lambda>found.
           case found of
              None \<Rightarrow> Inr db
            | Some row \<Rightarrow>
                bind_result (map_err (\<lambda>e. General (''failed to verify stored dashboard password: '' @ e))
                               (st_verify_password env pass (us_password_hash row))) (\<lambda>password_matches.
                if password_matches then Inr db
                else bind_result (map_err (\<lambda>e. General (''failed to hash dashboard password: '' @ e)) (st_hash_password env pass))
                       (\<lambda>hash. checked_query env 2 ''failed to update dashboard password: ''
                                 (snd (update_password (us_id row) hash db))))))"

definition bootstrap_identity :: "start_env \<Rightarrow> (string \<times> string) option \<Rightarrow> database \<Rightarrow> server_err + database" where
  "bootstrap_identity env dashboard_auth db =
     bind_result (checked_query env 0 ''db count_users: '' (count_users db)) (\<lambda>n_users.
       if n_users = 0 then create_admin env dashboard_auth db
       else (case dashboard_auth of
               Some (user, pass) \<Rightarrow> rotate_password env user pass db
             | None \<Rightarrow> Inr db))"

definition routing_mode_of :: "'ip config \<Rightarrow> routing_mode" where
  "routing_mode_of config = (if cfg_flat_passthrough config then FlatPassthrough else CatalogMode)"

text \<open>The stores, opened and with the administrator in place.\<close>

definition open_stores :: "start_env \<Rightarrow> 'ip config \<Rightarrow> server_err + database \<times> usage_db" where
  "open_stores env config =
     (let failed = (\<lambda>e. DatabaseOpen (cfg_db_path config) (show_db_error e))
      in bind_result (case st_open env of Some e \<Rightarrow> Inl (failed e) | None \<Rightarrow> Inr ()) (\<lambda>_.
         bind_result (map_err failed (st_identity_store env)) (\<lambda>identity.
         bind_result (map_err failed (st_usage_store env)) (\<lambda>usage.
         bind_result (bootstrap_identity env (cfg_dashboard_auth config) identity) (\<lambda>identity'.
           Inr (identity', usage))))))"

definition build_registry :: "'ip config \<Rightarrow> reg_panic + registry" where
  "build_registry config =
     (let backend_configs = cfg_backends config;
          static_models = map bc_models backend_configs;
          backends = map (\<lambda>c. backend_new (backend_params_of c)) backend_configs;
          lb = cfg_load_balancing config
      in bind_result (registry_new backends static_models (routing_mode_of config)) (\<lambda>reg.
           Inr (with_load_balancing (lb_strategy_of lb) (lb_overload_factor lb) reg)))"

text \<open>A panic is the outer \<open>Inl\<close>, a reported error the inner one. A second has a thousand million nanoseconds.\<close>

definition build_state :: "start_env \<Rightarrow> 'ip config \<Rightarrow> startup_panic + (server_err + 'ip app_state)" where
  "build_state env config =
     (case open_stores env config of
        Inl e \<Rightarrow> Inr (Inl e)
      | Inr (identity, usage) \<Rightarrow>
          (case st_writer env of
             Some e \<Rightarrow> Inr (Inl (General (''failed to start accounting writer: '' @ e)))
           | None \<Rightarrow>
               (case build_registry config of
                  Inl p \<Rightarrow> Inl (RegistryPanic p)
                | Inr registry \<Rightarrow>
                    (case fq_new (cfg_max_concurrency config) (fqc_enabled (cfg_fair_queue config))
                            (uint (fqc_window_seconds (cfg_fair_queue config)) * 1000000000) of
                       Inl p \<Rightarrow> Inl (QueuePanic p)
                     | Inr queue \<Rightarrow>
                         Inr (Inr \<lparr>as_registry = registry, as_usage = usage, as_accounting = spawn, as_identity = identity,
                                   as_pricing = cfg_pricing config, as_dashboard = cfg_dashboard config,
                                   as_max_concurrency = cfg_max_concurrency config,
                                   as_api_key_validation_slots = cfg_max_concurrency config, as_fair_queue = queue,
                                   as_public_usage = cfg_public_usage config,
                                   as_require_api_key = cfg_require_api_key config, as_login_throttle = throttle_new,
                                   as_metrics_token = cfg_metrics_token config\<rparr>)))))"

section \<open>Middleware\<close>

text \<open>\<open>headers.entry(name).or_insert(value)\<close>.\<close>

definition entry_or_insert :: "string \<Rightarrow> string \<Rightarrow> header_map \<Rightarrow> header_map" where
  "entry_or_insert name v headers = (if header_get name headers = None then headers @ [(name, v)] else headers)"

definition security_headers :: "response \<Rightarrow> response" where
  "security_headers r =
     r\<lparr>r_headers := entry_or_insert ''referrer-policy'' ''no-referrer''
         (entry_or_insert ''x-frame-options'' ''DENY''
           (entry_or_insert ''x-content-type-options'' ''nosniff'' (r_headers r)))\<rparr>"

definition hsts_header :: "response \<Rightarrow> response" where
  "hsts_header r =
     r\<lparr>r_headers := entry_or_insert ''strict-transport-security'' ''max-age=31536000; includeSubDomains'' (r_headers r)\<rparr>"

section \<open>Routes\<close>

datatype http_method = GET | POST | PUT | DELETE

datatype endpoint =
    AccountPage | CreateUserEp | ListUsersEp | GetUserEp | DeleteUserEp | ResetPasswordEp | MeEp | ChangePasswordEp
  | CreateKeyEp | ListKeysEp | DeleteKeyEp | LoginEp | LogoutEp | LoginPage | DashboardPage | DashboardEp | TodayEp
  | YesterdayEp | RootEp | HealthEp | MetricsEp | ModelsEp | AssetsEp

record route_entry =
  rt_method :: http_method
  rt_path :: string
  rt_endpoint :: endpoint
  rt_protected :: bool

definition route_at :: "bool \<Rightarrow> http_method \<Rightarrow> string \<Rightarrow> endpoint \<Rightarrow> route_entry" where
  "route_at guarded m path e = \<lparr>rt_method = m, rt_path = path, rt_endpoint = e, rt_protected = guarded\<rparr>"

definition usage_routes :: "bool \<Rightarrow> route_entry list" where
  "usage_routes guarded =
     [route_at guarded GET ''/usage'' DashboardPage, route_at guarded GET ''/api/dashboard'' DashboardEp,
      route_at guarded GET ''/api/today'' TodayEp, route_at guarded GET ''/api/yesterday'' YesterdayEp]"

text \<open>The routes of \<open>build_router\<close>; whatever matches none of them goes to the proxy.\<close>

definition build_router :: "bool \<Rightarrow> route_entry list" where
  "build_router public_usage =
     [route_at False GET ''/'' RootEp, route_at False GET ''/health'' HealthEp, route_at False GET ''/metrics'' MetricsEp,
      route_at False GET ''/v1/models'' ModelsEp, route_at False GET ''/assets/{*rest}'' AssetsEp] @
     [route_at True GET ''/account'' AccountPage, route_at True POST ''/api/users'' CreateUserEp,
      route_at True GET ''/api/users'' ListUsersEp, route_at True GET ''/api/users/{id}'' GetUserEp,
      route_at True DELETE ''/api/users/{id}'' DeleteUserEp, route_at True PUT ''/api/users/{id}/password'' ResetPasswordEp,
      route_at True GET ''/api/me'' MeEp, route_at True PUT ''/api/me/password'' ChangePasswordEp,
      route_at True POST ''/api/keys'' CreateKeyEp, route_at True GET ''/api/keys'' ListKeysEp,
      route_at True DELETE ''/api/keys/{id}'' DeleteKeyEp] @
     (if public_usage then [] else usage_routes True) @
     [route_at False POST ''/api/login'' LoginEp, route_at False POST ''/api/logout'' LogoutEp,
      route_at False GET ''/login'' LoginPage] @
     (if public_usage then usage_routes False else [])"

text \<open>Every method and path has one handler, and no route panics as a duplicate when the router is built.\<close>

lemma router_unambiguous: "distinct (map (\<lambda>r. (rt_method r, rt_path r)) (build_router public_usage))"
  by (cases public_usage; simp only:; code_simp)

text \<open>Only the dashboard changes sides with \<open>public_usage\<close>; everything that manages accounts is behind the guard.\<close>

lemma router_protected:
  "map rt_endpoint (filter rt_protected (build_router public_usage)) =
     [AccountPage, CreateUserEp, ListUsersEp, GetUserEp, DeleteUserEp, ResetPasswordEp, MeEp, ChangePasswordEp, CreateKeyEp,
      ListKeysEp, DeleteKeyEp] @ (if public_usage then [] else [DashboardPage, DashboardEp, TodayEp, YesterdayEp])"
  by (simp add: build_router_def usage_routes_def route_at_def)

lemma header_get_entry:
  "header_get n (entry_or_insert m v h) = (if n = m then Some (unwrap_or (header_get n h) v) else header_get n h)"
  by (auto simp: entry_or_insert_def header_get_def map_add_def split: option.splits)

lemma security_headers_present:
  "header_get ''x-frame-options'' (r_headers (security_headers r)) =
     Some (unwrap_or (header_get ''x-frame-options'' (r_headers r)) ''DENY'')"
  "header_get ''x-content-type-options'' (r_headers (security_headers r)) =
     Some (unwrap_or (header_get ''x-content-type-options'' (r_headers r)) ''nosniff'')"
  "header_get ''referrer-policy'' (r_headers (security_headers r)) =
     Some (unwrap_or (header_get ''referrer-policy'' (r_headers r)) ''no-referrer'')"
  by (simp_all add: security_headers_def header_get_entry)

section \<open>Lemmas on startup\<close>

lemma checked_query_Inr: "checked_query env n what v = Inr w \<longleftrightarrow> st_query env n = None \<and> w = v"
  by (auto simp: checked_query_def split: option.splits)

lemma checked_query_Inl:
  "checked_query env n what v = Inl e \<longleftrightarrow> (\<exists>x. st_query env n = Some x \<and> e = General (what @ show_db_error x))"
  by (auto simp: checked_query_def split: option.splits)

lemma create_admin_Inr:
  assumes "create_admin env auth db = Inr db'" "db_users db = []" "db_inv db"
  shows "db_inv db' \<and> (\<exists>u. admins db' = [u] \<and> db_users db' = [u] \<and>
    (case auth of Some (user, pass) \<Rightarrow> us_username u = user \<and> st_hash_password env pass = Inr (us_password_hash u)
     | None \<Rightarrow> us_username u = ''admin'' \<and> st_hash_password env (st_random_password env) = Inr (us_password_hash u)))"
proof -
  from assms(1) obtain username password hash where
    c: "initial_credentials env auth = Inr (username, password)" "st_hash_password env password = Inr hash"
    and e: "(case create_user_row (st_clock env) username hash True db of
        (Inl e, _) \<Rightarrow> Inl (General (''failed to create admin user: '' @ show_db_error e)) | (Inr _, db') \<Rightarrow> Inr db') = Inr db'"
    by (auto simp: create_admin_def bind_result_Inr checked_query_Inr)
  obtain i where r: "create_user_row (st_clock env) username hash True db = (Inr i, db')"
    using e by (cases "create_user_row (st_clock env) username hash True db") (auto split: sum.split_asm)
  from create_user_row_inv [OF assms(3), of "st_clock env" username hash True] r have "db_inv db'" by simp
  moreover from r assms(2) obtain u where "db_users db' = [u]" "us_username u = username" "us_password_hash u = hash" "us_is_admin u"
    by (auto simp: create_user_row_def Let_def split: option.splits if_splits)
  ultimately show ?thesis
    using c by (auto simp: admins_def initial_credentials_def split: option.splits prod.splits if_splits)
qed

lemma rotate_password_Inr:
  assumes "rotate_password env user pass db = Inr db'" "db_inv db"
  shows "db_inv db' \<and> map (\<lambda>u. u\<lparr>us_password_hash := []\<rparr>) (db_users db') = map (\<lambda>u. u\<lparr>us_password_hash := []\<rparr>) (db_users db)"
proof -
  from assms(1) have "db' = db \<or> (\<exists>i hash. db' = snd (update_password i hash db))"
    by (auto simp: rotate_password_def bind_result_Inr checked_query_Inr split: if_split_asm option.split_asm)
  then show ?thesis using update_where_inv [OF assms(2)] assms(2)
    by (auto simp: update_password_def update_where_def)
qed


lemma bootstrap_identity_Inr:
  assumes "bootstrap_identity env auth db = Inr db'" "db_inv db"
  shows "db_inv db' \<and>
    (if db_users db = [] then (\<exists>u. db_users db' = [u] \<and> us_is_admin u)
     else map (\<lambda>u. u\<lparr>us_password_hash := []\<rparr>) (db_users db') = map (\<lambda>u. u\<lparr>us_password_hash := []\<rparr>) (db_users db))"
proof (cases "db_users db = []")
  case True
  with assms(1) have "create_admin env auth db = Inr db'" by (simp add: bootstrap_identity_def count_users_def bind_result_Inr checked_query_Inr)
  from create_admin_Inr [OF this True assms(2)] True show ?thesis by (auto simp: admins_def filter_eq_Cons_iff)
next
  case False
  with assms show ?thesis
    by (auto simp: bootstrap_identity_def count_users_def bind_result_Inr checked_query_Inr dest: rotate_password_Inr
          split: option.splits prod.splits)
qed

lemma build_registry_ok:
  assumes "config_ok limit config" "length (cfg_backends config) \<le> 2 ^ 32"
  shows "\<exists>reg. build_registry config = Inr reg \<and> reg_inv reg \<and> loads_ok reg [] \<and>
    (\<forall>b \<in> set (reg_backends reg). b_meter b = meter_new (b_gpu_watts b)) \<and>
    length (reg_backends reg) = length (cfg_backends config) \<and>
    reg_overload_factor reg = lb_overload_factor (cfg_load_balancing config) \<and>
    reg_strategy reg = lb_strategy_of (cfg_load_balancing config)"
proof -
  let ?backends = "map (\<lambda>c. backend_new (backend_params_of c)) (cfg_backends config)" and ?models = "map bc_models (cfg_backends config)"
  from assms(1) have "cfg_backends config \<noteq> []" "cfg_flat_passthrough config \<longrightarrow> length (cfg_backends config) = 1"
    unfolding config_ok_def by blast+
  then have "\<exists>reg. registry_new ?backends ?models (routing_mode_of config) = Inr reg \<and> reg_backends reg = ?backends"
    by (simp add: registry_new_def routing_mode_of_def Let_def split: prod.splits)
  then obtain reg where r: "registry_new ?backends ?models (routing_mode_of config) = Inr reg" "reg_backends reg = ?backends" by blast
  from registry_new_idle [OF r(1)] registry_new_inv [OF r(1)] assms(2) have "reg_inv reg" "loads_ok reg []" by simp_all
  with r show ?thesis
    by (simp add: build_registry_def Let_def with_load_balancing_inv) (simp add: with_load_balancing_def loads_ok_def backend_new_def)
qed

lemma bind_result_Inl: "bind_result r f = Inl e \<longleftrightarrow> r = Inl e \<or> (\<exists>x. r = Inr x \<and> f x = Inl e)"
  by (cases r) auto

lemma map_err_Inl: "map_err g r = Inl e \<longleftrightarrow> (\<exists>x. r = Inl x \<and> e = g x)"
  by (cases r) auto

text \<open>The reasons for which startup reports an error.\<close>

definition startup_obstacle :: "start_env \<Rightarrow> 'ip config \<Rightarrow> bool" where
  "startup_obstacle env config \<longleftrightarrow>
     st_open env \<noteq> None \<or> (\<exists>e. st_identity_store env = Inl e) \<or> (\<exists>e. st_usage_store env = Inl e) \<or> st_writer env \<noteq> None \<or>
     (\<exists>n. st_query env n \<noteq> None) \<or>
     (\<exists>p e. st_hash_password env p = Inl e) \<or> (\<exists>p h e. st_verify_password env p h = Inl e) \<or> st_clock env = None \<or>
     (\<exists>u p. cfg_dashboard_auth config = Some (u, p) \<and> \<not> password_has_minimum_length p) \<or>
     (\<exists>db. st_identity_store env = Inr db \<and> db_user_seq db = i64_max)"

lemma create_admin_Inl:
  assumes "create_admin env auth db = Inl e" "db_users db = []"
  shows "(\<exists>p e. st_hash_password env p = Inl e) \<or> (\<exists>n. st_query env n \<noteq> None) \<or> st_clock env = None \<or> db_user_seq db = i64_max \<or>
    (\<exists>u p. auth = Some (u, p) \<and> \<not> password_has_minimum_length p)"
proof -
  consider "initial_credentials env auth = Inl e"
    | password where "map_err (\<lambda>e. General (''failed to hash admin password: '' @ e)) (st_hash_password env password) = Inl e"
    | username hash where "(case create_user_row (st_clock env) username hash True db of
        (Inl e, _) \<Rightarrow> Inl (General (''failed to create admin user: '' @ show_db_error e)) | (Inr _, db') \<Rightarrow> Inr db') = Inl e"
    | "\<exists>n. st_query env n \<noteq> None"
    using assms(1) by (auto simp: create_admin_def bind_result_Inl checked_query_Inl)
  then show ?thesis
  proof cases
    case 1
    then show ?thesis by (auto simp: initial_credentials_def split: option.splits if_splits)
  next
    case (2 password)
    then show ?thesis by (auto simp: map_err_Inl)
  next
    case (3 username hash)
    then show ?thesis using assms(2)
      by (auto simp: create_user_row_def Let_def split: option.splits if_splits)
  qed auto
qed

lemma rotate_password_Inl:
  assumes "rotate_password env user pass db = Inl e"
  shows "(\<exists>p e. st_hash_password env p = Inl e) \<or> (\<exists>p h e. st_verify_password env p h = Inl e) \<or>
    (\<exists>n. st_query env n \<noteq> None) \<or> \<not> password_has_minimum_length pass"
  using assms
  by (auto simp: rotate_password_def bind_result_Inl map_err_Inl checked_query_Inl split: if_splits option.splits)

lemma open_stores_Inl: "open_stores env config = Inl e \<Longrightarrow> startup_obstacle env config"
proof -
  assume "open_stores env config = Inl e"
  then consider "st_open env \<noteq> None" | "\<exists>e. st_identity_store env = Inl e" | "\<exists>e. st_usage_store env = Inl e"
    | db where "st_identity_store env = Inr db" "bootstrap_identity env (cfg_dashboard_auth config) db = Inl e"
    by (auto simp: open_stores_def Let_def bind_result_Inl map_err_Inl split: option.splits)
  then show ?thesis
  proof cases
    case (4 db)
    then consider "db_users db = []" "create_admin env (cfg_dashboard_auth config) db = Inl e"
      | u p where "cfg_dashboard_auth config = Some (u, p)" "rotate_password env u p db = Inl e"
      | "\<exists>n. st_query env n \<noteq> None"
      by (auto simp: bootstrap_identity_def count_users_def bind_result_Inl checked_query_Inl checked_query_Inr
            split: option.splits if_splits)
    then show ?thesis
      using 4(1) by cases (auto simp: startup_obstacle_def dest: create_admin_Inl rotate_password_Inl)
  qed (auto simp: startup_obstacle_def)
qed

lemma open_stores_Inr:
  assumes "open_stores env config = Inr (identity, usage)"
  shows "\<exists>db. st_identity_store env = Inr db \<and> bootstrap_identity env (cfg_dashboard_auth config) db = Inr identity \<and>
    st_usage_store env = Inr usage"
  using assms by (auto simp: open_stores_def Let_def bind_result_Inr split: option.splits)

section \<open>Soundness of startup\<close>

text \<open>
  What the other components assume of the state they start with, for the configuration and the identity tables found: the
  registry is consistent with one idle entry per configured backend, whose meter is idle too, and a finite overload factor of at least one, the admission
  queue is empty with the configured positive capacity, the accounting queue is empty, the identity tables are consistent,
  an empty user table got exactly one user, an administrator, a table with users kept all of them with their roles, and a
  retention other than zero days starts the pruner.
\<close>

definition state_sound :: "'ip config \<Rightarrow> database \<Rightarrow> 'ip app_state \<Rightarrow> bool" where
  "state_sound config db st \<longleftrightarrow>
     reg_inv (as_registry st) \<and> loads_ok (as_registry st) [] \<and>
     (\<forall>b \<in> set (reg_backends (as_registry st)). b_meter b = meter_new (b_gpu_watts b)) \<and>
     length (reg_backends (as_registry st)) = length (cfg_backends config) \<and>
     is_finite (reg_overload_factor (as_registry st)) \<and> f_le (Fin 1) (reg_overload_factor (as_registry st)) \<and>
     fq_inv (fst (as_fair_queue st)) \<lparr>fqw_inner = snd (as_fair_queue st), fqw_held = 0, fqw_channel = [], fqw_cancelled = []\<rparr> \<and>
     0 < fq_capacity (fst (as_fair_queue st)) \<and> fq_capacity (fst (as_fair_queue st)) = as_api_key_validation_slots st \<and>
     0 < fq_window (fst (as_fair_queue st)) \<and> writer_inv (as_accounting st) \<and> accepted (as_accounting st) = [] \<and>
     db_inv (as_identity st) \<and>
     (if db_users db = [] then (\<exists>u. db_users (as_identity st) = [u] \<and> us_is_admin u)
      else map (\<lambda>u. u\<lparr>us_password_hash := []\<rparr>) (db_users (as_identity st)) = map (\<lambda>u. u\<lparr>us_password_hash := []\<rparr>) (db_users db)) \<and>
     (cfg_retention_days config = 0 \<or> spawn_pruner (cfg_retention_days config) \<noteq> None)"

text \<open>From a configuration that resolves, startup never panics, reports an error only for a reason, and is sound otherwise.\<close>

lemma build_state_sound:
  assumes "32 \<le> ci_max_permits io" "resolve io cli = Inr config" "length (cfg_backends config) \<le> 2 ^ 32"
    and "\<forall>db. st_identity_store env = Inr db \<longrightarrow> db_inv db"
  shows "case build_state env config of
      Inl _ \<Rightarrow> False
    | Inr (Inl _) \<Rightarrow> startup_obstacle env config
    | Inr (Inr st) \<Rightarrow>
        (case st_identity_store env of Inr db \<Rightarrow> state_sound config db st | Inl _ \<Rightarrow> False) \<and>
        as_usage st = projr (st_usage_store env) \<and> as_public_usage st = cfg_public_usage config \<and>
        as_max_concurrency st = cfg_max_concurrency config"
proof (cases "open_stores env config")
  case (Inl e)
  with open_stores_Inl [OF Inl] show ?thesis by (simp add: build_state_def)
next
  case (Inr stores)
  obtain identity usage where s: "stores = (identity, usage)" by (cases stores)
  note ok = resolve_valid [OF assms(1,2)]
  obtain reg where reg: "build_registry config = Inr reg" "reg_inv reg" "loads_ok reg []"
    "\<forall>b \<in> set (reg_backends reg). b_meter b = meter_new (b_gpu_watts b)" "length (reg_backends reg) = length (cfg_backends config)"
    "reg_overload_factor reg = lb_overload_factor (cfg_load_balancing config)"
    using build_registry_ok [OF ok assms(3)] by blast
  from ok have c: "1 \<le> cfg_max_concurrency config" "is_finite (lb_overload_factor (cfg_load_balancing config))"
    "f_le (Fin 1) (lb_overload_factor (cfg_load_balancing config))" "fqc_window_seconds (cfg_fair_queue config) \<noteq> 0"
    "uint (cfg_retention_days config) * 86400 \<le> i64_max" unfolding config_ok_def by blast+
  then have window: "0 < uint (fqc_window_seconds (cfg_fair_queue config))" by (metis le_less uint_0_iff uint_ge_0)
  obtain db where db: "st_identity_store env = Inr db" "bootstrap_identity env (cfg_dashboard_auth config) db = Inr identity"
    "st_usage_store env = Inr usage"
    using open_stores_Inr [of env config identity usage] Inr s by blast
  note boot = bootstrap_identity_Inr [OF db(2) assms(4) [rule_format, OF db(1)]]
  have prune: "cfg_retention_days config = 0 \<or> spawn_pruner (cfg_retention_days config) \<noteq> None"
    using c(5) spawn_pruner_Some [of "cfg_retention_days config"] by blast
  show ?thesis
  proof (cases "st_writer env")
    case (Some e)
    with Inr s show ?thesis by (simp add: build_state_def startup_obstacle_def)
  next
    case None
    with Inr s reg c(1) boot c(2,3) window prune show ?thesis
      by (simp add: build_state_def state_sound_def fq_new_def fq_inv_def writer_inv_def accepted_def spawn_def spawn_with_def
            db(1,3))
  qed
qed

definition sample_start :: start_env where
  "sample_start =
     \<lparr>st_open = None, st_identity_store = Inr db_empty, st_usage_store = Inr usage_empty, st_clock = Some 7,
      st_hash_password = Inr, st_verify_password = (\<lambda>p h. Inr (p = h)), st_random_password = ''aaaaaaaa'', st_writer = None,
      st_query = (\<lambda>_. None)\<rparr>"

end
