(* ===== verification/Tls.thy ===== *)
theory Tls
  imports Server
begin

text \<open>
  TLS files (\<open>crates/twl-server/src/tls.rs\<close>): loading the certificate and the private key or generating a self-signed
  pair, on an explicit file system. The file system maps locations to files with their contents and permission bits; the
  location a path leads to, which depends on the working directory and on symbolic links, is a parameter, as are the
  refusals of the operating system, the certificate generator and the TLS library.
\<close>

unbundle bit_operations_syntax

section \<open>Files\<close>

type_synonym location = "component list"

record file_node =
  fn_data :: string
  fn_mode :: "32 word"

record file_system =
  fs_files :: "location \<rightharpoonup> file_node"
  fs_dirs :: "location set"

text \<open>
  \<open>ti_stat\<close> is the error of inspecting a path, \<open>ti_mkdir\<close> the error of creating directories with the ones created before it,
  \<open>ti_open\<close> the error of opening a file for writing, \<open>ti_write\<close> the error of writing with the number of bytes written
  before it.
\<close>

record ('ip, 'tls) tls_io =
  ti_config :: "'ip config_io"
  ti_locate :: "component list \<Rightarrow> location"
  ti_stat :: "string \<Rightarrow> string option"
  ti_mkdir :: "component list \<Rightarrow> file_system \<Rightarrow> (string \<times> location list) option"
  ti_open :: "component list \<Rightarrow> file_system \<Rightarrow> string option"
  ti_write :: "component list \<Rightarrow> string \<Rightarrow> (string \<times> nat) option"
  ti_umask :: "32 word"
  ti_generate :: "string list \<Rightarrow> string + string \<times> string"
  ti_from_pem :: "string \<Rightarrow> string \<Rightarrow> string + 'tls"
  ti_from_pem_file :: "component list \<Rightarrow> component list \<Rightarrow> file_system \<Rightarrow> string + 'tls"

text \<open>A computation on the file system that may fail; a failure keeps what was done before it.\<close>

type_synonym 'a fs_action = "file_system \<Rightarrow> (string + 'a) \<times> file_system"

definition and_then :: "(file_system \<Rightarrow> ('e + 'a) \<times> file_system) \<Rightarrow> ('a \<Rightarrow> file_system \<Rightarrow> ('e + 'b) \<times> file_system) \<Rightarrow>
    file_system \<Rightarrow> ('e + 'b) \<times> file_system" where
  "and_then m f fs = (case m fs of (Inl e, fs') \<Rightarrow> (Inl e, fs') | (Inr x, fs') \<Rightarrow> f x fs')"

definition tls_failure :: "'a fs_action \<Rightarrow> file_system \<Rightarrow> (server_err + 'a) \<times> file_system" where
  "tls_failure m fs = (case m fs of (r, fs') \<Rightarrow> (map_err Tls r, fs'))"

definition is_file :: "('ip, 'tls) tls_io \<Rightarrow> file_system \<Rightarrow> component list \<Rightarrow> bool" where
  "is_file io fs p \<longleftrightarrow> fs_files fs (ti_locate io p) \<noteq> None"

text \<open>\<open>Path::parent\<close>: nothing for the root and the empty path.\<close>

definition path_parent :: "component list \<Rightarrow> component list option" where
  "path_parent p = (if p = [] \<or> List.last p = RootDir then None else Some (butlast p))"

text \<open>\<open>fs::create_dir_all\<close>: every prefix of the path becomes a directory; the empty path is nothing to do.\<close>

definition create_dir_all :: "('ip, 'tls) tls_io \<Rightarrow> component list \<Rightarrow> unit fs_action" where
  "create_dir_all io p fs =
     (if p = [] then (Inr (), fs)
      else (case ti_mkdir io p fs of
              Some (e, made) \<Rightarrow> (Inl e, fs\<lparr>fs_dirs := fs_dirs fs \<union> set made\<rparr>)
            | None \<Rightarrow> (Inr (), fs\<lparr>fs_dirs := fs_dirs fs \<union> set (map (\<lambda>n. ti_locate io (take n p)) [1..<length p + 1])\<rparr>)))"

text \<open>
  \<open>OpenOptions::open\<close> with \<open>write\<close>, \<open>create\<close> and \<open>truncate\<close>: the mode applies to a file that is created, less the bits of
  the umask; an existing file keeps its mode.
\<close>

definition open_truncate :: "('ip, 'tls) tls_io \<Rightarrow> 32 word \<Rightarrow> component list \<Rightarrow> unit fs_action" where
  "open_truncate io mode p fs =
     (case ti_open io p fs of
        Some e \<Rightarrow> (Inl e, fs)
      | None \<Rightarrow>
          (let kept = (case fs_files fs (ti_locate io p) of Some n \<Rightarrow> fn_mode n | None \<Rightarrow> mode AND NOT (ti_umask io))
           in (Inr (), fs\<lparr>fs_files := (fs_files fs)(ti_locate io p \<mapsto> \<lparr>fn_data = [], fn_mode = kept\<rparr>)\<rparr>)))"

definition put_data :: "('ip, 'tls) tls_io \<Rightarrow> component list \<Rightarrow> string \<Rightarrow> file_system \<Rightarrow> file_system" where
  "put_data io p bs fs =
     fs\<lparr>fs_files := (fs_files fs)(ti_locate io p := map_option (\<lambda>n. n\<lparr>fn_data := bs\<rparr>) (fs_files fs (ti_locate io p)))\<rparr>"

definition write_all :: "('ip, 'tls) tls_io \<Rightarrow> component list \<Rightarrow> string \<Rightarrow> unit fs_action" where
  "write_all io p bs fs =
     (case ti_write io p bs of
        Some (e, n) \<Rightarrow> (Inl e, put_data io p (take n bs) fs)
      | None \<Rightarrow> (Inr (), put_data io p bs fs))"

text \<open>\<open>fs::write\<close> creates with mode 0666; the key is created with mode 0600.\<close>

definition fs_write :: "('ip, 'tls) tls_io \<Rightarrow> 32 word \<Rightarrow> component list \<Rightarrow> string \<Rightarrow> unit fs_action" where
  "fs_write io mode p bs = and_then (open_truncate io mode p) (\<lambda>_. write_all io p bs)"

section \<open>Loading and generating\<close>

text \<open>What the check of the paths sees of the file system.\<close>

definition path_exists :: "('ip, 'tls) tls_io \<Rightarrow> file_system \<Rightarrow> string \<Rightarrow> bool" where
  "path_exists io fs p \<longleftrightarrow>
     fs_files fs (ti_locate io (path_components p)) \<noteq> None \<or> ti_locate io (path_components p) \<in> fs_dirs fs"

definition observed :: "('ip, 'tls) tls_io \<Rightarrow> file_system \<Rightarrow> 'ip config_io" where
  "observed io fs = (ti_config io)
     \<lparr>ci_try_exists := (\<lambda>p. case ti_stat io p of Some e \<Rightarrow> Inl e | None \<Rightarrow> Inr (path_exists io fs p)),
      ci_canonicalize := (\<lambda>p. case ti_stat io p of Some e \<Rightarrow> Inl e | None \<Rightarrow> Inr (ti_locate io (path_components p)))\<rparr>"

definition show_config_error :: "config_error \<Rightarrow> string" where
  "show_config_error e =
     (case e of
        ConfigFileError path message \<Rightarrow> ''config file error ('' @ path @ ''): '' @ message
      | Bare m \<Rightarrow> m
      | Validation m \<Rightarrow> m)"

definition generate_self_signed :: "('ip, 'tls) tls_io \<Rightarrow> string list \<Rightarrow> string + string \<times> string" where
  "generate_self_signed io hostnames = ti_generate io hostnames"

text \<open>The conversion of the generator's error.\<close>

definition from_rcgen :: "string \<Rightarrow> server_err" where
  "from_rcgen e = Tls e"

definition make_parent :: "('ip, 'tls) tls_io \<Rightarrow> component list \<Rightarrow> unit fs_action" where
  "make_parent io p fs = (case path_parent p of Some parent \<Rightarrow> create_dir_all io parent fs | None \<Rightarrow> (Inr (), fs))"

definition write_pair :: "('ip, 'tls) tls_io \<Rightarrow> component list \<Rightarrow> component list \<Rightarrow> string \<Rightarrow> string \<Rightarrow> unit fs_action" where
  "write_pair io cert_path key_path cert_pem key_pem =
     and_then (make_parent io cert_path) (\<lambda>_.
     and_then (make_parent io key_path) (\<lambda>_.
     and_then (fs_write io 0x1B6 cert_path cert_pem) (\<lambda>_.
       fs_write io 0x180 key_path key_pem)))"

definition load_or_generate :: "('ip, 'tls) tls_io \<Rightarrow> tls_config \<Rightarrow> file_system \<Rightarrow> (server_err + 'tls) \<times> file_system" where
  "load_or_generate io cfg fs =
     (case validate_distinct_paths (observed io fs) cfg of
        Inl e \<Rightarrow> (Inl (Tls (show_config_error e)), fs)
      | Inr _ \<Rightarrow>
          (let cert_path = path_components (tls_cert_path cfg); key_path = path_components (tls_key_path cfg)
           in if is_file io fs cert_path \<and> is_file io fs key_path
              then (map_err Tls (ti_from_pem_file io cert_path key_path fs), fs)
              else (case generate_self_signed io (tls_hostnames cfg) of
                      Inl e \<Rightarrow> (Inl (from_rcgen e), fs)
                    | Inr (cert_pem, key_pem) \<Rightarrow>
                        tls_failure (and_then (write_pair io cert_path key_path cert_pem key_pem)
                                       (\<lambda>_ fs'. (ti_from_pem io cert_pem key_pem, fs'))) fs)))"

section \<open>What the actions leave alone\<close>

text \<open>
  The contract of an action on the file system: the files outside a set of locations stay as they are, and no directory
  disappears. It is closed under sequencing.
\<close>

definition confined :: "location set \<Rightarrow> (file_system \<Rightarrow> 'r \<times> file_system) \<Rightarrow> bool" where
  "confined L m \<longleftrightarrow>
     (\<forall>fs. (\<forall>l. l \<notin> L \<longrightarrow> fs_files (snd (m fs)) l = fs_files fs l) \<and> fs_dirs fs \<subseteq> fs_dirs (snd (m fs)))"

lemma confinedD: "confined L m \<Longrightarrow> l \<notin> L \<Longrightarrow> fs_files (snd (m fs)) l = fs_files fs l"
  "confined L m \<Longrightarrow> fs_dirs fs \<subseteq> fs_dirs (snd (m fs))"
  by (auto simp: confined_def)

lemma confined_and_then:
  assumes "confined L m" "\<And>x. confined M (f x)"
  shows "confined (L \<union> M) (and_then m f)"
  unfolding confined_def
proof (intro allI conjI impI)
  fix fs l
  assume "l \<notin> L \<union> M"
  then show "fs_files (snd (and_then m f fs)) l = fs_files fs l"
    using confinedD(1) [OF assms(1), of l fs] confinedD(1) [OF assms(2), of l]
    by (cases "m fs") (auto simp: and_then_def split: sum.split)
next
  fix fs
  show "fs_dirs fs \<subseteq> fs_dirs (snd (and_then m f fs))"
    using confinedD(2) [OF assms(1), of fs] confinedD(2) [OF assms(2)]
    by (cases "m fs") (auto simp: and_then_def split: sum.split)
qed

lemma confined_make_parent: "confined {} (make_parent io p)"
  by (auto simp: confined_def make_parent_def create_dir_all_def split: option.splits)

lemma confined_open: "confined {ti_locate io p} (open_truncate io mode p)"
  by (auto simp: confined_def open_truncate_def Let_def split: option.splits)

lemma confined_write_all: "confined {ti_locate io p} (write_all io p bs)"
  by (auto simp: confined_def write_all_def put_data_def split: option.splits)

lemma confined_fs_write: "confined {ti_locate io p} (fs_write io mode p bs)"
  using confined_and_then [OF confined_open [of io p mode] confined_write_all [of io p bs]] by (simp add: fs_write_def)

lemma confined_write_pair: "confined {ti_locate io cert, ti_locate io key} (write_pair io cert key c k)"
proof -
  have "confined ({} \<union> ({} \<union> ({ti_locate io cert} \<union> {ti_locate io key}))) (write_pair io cert key c k)"
    unfolding write_pair_def by (intro confined_and_then confined_make_parent confined_fs_write)
  then show ?thesis by (simp add: insert_commute)
qed

text \<open>Writing a file: its contents afterwards, and its mode where it is new.\<close>

lemma fs_write_ok:
  assumes "fs_write io mode p bs fs = (Inr (), fs')"
  shows "\<exists>n. fs_files fs' (ti_locate io p) = Some n \<and> fn_data n = bs"
  using assms
  by (auto simp: fs_write_def and_then_def open_truncate_def write_all_def put_data_def Let_def split: option.splits prod.splits)

lemma fs_write_mode:
  assumes "fs_files fs (ti_locate io p) = None" "fs_files (snd (fs_write io mode p bs fs)) (ti_locate io p) = Some n"
  shows "fn_mode n = mode AND NOT (ti_umask io)"
  using assms
  by (auto simp: fs_write_def and_then_def open_truncate_def write_all_def put_data_def Let_def split: option.splits prod.splits)

lemma write_pair_parts:
  assumes "write_pair io cert key c k fs = (Inr (), fs')"
  obtains fs1 fs2 where "fs_write io 0x1B6 cert c fs1 = (Inr (), fs2)" "fs_write io 0x180 key k fs2 = (Inr (), fs')"
  using assms by (auto simp: write_pair_def and_then_def split: prod.splits sum.splits)

lemma private_mode: "(0x180 AND NOT u) AND 0x3F = (0 :: 32 word)"
proof -
  have "(0x180 AND NOT u) AND 0x3F = (0x180 AND 0x3F) AND NOT u" by (simp add: ac_simps)
  then show ?thesis by simp
qed


lemma and_then_assoc: "and_then (and_then m f) g = and_then m (\<lambda>x. and_then (f x) g)"
  by (rule ext) (auto simp: and_then_def split: prod.split sum.split)

lemma write_pair_mode:
  assumes "fs_files fs (ti_locate io key) = None" "ti_locate io cert \<noteq> ti_locate io key"
    and "fs_files (snd (write_pair io cert key c k fs)) (ti_locate io key) = Some n"
  shows "fn_mode n = 0x180 AND NOT (ti_umask io)"
proof -
  let ?m = "and_then (make_parent io cert) (\<lambda>_. and_then (make_parent io key) (\<lambda>_. fs_write io 0x1B6 cert c))"
  have whole: "write_pair io cert key c k = and_then ?m (\<lambda>_. fs_write io 0x180 key k)"
    by (simp add: write_pair_def and_then_assoc)
  have "confined ({} \<union> ({} \<union> {ti_locate io cert})) ?m"
    by (intro confined_and_then confined_make_parent confined_fs_write)
  with assms(1,2) have none: "fs_files (snd (?m fs)) (ti_locate io key) = None"
    by (subst confinedD(1)) auto
  obtain r fs1 where m: "?m fs = (r, fs1)" by fastforce
  with assms(3) none obtain x where "r = Inr x" by (cases r) (auto simp: whole and_then_def)
  with assms(3) none m show ?thesis
    using fs_write_mode [of fs1 io key "0x180" k n] by (simp add: whole and_then_def)
qed

text \<open>What the check of the paths knows: where a path leads, if something is there.\<close>

lemma comparable_observed:
  assumes "comparable_tls_path (observed io fs) p = Inr cp"
  shows "cp_canonical cp = (if path_exists io fs p then Some (ti_locate io (path_components p)) else None)"
    and "comparable_tls_path (observed io fs') p = Inr (cp\<lparr>cp_canonical :=
      (if path_exists io fs' p then Some (ti_locate io (path_components p)) else None)\<rparr>)"
  using assms
  by (auto simp: comparable_tls_path_def observed_def bind_result_Inr split: option.split_asm sum.split_asm bool.split_asm if_split_asm)

lemma validate_observed:
  assumes "validate_distinct_paths (observed io fs) cfg = Inr ()" "tls_enabled cfg"
    and "path_exists io fs' (tls_cert_path cfg)" "path_exists io fs' (tls_key_path cfg)"
  shows "validate_distinct_paths (observed io fs') cfg =
    (if ti_locate io (path_components (tls_cert_path cfg)) = ti_locate io (path_components (tls_key_path cfg))
     then Inl (Validation ''TLS certificate and private key paths must resolve to different files'') else Inr ())"
proof -
  from assms(1,2) obtain cert key where
    c: "comparable_tls_path (observed io fs) (tls_cert_path cfg) = Inr cert"
       "comparable_tls_path (observed io fs) (tls_key_path cfg) = Inr key" "cp_normalized cert \<noteq> cp_normalized key"
    by (auto simp: validate_distinct_paths_def bind_result_Inr split: if_split_asm)
  show ?thesis
    using comparable_observed(2) [OF c(1), of fs'] comparable_observed(2) [OF c(2), of fs'] c(3) assms(2-)
    by (simp add: validate_distinct_paths_def)
qed

lemma is_file_exists: "is_file io fs (path_components p) \<Longrightarrow> path_exists io fs p"
  by (simp add: is_file_def path_exists_def)

lemma snd_tls_failure [simp]: "snd (tls_failure m fs) = snd (m fs)"
  by (simp add: tls_failure_def split: prod.split)

lemma snd_and_then_pure [simp]: "snd (and_then m (\<lambda>x fs'. (f x, fs')) fs) = snd (m fs)"
  by (simp add: and_then_def split: prod.split sum.split)

lemma load_or_generate_files:
  fixes cfg :: tls_config
  defines "cert \<equiv> path_components (tls_cert_path cfg)" and "key \<equiv> path_components (tls_key_path cfg)"
  obtains "snd (load_or_generate io cfg fs) = fs"
    | c k where "snd (load_or_generate io cfg fs) = snd (write_pair io cert key c k fs)" "\<not> (is_file io fs cert \<and> is_file io fs key)"
proof (cases "is_file io fs cert \<and> is_file io fs key")
  case False
  then show ?thesis using that unfolding load_or_generate_def Let_def cert_def [symmetric] key_def [symmetric]
    by (cases "validate_distinct_paths (observed io fs) cfg"; cases "generate_self_signed io (tls_hostnames cfg)") auto
next
  case True
  then have "snd (load_or_generate io cfg fs) = fs"
    by (simp add: load_or_generate_def Let_def cert_def key_def split: sum.split)
  then show ?thesis by (rule that(1))
qed

section \<open>Properties\<close>


definition sample_tls :: "(nat, string \<times> string) tls_io" where
  "sample_tls =
     \<lparr>ti_config = sample_io, ti_locate = (\<lambda>p. p), ti_stat = (\<lambda>_. None), ti_mkdir = (\<lambda>_ _. None), ti_open = (\<lambda>_ _. None),
      ti_write = (\<lambda>_ _. None), ti_umask = 0x12, ti_generate = (\<lambda>_. Inr (''CERT'', ''KEY'')), ti_from_pem = (\<lambda>c k. Inr (c, k)),
      ti_from_pem_file = (\<lambda>c k fs. case (fs_files fs c, fs_files fs k) of
         (Some m, Some n) \<Rightarrow> Inr (fn_data m, fn_data n) | _ \<Rightarrow> Inl ''not found'')\<rparr>"

definition sample_tls_config :: tls_config where
  "sample_tls_config =
     \<lparr>tls_enabled = True, tls_cert_path = ''/t/c'', tls_key_path = ''/t/k'', tls_hostnames = [''localhost'']\<rparr>"

definition fs_empty :: file_system where
  "fs_empty = \<lparr>fs_files = Map.empty, fs_dirs = {[RootDir]}\<rparr>"

lemma sample_paths:
  "path_components ''/t/c'' = [RootDir, Normal ''t'', Normal ''c'']" "path_components ''/t/k'' = [RootDir, Normal ''t'', Normal ''k'']"
  by code_simp+

lemma sample_locations:
  "ti_locate sample_tls (path_components (tls_cert_path sample_tls_config)) = [RootDir, Normal ''t'', Normal ''c'']"
  "ti_locate sample_tls (path_components (tls_key_path sample_tls_config)) = [RootDir, Normal ''t'', Normal ''k'']"
  by (simp_all add: sample_tls_def sample_tls_config_def sample_paths)

lemma sample_generates:
  "\<exists>fs'. load_or_generate sample_tls sample_tls_config fs_empty = (Inr (''CERT'', ''KEY''), fs') \<and>
     fs_files fs' [RootDir, Normal ''t'', Normal ''k''] = Some \<lparr>fn_data = ''KEY'', fn_mode = 0x180\<rparr>"
  by (simp add: load_or_generate_def validate_distinct_paths_def comparable_tls_path_def observed_def path_exists_def sample_paths
        sample_tls_config_def sample_tls_def fs_empty_def is_file_def generate_self_signed_def tls_failure_def and_then_def
        write_pair_def make_parent_def path_parent_def create_dir_all_def fs_write_def open_truncate_def write_all_def put_data_def
        normalize_path_def starts_with_def)


text \<open>
  C26: The generated identity is reused. After a start that succeeded, whether it loaded or generated the pair, the next start
  loads the same identity from the files and writes nothing, so the fingerprint clients trust is preserved. The one
  exception is two paths that lead to the same location where neither file existed, through a symbolic link to a directory:
  the check cannot see that alias, the key overwrites the certificate, and the next start refuses.
\<close>

theorem tls_pair_reused:
  assumes pem_file_reads: "\<And>cert key fs c k. fs_files fs (ti_locate io cert) = Some c \<Longrightarrow> fs_files fs (ti_locate io key) = Some k \<Longrightarrow>
      ti_from_pem_file io cert key fs = ti_from_pem io (fn_data c) (fn_data k)"
    and first: "load_or_generate io cfg fs = (Inr t, fs')" and "tls_enabled cfg"
  shows "load_or_generate io cfg fs' =
    (if ti_locate io (path_components (tls_cert_path cfg)) = ti_locate io (path_components (tls_key_path cfg))
     then (Inl (Tls ''TLS certificate and private key paths must resolve to different files''), fs')
     else (Inr t, fs'))"
proof -
  let ?c = "path_components (tls_cert_path cfg)" and ?k = "path_components (tls_key_path cfg)"
  have valid: "validate_distinct_paths (observed io fs) cfg = Inr ()"
    using first by (auto simp: load_or_generate_def split: sum.split_asm)
  note again = validate_observed [OF valid assms(3), of fs', OF is_file_exists is_file_exists]
  show ?thesis
  proof (cases "is_file io fs ?c \<and> is_file io fs ?k")
    case True
    with first valid have "fs' = fs" by (simp add: load_or_generate_def)
    with again True first valid show ?thesis by (simp split: if_split_asm)
  next
    case False
    then obtain c k where gen: "write_pair io ?c ?k c k fs = (Inr (), fs')" "ti_from_pem io c k = Inr t"
      using first valid
      by (auto simp: load_or_generate_def Let_def tls_failure_def and_then_def split: sum.split_asm prod.split_asm)
    from write_pair_parts [OF gen(1)] obtain fs1 fs2 where
      w: "fs_write io 0x1B6 ?c c fs1 = (Inr (), fs2)" "fs_write io 0x180 ?k k fs2 = (Inr (), fs')" .
    from fs_write_ok [OF w(1)] fs_write_ok [OF w(2)] obtain m n where
      d: "fs_files fs2 (ti_locate io ?c) = Some m" "fn_data m = c" "fs_files fs' (ti_locate io ?k) = Some n" "fn_data n = k" by blast
    have kept: "fs_files fs' (ti_locate io ?c) = Some m" if "ti_locate io ?c \<noteq> ti_locate io ?k"
      using confinedD(1) [OF confined_fs_write [of io ?k "0x180" k], of "ti_locate io ?c" fs2] that w(2) d(1) by simp
    then have files: "is_file io fs' ?c" "is_file io fs' ?k" using d(3) by (cases "ti_locate io ?c = ti_locate io ?k"; simp add: is_file_def)+
    show ?thesis
      using again [OF files] files kept d gen(2) pem_file_reads [of fs' ?c m ?k n]
      by (simp add: load_or_generate_def Let_def show_config_error_def)
  qed
qed


theorem tls_pair_reused_witness:
  "\<exists>fs'. load_or_generate sample_tls sample_tls_config fs_empty = (Inr (''CERT'', ''KEY''), fs') \<and>
     load_or_generate sample_tls sample_tls_config fs' = (Inr (''CERT'', ''KEY''), fs')"
proof -
  obtain fs' where g: "load_or_generate sample_tls sample_tls_config fs_empty = (Inr (''CERT'', ''KEY''), fs')"
    using sample_generates by blast
  have "load_or_generate sample_tls sample_tls_config fs' =
    (if ti_locate sample_tls (path_components (tls_cert_path sample_tls_config)) =
        ti_locate sample_tls (path_components (tls_key_path sample_tls_config))
     then (Inl (Tls ''TLS certificate and private key paths must resolve to different files''), fs')
     else (Inr (''CERT'', ''KEY''), fs'))"
    by (rule tls_pair_reused [OF _ g]) (simp_all add: sample_tls_def sample_tls_config_def)
  then have "load_or_generate sample_tls sample_tls_config fs' = (Inr (''CERT'', ''KEY''), fs')"
    by (simp add: sample_locations)
  with g show ?thesis by blast
qed

end
