(* ===== verification/Database.thy ===== *)
theory Database
  imports Identity UsageStore
begin

text \<open>
  The SQLite core (\<open>crates/twl-store/src/db.rs\<close>): the settings of a connection, opening the file with the
  declarative schema and the backfill of \<open>schema.sql\<close>, the connection pool and the constructors of the two
  stores. A connection carries the settings that pragmas gave it; what SQLite and the pool can refuse is a
  parameter, one answer per call.
\<close>

section \<open>Errors\<close>

record sqlite_error =
  se_extended_code :: "int option"
  se_text :: string

definition SQLITE_CONSTRAINT_UNIQUE :: int where
  "SQLITE_CONSTRAINT_UNIQUE = 2067"

definition from_sqlite :: "sqlite_error \<Rightarrow> db_error" where
  "from_sqlite e =
     (case se_extended_code e of
        Some code \<Rightarrow> if code = SQLITE_CONSTRAINT_UNIQUE then UniqueViolation else Sqlite (se_text e)
      | None \<Rightarrow> Sqlite (se_text e))"

definition from_pool :: "string \<Rightarrow> db_error" where
  "from_pool e = Pool e"

text \<open>
  \<open>now\<close> is the system clock in nanoseconds relative to the epoch; \<open>as_secs\<close> is an unsigned 64-bit number of whole seconds
  that the cast reinterprets as signed.
\<close>

definition now_unix_secs :: "int \<Rightarrow> int option" where
  "now_unix_secs now = (if now < 0 then None else Some (sint (word_of_int (now div 1000000000) :: 64 word)))"

section \<open>Connections\<close>

record connection =
  cn_path :: string
  cn_settings :: "string \<rightharpoonup> string"
  cn_busy_timeout :: nat

record sqlite_env =
  sq_open :: "string \<Rightarrow> sqlite_error + connection"
  sq_pragma :: "string \<Rightarrow> string \<Rightarrow> connection \<Rightarrow> sqlite_error option"
  sq_busy_timeout :: "nat \<Rightarrow> connection \<Rightarrow> sqlite_error option"
  sq_statement :: "nat \<Rightarrow> sqlite_error option"

definition pragma_update :: "sqlite_env \<Rightarrow> string \<Rightarrow> string \<Rightarrow> connection \<Rightarrow> sqlite_error + connection" where
  "pragma_update env name v conn =
     (case sq_pragma env name v conn of
        Some e \<Rightarrow> Inl e
      | None \<Rightarrow> Inr (conn\<lparr>cn_settings := (cn_settings conn)(name \<mapsto> v)\<rparr>))"

definition busy_timeout :: "sqlite_env \<Rightarrow> nat \<Rightarrow> connection \<Rightarrow> sqlite_error + connection" where
  "busy_timeout env seconds conn =
     (case sq_busy_timeout env seconds conn of Some e \<Rightarrow> Inl e | None \<Rightarrow> Inr (conn\<lparr>cn_busy_timeout := seconds\<rparr>))"

definition open_connection :: "sqlite_env \<Rightarrow> string \<Rightarrow> sqlite_error + connection" where
  "open_connection env path =
     bind_result (sq_open env path) (\<lambda>conn.
     bind_result (pragma_update env ''foreign_keys'' ''ON'' conn) (\<lambda>conn.
     bind_result (pragma_update env ''journal_mode'' ''WAL'' conn) (\<lambda>conn.
     bind_result (pragma_update env ''synchronous'' ''NORMAL'' conn) (\<lambda>conn.
       busy_timeout env 5 conn))))"

section \<open>Schema\<close>

text \<open>The file: which tables exist, and their rows, none in a table that does not exist.\<close>

record db_file =
  df_tables :: "string list"
  df_identity :: database
  df_usage :: usage_db

definition create_table_if_not_exists :: "string \<Rightarrow> string list \<Rightarrow> string list" where
  "create_table_if_not_exists name tables = (if name \<in> set tables then tables else tables @ [name])"

definition schema_tables :: "string list" where
  "schema_tables = [''token_usage'', ''energy'', ''users'', ''api_keys'', ''api_key_attribution'']"

definition attribution_of :: "key_row \<Rightarrow> attribution_row" where
  "attribution_of k = \<lparr>at_api_key_id = kr_id k, at_user_id = kr_user_id k, at_name = kr_name k, at_prefix = kr_prefix k\<rparr>"

text \<open>
  \<open>INSERT OR IGNORE INTO api_key_attribution SELECT \<dots> FROM api_keys\<close>: rows whose primary key is taken are skipped; rows
  stay in the order of their key. \<open>OR IGNORE\<close> does not cover foreign keys: where they are enforced a key of a missing
  user fails the whole statement.
\<close>

definition insert_or_ignore :: "attribution_row \<Rightarrow> attribution_row list \<Rightarrow> attribution_row list" where
  "insert_or_ignore a rows = (if at_api_key_id a \<in> at_api_key_id ` set rows then rows else insort_key at_api_key_id a rows)"

definition backfill :: "bool \<Rightarrow> database \<Rightarrow> sqlite_error + database" where
  "backfill foreign_keys db =
     (let missing = filter (\<lambda>k. kr_id k \<notin> at_api_key_id ` set (db_attribution db)) (db_keys db)
      in if foreign_keys \<and> (\<exists>k \<in> set missing. kr_user_id k \<notin> us_id ` set (db_users db))
         then Inl \<lparr>se_extended_code = Some 787, se_text = ''FOREIGN KEY constraint failed''\<rparr>
         else Inr (db\<lparr>db_attribution := fold (insert_or_ignore \<circ> attribution_of) (db_keys db) (db_attribution db)\<rparr>))"

text \<open>
  \<open>execute_batch\<close> of the schema: every statement commits on its own. Statement \<open>i\<close> creates table \<open>i\<close>, the one after the
  tables is the backfill; indexes do not change what is stored.
\<close>

fun create_tables :: "sqlite_env \<Rightarrow> nat \<Rightarrow> string list \<Rightarrow> string list \<Rightarrow> sqlite_error option \<times> string list" where
  "create_tables env i [] tables = (None, tables)"
| "create_tables env i (name # names) tables =
     (case sq_statement env i of
        Some e \<Rightarrow> (Some e, tables)
      | None \<Rightarrow> create_tables env (Suc i) names (create_table_if_not_exists name tables))"

definition execute_schema :: "sqlite_env \<Rightarrow> connection \<Rightarrow> db_file \<Rightarrow> (sqlite_error + unit) \<times> db_file" where
  "execute_schema env conn f =
     (case create_tables env 0 schema_tables (df_tables f) of
        (Some e, tables) \<Rightarrow> (Inl e, f\<lparr>df_tables := tables\<rparr>)
      | (None, tables) \<Rightarrow>
          (case sq_statement env (length schema_tables) of
             Some e \<Rightarrow> (Inl e, f\<lparr>df_tables := tables\<rparr>)
           | None \<Rightarrow>
               (case backfill (cn_settings conn ''foreign_keys'' = Some ''ON'') (df_identity f) of
                  Inl e \<Rightarrow> (Inl e, f\<lparr>df_tables := tables\<rparr>)
                | Inr db \<Rightarrow> (Inr (), f\<lparr>df_tables := tables, df_identity := db\<rparr>))))"

section \<open>Database handle\<close>

text \<open>The initializer the pool runs on every connection it makes.\<close>

definition pool_init :: "sqlite_env \<Rightarrow> connection \<Rightarrow> sqlite_error + connection" where
  "pool_init env conn =
     bind_result (pragma_update env ''foreign_keys'' ''ON'' conn) (\<lambda>conn.
     bind_result (pragma_update env ''journal_mode'' ''WAL'' conn) (\<lambda>conn.
     bind_result (pragma_update env ''synchronous'' ''NORMAL'' conn) (\<lambda>conn.
       busy_timeout env 5 conn)))"

record db_pool =
  pl_path :: string
  pl_idle :: "connection list"

record db_handle =
  dh_path :: string
  dh_pool :: db_pool

text \<open>\<open>build_unchecked\<close> makes no connection: the pool starts empty.\<close>

definition database_open :: "sqlite_env \<Rightarrow> string \<Rightarrow> db_file \<Rightarrow> (db_error + db_handle) \<times> db_file" where
  "database_open env path f =
     (case open_connection env path of
        Inl e \<Rightarrow> (Inl (from_sqlite e), f)
      | Inr conn \<Rightarrow>
          (case execute_schema env conn f of
             (Inl e, f') \<Rightarrow> (Inl (from_sqlite e), f')
           | (Inr _, f') \<Rightarrow> (Inr \<lparr>dh_path = path, dh_pool = \<lparr>pl_path = path, pl_idle = []\<rparr>\<rparr>, f')))"

definition connect :: "sqlite_env \<Rightarrow> db_handle \<Rightarrow> db_error + connection" where
  "connect env db = map_err from_sqlite (open_connection env (dh_path db))"

definition pool_of :: "db_handle \<Rightarrow> db_pool" where
  "pool_of db = dh_pool db"

definition manager_connect :: "sqlite_env \<Rightarrow> db_pool \<Rightarrow> sqlite_error + connection" where
  "manager_connect env pool = bind_result (sq_open env (pl_path pool)) (pool_init env)"

section \<open>Stores\<close>

record identity_store =
  is_read :: connection
  is_write :: connection

definition identity_store_new :: "sqlite_env \<Rightarrow> db_handle \<Rightarrow> db_error + identity_store" where
  "identity_store_new env db =
     bind_result (connect env db) (\<lambda>read.
     bind_result (connect env db) (\<lambda>write.
       Inr \<lparr>is_read = read, is_write = write\<rparr>))"

record usage_store =
  ust_pool :: db_pool

definition usage_store_new :: "db_handle \<Rightarrow> db_error + usage_store" where
  "usage_store_new db = Inr \<lparr>ust_pool = pool_of db\<rparr>"

section \<open>The pool at work\<close>

text \<open>
  The pool of a store over time, with what is lent out: the manager adds a connection to the idle ones, a caller takes an
  idle connection or gets the error of the pool, and gives it back or drops it as broken.
\<close>

datatype pool_event = Grow | Take | GiveBack nat | Discard nat

record pool_state =
  ps_pool :: db_pool
  ps_lent :: "connection list"

fun pool_step :: "sqlite_env \<Rightarrow> pool_state \<Rightarrow> pool_event \<Rightarrow> pool_state" where
  "pool_step env s Grow =
     (case manager_connect env (ps_pool s) of
        Inl _ \<Rightarrow> s
      | Inr c \<Rightarrow> s\<lparr>ps_pool := (ps_pool s)\<lparr>pl_idle := pl_idle (ps_pool s) @ [c]\<rparr>\<rparr>)"
| "pool_step env s Take =
     (case pl_idle (ps_pool s) of
        [] \<Rightarrow> s
      | c # cs \<Rightarrow> s\<lparr>ps_pool := (ps_pool s)\<lparr>pl_idle := cs\<rparr>, ps_lent := ps_lent s @ [c]\<rparr>)"
| "pool_step env s (GiveBack i) =
     (case remove_at i (ps_lent s) of
        None \<Rightarrow> s
      | Some (c, cs) \<Rightarrow> s\<lparr>ps_pool := (ps_pool s)\<lparr>pl_idle := pl_idle (ps_pool s) @ [c]\<rparr>, ps_lent := cs\<rparr>)"
| "pool_step env s (Discard i) =
     (case remove_at i (ps_lent s) of None \<Rightarrow> s | Some (c, cs) \<Rightarrow> s\<lparr>ps_lent := cs\<rparr>)"

section \<open>Lemmas\<close>

definition configured :: "connection \<Rightarrow> bool" where
  "configured c \<longleftrightarrow>
     cn_settings c ''foreign_keys'' = Some ''ON'' \<and> cn_settings c ''journal_mode'' = Some ''WAL'' \<and>
     cn_settings c ''synchronous'' = Some ''NORMAL'' \<and> cn_busy_timeout c = 5"

lemma pool_init_configured: "pool_init env c = Inr c' \<Longrightarrow> configured c'"
  by (auto simp: pool_init_def bind_result_Inr pragma_update_def busy_timeout_def configured_def split: option.splits)

lemma open_connection_manager: "open_connection env path = bind_result (sq_open env path) (pool_init env)"
  by (simp add: open_connection_def pool_init_def [abs_def])

lemma open_connection_configured: "open_connection env path = Inr c \<Longrightarrow> configured c"
  by (auto simp: open_connection_manager bind_result_Inr dest: pool_init_configured)

interpretation pooled: total_system "pool_step env"
    "\<lambda>s. list_all configured (pl_idle (ps_pool s)) \<and> list_all configured (ps_lent s)"
  for env :: sqlite_env
proof (unfold_locales, goal_cases)
  case (1 s e)
  show ?case
  proof (cases e)
    case Grow
    with 1 show ?thesis
      by (auto simp: manager_connect_def bind_result_Inr split: sum.split dest: pool_init_configured)
  next
    case Take
    with 1 show ?thesis by (auto split: list.split)
  next
    case (GiveBack i)
    with 1 show ?thesis by (auto simp: list_all_iff split: option.split dest: remove_at_Some(5))
  next
    case (Discard i)
    with 1 show ?thesis by (auto simp: list_all_iff split: option.split dest: remove_at_Some(5))
  qed
qed


lemma insert_or_ignore_ids: "at_api_key_id ` set (insert_or_ignore a rows) = insert (at_api_key_id a) (at_api_key_id ` set rows)"
  by (auto simp: insert_or_ignore_def set_insort_key)

lemma insert_or_ignore_distinct:
  assumes "distinct (map at_api_key_id rows)"
  shows "distinct (map at_api_key_id (insert_or_ignore a rows))"
proof (cases "at_api_key_id a \<in> at_api_key_id ` set rows")
  case False
  have "mset (map at_api_key_id (insort_key at_api_key_id a rows)) = mset (at_api_key_id a # map at_api_key_id rows)"
    by simp
  with False assms show ?thesis
    by (metis (no_types, lifting) distinct.simps(2) insert_or_ignore_def list.set_map mset_eq_imp_distinct_iff)
qed (use assms in \<open>simp add: insert_or_ignore_def\<close>)

lemma backfill_rows:
  assumes "distinct (map kr_id ks)"
  shows "set (fold (insert_or_ignore \<circ> attribution_of) ks rows) =
      set rows \<union> attribution_of ` {k \<in> set ks. kr_id k \<notin> at_api_key_id ` set rows}"
    and "at_api_key_id ` set (fold (insert_or_ignore \<circ> attribution_of) ks rows) = at_api_key_id ` set rows \<union> kr_id ` set ks"
proof -
  show "set (fold (insert_or_ignore \<circ> attribution_of) ks rows) =
      set rows \<union> attribution_of ` {k \<in> set ks. kr_id k \<notin> at_api_key_id ` set rows}"
    using assms
  proof (induction ks arbitrary: rows)
    case (Cons k ks)
    let ?rows = "insert_or_ignore (attribution_of k) rows"
    have ids: "at_api_key_id ` set ?rows = insert (kr_id k) (at_api_key_id ` set rows)"
      by (simp add: insert_or_ignore_ids) (simp add: attribution_of_def)
    have rows: "set ?rows = set rows \<union> attribution_of ` {j \<in> {k}. kr_id j \<notin> at_api_key_id ` set rows}"
      by (auto simp: insert_or_ignore_def set_insort_key) (auto simp: attribution_of_def)
    have "{j \<in> set (k # ks). kr_id j \<notin> at_api_key_id ` set rows} =
        {j \<in> {k}. kr_id j \<notin> at_api_key_id ` set rows} \<union> {j \<in> set ks. kr_id j \<notin> at_api_key_id ` set ?rows}"
      using Cons.prems by (auto simp: ids) (metis imageI)
    with Cons.IH [of ?rows] Cons.prems show ?case by (simp only: fold_simps o_apply distinct.simps list.map rows) auto
  qed simp
  show "at_api_key_id ` set (fold (insert_or_ignore \<circ> attribution_of) ks rows) = at_api_key_id ` set rows \<union> kr_id ` set ks"
    by (induction ks arbitrary: rows) (auto simp: insert_or_ignore_ids attribution_of_def)
qed

lemma backfill_distinct:
  "distinct (map at_api_key_id rows) \<Longrightarrow> distinct (map at_api_key_id (fold (insert_or_ignore \<circ> attribution_of) ks rows))"
  by (induction ks arbitrary: rows) (simp_all add: insert_or_ignore_distinct)

lemma backfill_idle:
  "kr_id ` set ks \<subseteq> at_api_key_id ` set rows \<Longrightarrow> fold (insert_or_ignore \<circ> attribution_of) ks rows = rows"
  by (induction ks) (auto simp: insert_or_ignore_def attribution_of_def)

lemma create_tables_None:
  "create_tables env i names tables = (None, tables') \<Longrightarrow>
     set tables' = set tables \<union> set names \<and> create_tables env i names tables' = (None, tables')"
proof (induction names arbitrary: i tables)
  case (Cons name names)
  then have ok: "sq_statement env i = None"
    "create_tables env (Suc i) names (create_table_if_not_exists name tables) = (None, tables')"
    by (simp_all split: option.split_asm)
  from Cons.IH [OF ok(2)] have "set tables' = set tables \<union> set (name # names)"
    "create_tables env (Suc i) names tables' = (None, tables')"
    by (auto simp: create_table_if_not_exists_def)
  with ok(1) show ?case by (simp add: create_table_if_not_exists_def)
qed simp


lemma backfill_inv:
  assumes "db_inv db"
  shows "\<exists>db'. backfill fk db = Inr db' \<and> db_inv db' \<and> backfill fk db' = Inr db' \<and>
    db_users db' = db_users db \<and> db_user_seq db' = db_user_seq db \<and> db_keys db' = db_keys db \<and> db_key_seq db' = db_key_seq db \<and>
    set (db_attribution db') =
      set (db_attribution db) \<union> attribution_of ` {k \<in> set (db_keys db). kr_id k \<notin> at_api_key_id ` set (db_attribution db)}"
proof -
  let ?rows = "fold (insert_or_ignore \<circ> attribution_of) (db_keys db) (db_attribution db)" and ?db = "db\<lparr>db_attribution :=
    fold (insert_or_ignore \<circ> attribution_of) (db_keys db) (db_attribution db)\<rparr>"
  from assms have keys: "distinct (map kr_id (db_keys db))" and attribution: "distinct (map at_api_key_id (db_attribution db))"
    and owners: "\<forall>k \<in> set (db_keys db). kr_id k \<le> db_key_seq db \<and> kr_user_id k \<in> us_id ` set (db_users db)"
    unfolding db_inv_def by blast+
  have owned: "\<not> (\<exists>k \<in> set (filter P (db_keys db)). kr_user_id k \<notin> us_id ` set (db_users db))" for P
    using owners by auto
  have step: "backfill fk db = Inr ?db"
    by (simp only: backfill_def Let_def owned simp_thms if_False)
  have "at_api_key_id a \<le> db_key_seq db \<and> at_user_id a \<in> us_id ` set (db_users db)" if "a \<in> set ?rows" for a
    using that assms owners unfolding backfill_rows(1) [OF keys] db_inv_def by (auto simp: attribution_of_def)
  with assms backfill_distinct [OF attribution, of "db_keys db"] have inv: "db_inv ?db"
    unfolding db_inv_def by (simp del: o_apply)
  have "fold (insert_or_ignore \<circ> attribution_of) (db_keys db) ?rows = ?rows"
    by (rule backfill_idle) (simp add: backfill_rows(2) [OF keys] del: o_apply)
  then have "backfill fk ?db = Inr ?db"
    using owned by (simp add: backfill_def Let_def del: o_apply)
  with step inv backfill_rows(1) [OF keys, of "db_attribution db"] show ?thesis by (simp del: o_apply)
qed

section \<open>Properties\<close>

text \<open>
  C18: Opening a database migrates it and is safe to repeat. A successful open leaves every table of the schema in place,
  keeps all users, keys and recorded usage, and gives exactly the keys that had none an attribution row for their owner, so
  that a database from before attribution existed keeps its usage attributable; the identity tables stay consistent and
  opening the file again changes nothing. A failed open loses no row.
\<close>

theorem database_open_migrates:
  assumes "db_inv (df_identity f)"
  shows "case database_open env path f of
      (Inl _, f') \<Rightarrow> df_identity f' = df_identity f \<and> df_usage f' = df_usage f
    | (Inr h, f') \<Rightarrow>
        set schema_tables \<subseteq> set (df_tables f') \<and> set (df_tables f) \<subseteq> set (df_tables f') \<and>
        df_usage f' = df_usage f \<and> db_inv (df_identity f') \<and>
        db_users (df_identity f') = db_users (df_identity f) \<and> db_keys (df_identity f') = db_keys (df_identity f) \<and>
        set (db_attribution (df_identity f')) =
          set (db_attribution (df_identity f)) \<union>
          attribution_of ` {k \<in> set (db_keys (df_identity f)). kr_id k \<notin> at_api_key_id ` set (db_attribution (df_identity f))} \<and>
        database_open env path f' = (Inr h, f')"
proof (cases "open_connection env path")
  case (Inr conn)
  let ?fk = "cn_settings conn ''foreign_keys'' = Some ''ON''"
  from backfill_inv [OF assms, of ?fk] obtain db where db: "backfill ?fk (df_identity f) = Inr db" "db_inv db" "backfill ?fk db = Inr db"
    "db_users db = db_users (df_identity f)" "db_keys db = db_keys (df_identity f)"
    "set (db_attribution db) = set (db_attribution (df_identity f)) \<union>
       attribution_of ` {k \<in> set (db_keys (df_identity f)). kr_id k \<notin> at_api_key_id ` set (db_attribution (df_identity f))}"
    by auto
  obtain e tables where t: "create_tables env 0 schema_tables (df_tables f) = (e, tables)" by fastforce
  show ?thesis
  proof (cases "e = None \<and> sq_statement env (length schema_tables) = None")
    case True
    with t have tables: "create_tables env 0 schema_tables (df_tables f) = (None, tables)" by simp
    note once = create_tables_None [OF tables]
    with True tables Inr db show ?thesis by (simp add: database_open_def execute_schema_def)
  next
    case False
    with t Inr show ?thesis by (auto simp: database_open_def execute_schema_def split: option.splits)
  qed
qed (simp add: database_open_def)

definition sample_sqlite :: sqlite_env where
  "sample_sqlite =
     \<lparr>sq_open = (\<lambda>p. Inr \<lparr>cn_path = p, cn_settings = Map.empty, cn_busy_timeout = 0\<rparr>), sq_pragma = (\<lambda>_ _ _. None),
      sq_busy_timeout = (\<lambda>_ _. None), sq_statement = (\<lambda>_. None)\<rparr>"

definition old_file :: db_file where
  "old_file =
     \<lparr>df_tables = [''users'', ''api_keys''],
      df_identity = db_empty\<lparr>db_users := [\<lparr>us_id = 1, us_username = ''ann'', us_password_hash = [], us_is_admin = True, us_created_ts = 0\<rparr>],
        db_user_seq := 1, db_key_seq := 2,
        db_keys := [\<lparr>kr_id = 2, kr_user_id = 1, kr_name = None, kr_key_hash = ''h'', kr_prefix = ''twl_'', kr_created_ts = 0\<rparr>]\<rparr>,
      df_usage = usage_empty\<rparr>"

theorem database_open_migrates_witness:
  "\<exists>h f'. database_open sample_sqlite ''twl.db'' old_file = (Inr h, f') \<and> at_user_id ` set (db_attribution (df_identity f')) = {1} \<and>
     database_open sample_sqlite ''twl.db'' f' = (Inr h, f')"
proof -
  have inv: "db_inv (df_identity old_file)" by (simp add: old_file_def db_inv_def db_empty_def)
  obtain h f' where r: "database_open sample_sqlite ''twl.db'' old_file = (Inr h, f')"
    by (simp add: database_open_def execute_schema_def open_connection_def pragma_update_def busy_timeout_def sample_sqlite_def
          old_file_def schema_tables_def create_table_if_not_exists_def backfill_def db_empty_def)
  show ?thesis using database_open_migrates [OF inv, of sample_sqlite "''twl.db''"]
    by (simp add: r) (simp add: old_file_def db_empty_def attribution_of_def)
qed

text \<open>
  All connections are alike. Whatever the pool does and whichever calls fail, every connection a store works with,
  opened directly or lent by the pool, enforces foreign keys and has the same journal mode, durability and waiting time:
  the deletion of a user cascades on each of them. The pool makes its connections exactly as a direct open does.
\<close>

theorem connections_uniform:
  "(case database_open env path f of
      (Inl _, _) \<Rightarrow> True
    | (Inr db, _) \<Rightarrow>
        (case identity_store_new env db of
           Inl _ \<Rightarrow> True
         | Inr st \<Rightarrow> configured (is_read st) \<and> configured (is_write st)) \<and>
        (case usage_store_new db of
           Inl _ \<Rightarrow> False
         | Inr st \<Rightarrow>
             map_err from_sqlite (manager_connect env (ust_pool st)) = connect env db \<and>
             list_all configured (ps_lent (foldl (pool_step env) \<lparr>ps_pool = ust_pool st, ps_lent = []\<rparr> events))))"
proof -
  have "list_all configured (ps_lent (foldl (pool_step env) \<lparr>ps_pool = \<lparr>pl_path = path, pl_idle = []\<rparr>, ps_lent = []\<rparr> events))"
    using pooled.fold_inv [of "\<lparr>ps_pool = \<lparr>pl_path = path, pl_idle = []\<rparr>, ps_lent = []\<rparr>" env events] by simp
  moreover have "case identity_store_new env db of Inl _ \<Rightarrow> True | Inr st \<Rightarrow> configured (is_read st) \<and> configured (is_write st)" for db
    by (auto simp: identity_store_new_def connect_def bind_result_Inr dest: open_connection_configured split: sum.split)
  moreover have "manager_connect env \<lparr>pl_path = path, pl_idle = []\<rparr> = open_connection env path"
    by (simp add: manager_connect_def open_connection_manager)
  ultimately show ?thesis
    by (auto simp: database_open_def connect_def usage_store_new_def pool_of_def split: sum.splits prod.splits)
qed

end
