(* ===== verification/Serve.thy ===== *)
theory Serve
  imports Tls Database
begin

text \<open>
  Serving (\<open>build_app\<close>, \<open>run\<close>, \<open>run_with_listener\<close>, \<open>build_client\<close> and the settings of \<open>build_router\<close> in
  \<open>crates/twl-server/src/server.rs\<close>, and \<open>crates/twl/src/main.rs\<close>): from the command line to a server that accepts
  connections. The stores are opened on the database file, the certificate on the file system; name resolution, sockets and
  the serving loop are parameters that may fail. A run says what was served, if anything, and how it ended.
\<close>

section \<open>Settings\<close>

definition CLIENT_IO_TIMEOUT :: nat where
  "CLIENT_IO_TIMEOUT = 300"

record client_settings =
  cs_follow_redirects :: bool
  cs_connect_timeout :: nat
  cs_read_timeout :: nat
  cs_pool_idle_timeout :: nat

definition build_client :: client_settings where
  "build_client =
     \<lparr>cs_follow_redirects = False, cs_connect_timeout = 10, cs_read_timeout = 300, cs_pool_idle_timeout = 90\<rparr>"

datatype same_site = SameSiteStrict | SameSiteLax | SameSiteNone

record session_cookie =
  sc_name :: string
  sc_http_only :: bool
  sc_same_site :: same_site
  sc_secure :: bool
  sc_inactivity :: nat

definition session_layer :: "bool \<Rightarrow> session_cookie" where
  "session_layer secure =
     \<lparr>sc_name = ''twl_session'', sc_http_only = True, sc_same_site = SameSiteStrict, sc_secure = secure,
      sc_inactivity = 7 * 86400\<rparr>"

section \<open>The application\<close>

text \<open>
  The layers around the routes, the innermost first. Every response passes through them; the session layer adds the
  cookies it decides on, which are a parameter, and the idle timeouts of bodies change no header.
\<close>

datatype layer = BodyTimeouts nat | SecurityHeaders | SessionLayer session_cookie | HstsHeader

record app =
  ap_routes :: "route_entry list"
  ap_management_limit :: nat
  ap_layers :: "layer list"

definition with_layer :: "layer \<Rightarrow> app \<Rightarrow> app" where
  "with_layer l a = a\<lparr>ap_layers := ap_layers a @ [l]\<rparr>"

definition with_client_body_timeouts :: "nat \<Rightarrow> app \<Rightarrow> app" where
  "with_client_body_timeouts timeout a = with_layer (BodyTimeouts timeout) a"

definition router_app :: "'ip app_state \<Rightarrow> bool \<Rightarrow> app" where
  "router_app st secure =
     (let routes = \<lparr>ap_routes = build_router (as_public_usage st), ap_management_limit = as_max_concurrency st, ap_layers = []\<rparr>
      in with_layer (SessionLayer (session_layer secure))
           (with_layer SecurityHeaders (with_client_body_timeouts CLIENT_IO_TIMEOUT routes)))"

fun through_layer :: "string list \<Rightarrow> layer \<Rightarrow> response \<Rightarrow> response" where
  "through_layer cookies (BodyTimeouts _) r = r"
| "through_layer cookies SecurityHeaders r = security_headers r"
| "through_layer cookies (SessionLayer _) r = r\<lparr>r_headers := r_headers r @ map (Pair ''set-cookie'') cookies\<rparr>"
| "through_layer cookies HstsHeader r = hsts_header r"

definition respond :: "app \<Rightarrow> string list \<Rightarrow> response \<Rightarrow> response" where
  "respond a cookies r = fold (through_layer cookies) (ap_layers a) r"

record background =
  bg_watched :: "(nat \<times> 64 word) list"
  bg_pruner :: "(int option \<times> db_error option \<times> db_error option \<times> db_error option \<Rightarrow> usage_db \<Rightarrow> usage_db) option"
  bg_purge_interval :: int

definition build_app ::
    "start_env \<Rightarrow> 'ip config \<Rightarrow> bool \<Rightarrow> startup_panic + (server_err + 'ip app_state \<times> app \<times> background)" where
  "build_app env config secure =
     bind_result (build_state env config) (\<lambda>r.
       Inr (bind_result r (\<lambda>st.
         Inr (st, router_app st secure,
              \<lparr>bg_watched = watched (as_registry st), bg_pruner = spawn_pruner (cfg_retention_days config),
               bg_purge_interval = SESSION_PURGE_INTERVAL\<rparr>))))"

section \<open>Serving\<close>

text \<open>The stores of startup, opened on the file at the configured path.\<close>

definition with_database :: "sqlite_env \<Rightarrow> string \<Rightarrow> db_file \<Rightarrow> start_env \<Rightarrow> start_env" where
  "with_database sq path f env =
     (case database_open sq path f of
        (Inl e, f') \<Rightarrow> env\<lparr>st_open := Some e, st_identity_store := Inl e, st_usage_store := Inl e\<rparr>
      | (Inr db, f') \<Rightarrow>
          env\<lparr>st_open := None,
              st_identity_store := bind_result (identity_store_new sq db) (\<lambda>_. Inr (df_identity f')),
              st_usage_store := bind_result (usage_store_new db) (\<lambda>_. Inr (df_usage f'))\<rparr>)"

record ('ip, 'tls) serve_env =
  sv_start :: start_env
  sv_sqlite :: sqlite_env
  sv_tls :: "('ip, 'tls) tls_io"
  sv_to_socket_addrs :: "string \<Rightarrow> string + string list"
  sv_bind :: "string \<Rightarrow> string option"
  sv_local_addr :: bool
  sv_into_std :: "string option"
  sv_from_tcp :: "string option"
  sv_serve :: "string option"

datatype 'tls transport = Https string 'tls | Http string

record ('ip, 'tls) serving =
  sg_transport :: "'tls transport"
  sg_state :: "'ip app_state"
  sg_app :: app
  sg_background :: background
  sg_header_read_timeout :: "nat option"

definition configure_header_read_timeout :: "nat \<Rightarrow> ('ip, 'tls) serving \<Rightarrow> ('ip, 'tls) serving" where
  "configure_header_read_timeout timeout server = server\<lparr>sg_header_read_timeout := Some timeout\<rparr>"

datatype serve_panic = StartPanic startup_panic | LocalAddr

record ('ip, 'tls) outcome =
  oc_served :: "('ip, 'tls) serving option"
  oc_result :: "serve_panic + (server_err + unit)"
  oc_files :: file_system

definition ended :: "file_system \<Rightarrow> server_err \<Rightarrow> ('ip, 'tls) outcome" where
  "ended fs e = \<lparr>oc_served = None, oc_result = Inr (Inl e), oc_files = fs\<rparr>"

definition panicked :: "file_system \<Rightarrow> serve_panic \<Rightarrow> ('ip, 'tls) outcome" where
  "panicked fs p = \<lparr>oc_served = None, oc_result = Inl p, oc_files = fs\<rparr>"

definition serve ::
    "('ip, 'tls) serve_env \<Rightarrow> file_system \<Rightarrow> 'tls transport \<Rightarrow> 'ip app_state \<Rightarrow> app \<Rightarrow> background \<Rightarrow> ('ip, 'tls) outcome" where
  "serve env fs transport st a bg =
     \<lparr>oc_served = Some (configure_header_read_timeout CLIENT_IO_TIMEOUT
        \<lparr>sg_transport = transport, sg_state = st, sg_app = a, sg_background = bg, sg_header_read_timeout = None\<rparr>),
      oc_result = (case sv_serve env of Some e \<Rightarrow> Inr (Inl (ServeFailure e)) | None \<Rightarrow> Inr (Inr ())), oc_files = fs\<rparr>"

definition run_with_listener ::
    "('ip, 'tls) serve_env \<Rightarrow> db_file \<Rightarrow> file_system \<Rightarrow> 'ip config \<Rightarrow> ('ip, 'tls) outcome" where
  "run_with_listener env f fs config =
     (case build_app (with_database (sv_sqlite env) (cfg_db_path config) f (sv_start env)) config False of
        Inl p \<Rightarrow> panicked fs (StartPanic p)
      | Inr (Inl e) \<Rightarrow> ended fs e
      | Inr (Inr (st, a, bg)) \<Rightarrow>
          if \<not> sv_local_addr env then panicked fs LocalAddr
          else (case sv_into_std env of
                  Some e \<Rightarrow> ended fs (ServeFailure e)
                | None \<Rightarrow>
                    (case sv_from_tcp env of
                       Some e \<Rightarrow> ended fs (ServeFailure e)
                     | None \<Rightarrow> serve env fs (Http (cfg_bind config)) st a bg)))"

text \<open>With TLS the listener is bound by the server itself, so that its failure is a failure to serve.\<close>

definition run_tls ::
    "('ip, 'tls) serve_env \<Rightarrow> db_file \<Rightarrow> file_system \<Rightarrow> 'ip config \<Rightarrow> ('ip, 'tls) outcome" where
  "run_tls env f fs config =
     (case sv_to_socket_addrs env (cfg_bind config) of
        Inl e \<Rightarrow> ended fs (BindFailure (cfg_bind config) e)
      | Inr [] \<Rightarrow> ended fs (BindFailure (cfg_bind config) ''no address resolved'')
      | Inr (addr # _) \<Rightarrow>
          (case load_or_generate (sv_tls env) (cfg_tls config) fs of
             (Inl e, fs') \<Rightarrow> ended fs' e
           | (Inr tls, fs') \<Rightarrow>
               (case build_app (with_database (sv_sqlite env) (cfg_db_path config) f (sv_start env)) config True of
                  Inl p \<Rightarrow> panicked fs' (StartPanic p)
                | Inr (Inl e) \<Rightarrow> ended fs' e
                | Inr (Inr (st, a, bg)) \<Rightarrow>
                    (case sv_bind env addr of
                       Some e \<Rightarrow> ended fs' (ServeFailure e)
                     | None \<Rightarrow> serve env fs' (Https addr tls) st (with_layer HstsHeader a) bg))))"

definition run :: "('ip, 'tls) serve_env \<Rightarrow> db_file \<Rightarrow> file_system \<Rightarrow> 'ip config \<Rightarrow> ('ip, 'tls) outcome" where
  "run env f fs config =
     (if tls_enabled (cfg_tls config) then run_tls env f fs config
      else (case sv_bind env (cfg_bind config) of
              Some e \<Rightarrow> ended fs (BindFailure (cfg_bind config) e)
            | None \<Rightarrow> run_with_listener env f fs config))"

section \<open>Entry point\<close>

fun show_server_err :: "server_err \<Rightarrow> string" where
  "show_server_err (BindFailure address e) = ''failed to bind '' @ address @ '': '' @ e"
| "show_server_err (ServeFailure e) = ''server error: '' @ e"
| "show_server_err (Tls e) = ''tls error: '' @ e"
| "show_server_err (DatabaseOpen path e) = ''failed to open sqlite db '' @ path @ '': '' @ e"
| "show_server_err (General m) = m"

text \<open>The exit status with the message on standard error; a panic ends the process with status 101.\<close>

definition main ::
    "('ip, 'tls) serve_env \<Rightarrow> 'ip config_io \<Rightarrow> cli \<Rightarrow> db_file \<Rightarrow> file_system \<Rightarrow> (nat \<times> string) \<times> ('ip, 'tls) outcome option" where
  "main env io cli f fs =
     (case resolve io cli of
        Inl e \<Rightarrow> ((1, show_config_error e), None)
      | Inr config \<Rightarrow>
          (let out = run env f fs config
           in (case oc_result out of
                 Inl _ \<Rightarrow> (101, [])
               | Inr (Inl e) \<Rightarrow> (1, show_server_err e)
               | Inr (Inr _) \<Rightarrow> (0, []), Some out)))"

text \<open>
  \<open>init_tracing\<close>: the filter of the log, which is all it decides. \<open>rust_log\<close> is the environment variable, \<open>parse\<close> is
  that of \<open>tracing_subscriber\<close>.
\<close>

definition init_tracing :: "(string \<Rightarrow> 'f option) \<Rightarrow> 'f \<Rightarrow> string option \<Rightarrow> 'f" where
  "init_tracing parse info rust_log = unwrap_or (Option.bind rust_log parse) info"

section \<open>Lemmas\<close>

lemma with_database_rows:
  assumes "db_inv (df_identity f)" "st_identity_store (with_database sq path f env) = Inr db"
  shows "db_inv db \<and> db_users db = db_users (df_identity f) \<and> projr (st_usage_store (with_database sq path f env)) = df_usage f"
proof -
  from assms(2) obtain h f' where o: "database_open sq path f = (Inr h, f')" "db = df_identity f'"
    by (auto simp: with_database_def bind_result_Inr split: prod.split_asm sum.split_asm)
  from o(1) obtain fk where "backfill fk (df_identity f) = Inr (df_identity f')" "df_usage f' = df_usage f"
    by (auto simp: database_open_def execute_schema_def split: sum.split_asm prod.split_asm option.split_asm)
  with backfill_inv [OF assms(1), of fk] o show ?thesis by (simp add: with_database_def usage_store_new_def)
qed

lemma state_sound_users: "db_users db = db_users db' \<Longrightarrow> state_sound config db st = state_sound config db' st"
  by (simp add: state_sound_def)

lemma build_app_sound:
  assumes "32 \<le> ci_max_permits io" "resolve io cli = Inr config" "length (cfg_backends config) \<le> 2 ^ 32" "db_inv (df_identity f)"
  shows "case build_app (with_database sq (cfg_db_path config) f env) config secure of
      Inl _ \<Rightarrow> False
    | Inr (Inl _) \<Rightarrow> True
    | Inr (Inr (st, a, bg)) \<Rightarrow>
        state_sound config (df_identity f) st \<and> as_usage st = df_usage f \<and> as_public_usage st = cfg_public_usage config \<and>
        a = router_app st secure"
proof -
  let ?env = "with_database sq (cfg_db_path config) f env"
  note rows = with_database_rows [OF assms(4), of sq "cfg_db_path config" env]
  have "\<forall>db. st_identity_store ?env = Inr db \<longrightarrow> db_inv db" using rows by simp
  note sound = build_state_sound [OF assms(1-3) this]
  have "case build_state ?env config of
      Inl _ \<Rightarrow> False
    | Inr (Inl _) \<Rightarrow> True
    | Inr (Inr st) \<Rightarrow>
        state_sound config (df_identity f) st \<and> as_usage st = df_usage f \<and> as_public_usage st = cfg_public_usage config"
  proof (cases "st_identity_store ?env")
    case (Inr db)
    with sound rows [OF Inr] state_sound_users [of db "df_identity f" config] show ?thesis by (auto split: sum.split_asm)
  qed (use sound in \<open>auto split: sum.split_asm\<close>)
  then show ?thesis by (simp add: build_app_def split: sum.split_asm)
qed

lemma security_headers_kept:
  "header_get ''x-frame-options'' (r_headers (security_headers r) @ cs) \<noteq> None"
  "header_get ''x-content-type-options'' (r_headers (security_headers r) @ cs) \<noteq> None"
  "header_get ''referrer-policy'' (r_headers (security_headers r) @ cs) \<noteq> None"
  using security_headers_present [of r] by (simp_all add: header_get_def map_add_def)


lemma respond_router:
  "respond (router_app st secure) cookies r = through_layer cookies (SessionLayer (session_layer secure)) (security_headers r)"
  "respond (with_layer HstsHeader (router_app st secure)) cookies r =
     hsts_header (through_layer cookies (SessionLayer (session_layer secure)) (security_headers r))"
  by (simp_all add: respond_def router_app_def with_layer_def with_client_body_timeouts_def)

text \<open>What is promised of an application that is served, with TLS or without.\<close>

definition hardened :: "bool \<Rightarrow> app \<Rightarrow> bool" where
  "hardened tls a \<longleftrightarrow>
     (\<forall>c. SessionLayer c \<in> set (ap_layers a) \<longrightarrow> sc_http_only c \<and> sc_same_site c = SameSiteStrict \<and> sc_secure c = tls) \<and>
     (\<exists>c. SessionLayer c \<in> set (ap_layers a)) \<and>
     (\<forall>cookies r. let h = r_headers (respond a cookies r) in
        header_get ''x-frame-options'' h \<noteq> None \<and> header_get ''x-content-type-options'' h \<noteq> None \<and>
        header_get ''referrer-policy'' h \<noteq> None \<and> (tls \<longrightarrow> header_get ''strict-transport-security'' h \<noteq> None))"

lemma hardened_http: "hardened False (router_app st False)"
  using security_headers_kept
  by (simp add: hardened_def respond_router Let_def) (simp add: router_app_def with_layer_def with_client_body_timeouts_def session_layer_def)

lemma hsts_present: "header_get ''strict-transport-security'' (r_headers (hsts_header r)) \<noteq> None"
  by (simp add: hsts_header_def header_get_entry)

lemma hsts_keeps: "n \<noteq> ''strict-transport-security'' \<Longrightarrow> header_get n (r_headers (hsts_header r)) = header_get n (r_headers r)"
  by (simp add: hsts_header_def header_get_entry)

lemma hardened_https: "hardened True (with_layer HstsHeader (router_app st True))"
  using security_headers_kept hsts_present
  by (simp add: hardened_def respond_router Let_def hsts_keeps) (auto simp: router_app_def with_layer_def with_client_body_timeouts_def session_layer_def)

lemma state_sound_admins:
  assumes "state_sound config db st" "db_users db = [] \<or> admins db \<noteq> []"
  shows "admins (as_identity st) \<noteq> []"
proof (cases "db_users db = []")
  case True
  with assms(1) show ?thesis by (auto simp: state_sound_def admins_def)
next
  case False
  with assms(1) have "map (\<lambda>u. u\<lparr>us_password_hash := []\<rparr>) (db_users (as_identity st)) = map (\<lambda>u. u\<lparr>us_password_hash := []\<rparr>) (db_users db)"
    by (simp add: state_sound_def)
  then have "map us_is_admin (db_users (as_identity st)) = map us_is_admin (db_users db)"
    by (drule_tac arg_cong [where f = "map us_is_admin"]) (simp add: comp_def)
  then have "us_is_admin ` set (db_users (as_identity st)) = us_is_admin ` set (db_users db)" by (metis list.set_map)
  with assms(2) False show ?thesis by (force simp: admins_def filter_empty_conv)
qed

text \<open>What is served, if anything, and how the run ends.\<close>

definition served_ok :: "'ip config \<Rightarrow> db_file \<Rightarrow> ('ip, 'tls) outcome \<Rightarrow> bool" where
  "served_ok config f out \<longleftrightarrow>
     (\<forall>p. oc_result out \<noteq> Inl (StartPanic p)) \<and>
     (case oc_served out of
        None \<Rightarrow> oc_result out \<noteq> Inr (Inr ())
      | Some sg \<Rightarrow>
          state_sound config (df_identity f) (sg_state sg) \<and> as_usage (sg_state sg) = df_usage f \<and>
          (case sg_transport sg of
             Https _ _ \<Rightarrow> tls_enabled (cfg_tls config)
           | Http addr \<Rightarrow> \<not> tls_enabled (cfg_tls config) \<and> addr = cfg_bind config) \<and>
          ap_routes (sg_app sg) = build_router (cfg_public_usage config) \<and>
          hardened (tls_enabled (cfg_tls config)) (sg_app sg))"

lemma served_ok_ended [simp]: "served_ok config f (ended fs e)"
  by (simp add: served_ok_def ended_def)

lemma served_ok_local_addr [simp]: "served_ok config f (panicked fs LocalAddr)"
  by (simp add: served_ok_def panicked_def)

lemma served_ok_serve:
  "served_ok config f (serve env fs t st a bg) \<longleftrightarrow>
     state_sound config (df_identity f) st \<and> as_usage st = df_usage f \<and>
     (case t of Https _ _ \<Rightarrow> tls_enabled (cfg_tls config) | Http addr \<Rightarrow> \<not> tls_enabled (cfg_tls config) \<and> addr = cfg_bind config) \<and>
     ap_routes a = build_router (cfg_public_usage config) \<and> hardened (tls_enabled (cfg_tls config)) a"
  by (auto simp: served_ok_def serve_def configure_header_read_timeout_def split: option.split)

lemma app_routes [simp]:
  "ap_routes (router_app st secure) = build_router (as_public_usage st)"
  "ap_routes (with_layer l a) = ap_routes a"
  by (simp_all add: router_app_def with_layer_def with_client_body_timeouts_def)

lemma run_served_ok:
  assumes "32 \<le> ci_max_permits io" "resolve io cli = Inr config" "length (cfg_backends config) \<le> 2 ^ 32" "db_inv (df_identity f)"
  shows "served_ok config f (run env f fs config)"
proof (cases "tls_enabled (cfg_tls config)")
  case True
  with build_app_sound [OF assms, where sq = "sv_sqlite env" and env = "sv_start env" and secure = True] hardened_https show ?thesis
    by (auto simp: run_def run_tls_def served_ok_serve split: sum.split list.split prod.split option.split)
next
  case False
  with build_app_sound [OF assms, where sq = "sv_sqlite env" and env = "sv_start env" and secure = False] hardened_http show ?thesis
    by (auto simp: run_def run_with_listener_def served_ok_serve split: sum.split option.split)
qed

section \<open>Properties\<close>


definition sample_serve :: "(nat, string \<times> string) serve_env" where
  "sample_serve =
     \<lparr>sv_start = sample_start, sv_sqlite = sample_sqlite, sv_tls = sample_tls, sv_to_socket_addrs = (\<lambda>a. Inr [a]),
      sv_bind = (\<lambda>_. None), sv_local_addr = True, sv_into_std = None, sv_from_tcp = None, sv_serve = None\<rparr>"

lemma sample_config:
  obtains config where "resolve sample_io sample_cli = Inr config" "length (cfg_backends config) = 1"
    "cfg_dashboard_auth config = None" "\<not> tls_enabled (cfg_tls config)"
proof -
  obtain config where r: "resolve sample_io sample_cli = Inr config" using sample_resolves ..
  then obtain days up gpu where "assemble sample_io sample_cli None days [flat_backend up gpu] up gpu True = Inr config"
    by (auto simp: resolve_def sample_layer bind_result_Inr)
  then have "length (cfg_backends config) = 1" "cfg_dashboard_auth config = None" "\<not> tls_enabled (cfg_tls config)"
    by (auto simp: assemble_def bind_result_Inr resolve_dashboard_auth_def sample_io_def resolve_tls_def resolve_tls_enabled_def
          sample_cli_def Let_def split: if_split_asm)
  with r that show ?thesis by blast
qed

lemma sample_opens:
  "\<exists>f'. database_open sample_sqlite path old_file = (Inr \<lparr>dh_path = path, dh_pool = \<lparr>pl_path = path, pl_idle = []\<rparr>\<rparr>, f') \<and>
     db_user_seq (df_identity f') = 1"
  by (simp add: database_open_def execute_schema_def open_connection_def pragma_update_def busy_timeout_def sample_sqlite_def
        old_file_def schema_tables_def create_table_if_not_exists_def backfill_def db_empty_def)

lemma sample_unobstructed:
  assumes "cfg_dashboard_auth config = None"
  shows "\<not> startup_obstacle (with_database sample_sqlite path old_file sample_start) config"
proof -
  obtain f' where f': "database_open sample_sqlite path old_file = (Inr \<lparr>dh_path = path, dh_pool = \<lparr>pl_path = path, pl_idle = []\<rparr>\<rparr>, f')"
    "db_user_seq (df_identity f') = 1" using sample_opens by blast
  have "identity_store_new sample_sqlite h \<noteq> Inl e" for h e
    by (simp add: identity_store_new_def connect_def open_connection_def pragma_update_def busy_timeout_def sample_sqlite_def)
  then obtain st where "identity_store_new sample_sqlite \<lparr>dh_path = path, dh_pool = \<lparr>pl_path = path, pl_idle = []\<rparr>\<rparr> = Inr st"
    by (metis sum.exhaust)
  with f' assms show ?thesis
    by (simp add: startup_obstacle_def with_database_def usage_store_new_def sample_start_def i64_max_def)
qed


end
