(* ===== verification/Fairness.thy ===== *)
theory Fairness
  imports FairQueue
begin

text \<open>
  Runs of the admission queue (\<open>crates/twl-server/src/fair_queue.rs\<close>) with fairness enabled: sequence numbers follow the
  arrivals, and while a request waits its user is not overtaken. The theory adds to FairQueue what holds across events.
\<close>

section \<open>Arrival\<close>

text \<open>
  Sequence numbers are given in order of arrival, as long as they do not wrap around, so that the queue, which grows at its
  end, stays sorted by them.
\<close>

definition in_sequence :: "fq_inner \<Rightarrow> bool" where
  "in_sequence inner \<longleftrightarrow> sorted_wrt (<) (map w_sequence (waiters inner) @ [next_sequence inner])"

text \<open>The waiter is the oldest of its user.\<close>

definition oldest :: "waiter \<Rightarrow> fq_inner \<Rightarrow> bool" where
  "oldest w inner \<longleftrightarrow>
     w \<in> set (waiters inner) \<and>
     (\<forall>v \<in> set (waiters inner). w_user v = w_user w \<longrightarrow> w_sequence w \<le> w_sequence v)"

text \<open>The waiter is in the queue during a whole run.\<close>

fun waits_through :: "fair_queue \<Rightarrow> waiter \<Rightarrow> fq_event list \<Rightarrow> fq_world \<Rightarrow> bool" where
  "waits_through q w [] s \<longleftrightarrow> w \<in> set (waiters (fqw_inner s))"
| "waits_through q w (e # es) s \<longleftrightarrow>
     w \<in> set (waiters (fqw_inner s)) \<and>
     (case fq_exec q e s of Some (Inr t) \<Rightarrow> waits_through q w es t | _ \<Rightarrow> False)"

lemma usage_prune: "usage_of (prune inner now window) v \<le> usage_of inner v"
  by (auto simp: prune_def usage_of_def Let_def length_dropWhile_le split: option.splits)

lemma usage_push: "usage_of (push_grant inner u now) v = usage_of inner v + (if v = u then 1 else 0)"
  by (auto simp: push_grant_def usage_of_def split: option.split)

lemma usage_deliver:
  assumes "fq_enabled q"
  shows "usage_of (fst (deliver q now w inner)) v = usage_of inner v + (if w_open w \<and> v = w_user w then 1 else 0)"
proof -
  have "usage_of (inner\<lparr>in_flight := n\<rparr>) v = usage_of inner v" for n v by (simp add: usage_of_def)
  with assms show ?thesis by (simp add: deliver_def Let_def usage_push)
qed

lemma in_sequence_without:
  assumes "in_sequence inner" "i < length (waiters inner)" "waiters inner' = take i (waiters inner) @ drop (Suc i) (waiters inner)"
    "next_sequence inner' = next_sequence inner"
  shows "in_sequence inner'" "w_sequence v = w_sequence (waiters inner ! i) \<Longrightarrow> v \<notin> set (waiters inner')"
proof -
  have "map w_sequence (waiters inner) =
      map w_sequence (take i (waiters inner)) @ w_sequence (waiters inner ! i) # map w_sequence (drop (Suc i) (waiters inner))"
    using arg_cong [OF id_take_nth_drop [OF assms(2)], of "map w_sequence"] by simp
  with assms(1) have sw: "sorted_wrt (<) (map w_sequence (take i (waiters inner)) @ w_sequence (waiters inner ! i) #
      map w_sequence (drop (Suc i) (waiters inner)) @ [next_sequence inner])"
    by (simp add: in_sequence_def)
  then show "in_sequence inner'" by (auto simp: in_sequence_def assms(3,4) sorted_wrt_append)
  from sw show "v \<notin> set (waiters inner')" if "w_sequence v = w_sequence (waiters inner ! i)"
    using that by (auto simp: assms(3) sorted_wrt_append)
qed

lemma select_waiter_in_sequence:
  assumes "select_waiter q now inner = Some (w, inner')" "in_sequence inner"
  shows "in_sequence inner'" "w_sequence v = w_sequence w \<Longrightarrow> v \<notin> set (waiters inner')"
  using select_waiter_SomeD [OF assms(1)] in_sequence_without [OF assms(2)] by metis+

text \<open>
  One turn of the loop that leaves the oldest waiter of a user in the queue: that user is not served, and whoever is was
  not ahead of it.
\<close>

definition not_overtaken :: "waiter \<Rightarrow> fq_inner \<Rightarrow> fq_inner \<Rightarrow> bool" where
  "not_overtaken w inner inner' \<longleftrightarrow>
     (\<forall>v. usage_of inner' v \<le> max (usage_of inner v) (usage_of inner (w_user w) + 1)) \<and>
     usage_of inner' (w_user w) \<le> usage_of inner (w_user w) \<and> oldest w inner'"

lemma not_overtaken_trans:
  assumes "not_overtaken w a b" "not_overtaken w b c"
  shows "not_overtaken w a c"
proof -
  from assms have "usage_of b (w_user w) \<le> usage_of a (w_user w)"
    "usage_of b v \<le> max (usage_of a v) (usage_of a (w_user w) + 1)"
    "usage_of c v \<le> max (usage_of b v) (usage_of b (w_user w) + 1)" for v by (auto simp: not_overtaken_def)
  then have "usage_of c v \<le> max (usage_of a v) (usage_of a (w_user w) + 1)" for v
    by (meson add_le_mono1 max.boundedI max.cobounded2 order_trans)
  with assms show ?thesis by (auto simp: not_overtaken_def intro: le_trans)
qed

lemma turn_not_overtaken:
  assumes "fq_enabled q" "select_waiter q now inner = Some (x, inner1)" "in_sequence inner" "oldest w inner"
    and "w \<in> set (waiters inner1)"
  shows "not_overtaken w inner (fst (deliver q now x inner1))"
proof -
  let ?u = "w_user w" and ?p = "prune inner now (fq_window q)"
  from assms(1,2) have "grants inner1 = grants ?p"
    by (auto simp: select_waiter_def Let_def split: option.splits)
  then have usage1: "usage_of inner1 v = usage_of ?p v" for v by (simp add: usage_of_def)
  note set = select_waiter_set(1) [OF assms(2)]
  from select_waiter_enabled [OF assms(1,2), of w] assms(5) set
  have key: "usage_of ?p (w_user x) < usage_of ?p ?u \<or> usage_of ?p (w_user x) = usage_of ?p ?u \<and> w_sequence x \<le> w_sequence w"
    by (auto simp: less_eq_prod_def)
  have other: "w_user x \<noteq> ?u"
  proof
    assume eq: "w_user x = ?u"
    with key have "w_sequence x \<le> w_sequence w" by simp
    moreover from eq assms(4) set have "w_sequence w \<le> w_sequence x" by (auto simp: oldest_def)
    ultimately have "w_sequence w = w_sequence x" by simp
    with select_waiter_in_sequence(2) [OF assms(2,3)] assms(5) show False by blast
  qed
  have final: "usage_of (fst (deliver q now x inner1)) v = usage_of ?p v + (if w_open x \<and> v = w_user x then 1 else 0)" for v
    using usage_deliver [OF assms(1)] by (simp add: usage1)
  have "usage_of (fst (deliver q now x inner1)) v \<le> max (usage_of inner v) (usage_of inner ?u + 1)" for v
    using final [of v] key usage_prune [of inner now "fq_window q" v] usage_prune [of inner now "fq_window q" ?u]
    by (auto simp: max_def split: if_splits)
  moreover have "usage_of (fst (deliver q now x inner1)) ?u \<le> usage_of inner ?u"
    using final [of ?u] other usage_prune [of inner now "fq_window q" ?u] by auto
  moreover have "oldest w (fst (deliver q now x inner1))"
    using assms(4,5) set by (auto simp: oldest_def deliver_fields)
  ultimately show ?thesis by (simp add: not_overtaken_def)
qed

lemma admit_waiters_subset: "set (waiters (fst (admit_waiters q clk k inner))) \<subseteq> set (waiters inner)"
  by (rule admit_waiters_rule [where clk = clk and P = "\<lambda>inner r. set (waiters (fst r)) \<subseteq> set (waiters inner)"])
     (auto simp: deliver_fields dest: select_waiter_set(1))

lemma admit_not_overtaken:
  assumes "fq_enabled q" "in_sequence inner" "oldest w inner" "w \<in> set (waiters (fst (admit_waiters q clk k inner)))"
  shows "not_overtaken w inner (fst (admit_waiters q clk k inner))"
  using assms(2-)
proof (induction "length (waiters inner)" arbitrary: k inner rule: less_induct)
  case less
  show ?case
  proof (cases "in_flight inner < fq_capacity q \<and> waiters inner \<noteq> []")
    case True
    then obtain x inner1 where sel: "select_waiter q (clk k) inner = Some (x, inner1)" using select_waiter_Some by blast
    let ?next = "fst (deliver q (clk k) x inner1)"
    have run: "fst (admit_waiters q clk k inner) = fst (admit_waiters q clk (Suc k) ?next)"
      using True by (simp add: admit_waiters_turn [where clk = clk and k = k, OF _ sel])
    from less.prems(3) admit_waiters_subset [of q clk "Suc k" ?next] have "w \<in> set (waiters inner1)"
      by (auto simp: run deliver_fields)
    note turn = turn_not_overtaken [OF assms(1) sel less.prems(1,2) this]
    have "length (waiters ?next) < length (waiters inner)"
      using select_waiter_length [OF sel] by (simp add: deliver_fields)
    moreover have "in_sequence ?next"
      using select_waiter_in_sequence(1) [OF sel less.prems(1)] by (simp add: in_sequence_def deliver_fields)
    ultimately have "not_overtaken w ?next (fst (admit_waiters q clk (Suc k) ?next))"
      using less.hyps [of ?next "Suc k"] turn less.prems(3) by (simp add: not_overtaken_def run)
    with turn show ?thesis unfolding run by (rule not_overtaken_trans)
  next
    case False
    with less.prems show ?thesis by (simp add: admit_waiters_stop not_overtaken_def)
  qed
qed

lemma admit_in_sequence:
  assumes "in_sequence inner"
  shows "in_sequence (fst (admit_waiters q clk k inner))"
    "next_sequence (fst (admit_waiters q clk k inner)) = next_sequence inner"
proof -
  let ?P = "\<lambda>inner r. in_sequence inner \<longrightarrow> in_sequence (fst r) \<and> next_sequence (fst r) = next_sequence inner"
  have "?P inner (admit_waiters q clk k inner)"
  proof (rule admit_waiters_rule [where clk = clk and P = ?P], goal_cases stop turn)
    case (turn k inner w inner1 r)
    have "in_sequence (fst (deliver q (clk k) w inner1))" if "in_sequence inner"
      using select_waiter_in_sequence(1) [OF turn(2) that] by (simp add: in_sequence_def deliver_fields)
    moreover have "next_sequence inner1 = next_sequence inner" using turn(2) by (rule select_waiter_SomeD)
    ultimately show ?case using turn(3) by (simp add: deliver_fields)
  qed simp
  with assms show "in_sequence (fst (admit_waiters q clk k inner))"
    "next_sequence (fst (admit_waiters q clk k inner)) = next_sequence inner" by simp_all
qed

lemma release_in_sequence:
  assumes "in_sequence inner" "release q clk inner = Inr r"
  shows "in_sequence (fst r)" "next_sequence (fst r) = next_sequence inner"
proof -
  let ?start = "inner\<lparr>in_flight := in_flight inner - 1\<rparr>"
  from assms(2) have r: "r = admit_waiters q clk 0 ?start" by (simp add: release_def split: if_splits)
  have "in_sequence ?start" using assms(1) by (simp add: in_sequence_def)
  from admit_in_sequence [OF this] show "in_sequence (fst r)" "next_sequence (fst r) = next_sequence inner" by (simp_all add: r)
qed

lemma release_not_overtaken:
  assumes "fq_enabled q" "in_sequence inner" "oldest w inner" "release q clk inner = Inr r" "w \<in> set (waiters (fst r))"
  shows "not_overtaken w inner (fst r)"
proof -
  let ?start = "inner\<lparr>in_flight := in_flight inner - 1\<rparr>"
  from assms(4) have r: "r = admit_waiters q clk 0 ?start" by (simp add: release_def split: if_splits)
  have "in_sequence ?start" "oldest w ?start" using assms(2,3) by (simp_all add: in_sequence_def oldest_def)
  from admit_not_overtaken [OF assms(1) this] assms(5) have "not_overtaken w ?start (fst r)" by (simp add: r)
  then show ?thesis by (simp add: not_overtaken_def usage_of_def)
qed

lemma close_waiter_keys: "map (\<lambda>w. (w_user w, w_sequence w)) (close_waiter seq ws) = map (\<lambda>w. (w_user w, w_sequence w)) ws"
  by (induction ws) auto

lemma close_waiter_sequences: "map w_sequence (close_waiter seq ws) = map w_sequence ws"
  using arg_cong [OF close_waiter_keys [of seq ws], of "map snd"] by (simp add: comp_def)

lemma close_waiter_kept:
  assumes "oldest w inner" "w \<in> set (close_waiter seq (waiters inner))"
  shows "not_overtaken w inner (inner\<lparr>waiters := close_waiter seq (waiters inner)\<rparr>)"
proof -
  have "\<exists>v' \<in> set (waiters inner). w_user v = w_user v' \<and> w_sequence v = w_sequence v'"
    if "v \<in> set (close_waiter seq (waiters inner))" for v
    using that arg_cong [OF close_waiter_keys [of seq "waiters inner"], of set] by force
  with assms show ?thesis by (auto simp: not_overtaken_def oldest_def usage_of_def) metis
qed

lemma registration_drop_cases:
  obtains "registration_drop armed inner = inner"
  | i where "i < length (waiters inner)" "registration_drop armed inner =
      inner\<lparr>waiters := take i (waiters inner) @ drop (Suc i) (waiters inner)\<rparr>"
proof (cases "registration_drop armed inner = inner")
  case False
  then obtain i w ws where "remove_at i (waiters inner) = Some (w, ws)" "registration_drop armed inner = inner\<lparr>waiters := ws\<rparr>"
    by (auto simp: registration_drop_def split: option.split_asm)
  with remove_at_Some(1,3) [OF this(1)] that(2) show ?thesis by simp
qed (rule that(1))

lemma registration_drop_kept:
  assumes "oldest w inner" "w \<in> set (waiters (registration_drop armed inner))"
  shows "not_overtaken w inner (registration_drop armed inner)"
  by (cases rule: registration_drop_cases [of armed inner])
     (use assms in \<open>auto simp: not_overtaken_def usage_of_def oldest_def dest: in_set_takeD in_set_dropD\<close>)

text \<open>The cases of an event: a slot is granted at once, a waiter joins, the loop runs, a receiver or a registration goes away, or the queue is as before.\<close>

lemma fq_exec_inner:
  assumes "fq_exec q e s = Some (Inr t)"
  obtains (granted) "waiters (fqw_inner s) = []" "waiters (fqw_inner t) = []" "next_sequence (fqw_inner t) = next_sequence (fqw_inner s)"
  | (joins) user where "fqw_inner t = (fqw_inner s)\<lparr>next_sequence := next_sequence (fqw_inner s) + 1,
      waiters := waiters (fqw_inner s) @ [\<lparr>w_user = user, w_sequence = next_sequence (fqw_inner s), w_open = True\<rparr>]\<rparr>"
  | (loop) clk r where "release q clk (fqw_inner s) = Inr r" "fqw_inner t = fst r"
  | (closes) seq where "fqw_inner t = (fqw_inner s)\<lparr>waiters := close_waiter seq (waiters (fqw_inner s))\<rparr>"
  | (leaves) seq where "fqw_inner t = registration_drop (Some seq) (fqw_inner s)"
  | (same) "fqw_inner t = fqw_inner s"
proof (cases e)
  case (Acquire user now)
  with assms joins [of user] granted show ?thesis by (auto simp: acquire_enter_def Let_def split: if_split_asm)
next
  case (Receive seq)
  with assms(1) same show ?thesis by (auto split: if_split_asm)
next
  case (DropGuard clk)
  with assms(1) loop [of clk] show ?thesis by (auto simp: Let_def put_released_def split: if_split_asm sum.split_asm)
next
  case (DropReceiver seq clk)
  with assms(1) loop [of clk] closes [of seq] show ?thesis
    by (auto simp: Let_def put_released_def split: if_split_asm sum.split_asm)
next
  case (DropRegistration seq)
  with assms(1) leaves [of seq] show ?thesis by (auto split: if_split_asm)
qed

lemma bump_sequence:
  assumes "Suc (unat n) < 2 ^ 64"
  shows "(n :: 64 word) < n + 1" "unat (n + 1) = Suc (unat n)"
  using assms by (auto simp: word_less_nat_alt unat_word_ariths)

lemma event_in_sequence:
  assumes "in_sequence (fqw_inner s)" "Suc (unat (next_sequence (fqw_inner s))) < 2 ^ 64" "fq_exec q e s = Some (Inr t)"
  shows "in_sequence (fqw_inner t) \<and> unat (next_sequence (fqw_inner t)) \<le> Suc (unat (next_sequence (fqw_inner s)))"
  using assms(3)
proof (cases rule: fq_exec_inner)
  case granted
  then show ?thesis by (simp add: in_sequence_def)
next
  case (joins user)
  have "\<forall>v \<in> set (waiters (fqw_inner s)). w_sequence v < next_sequence (fqw_inner s)"
    using assms(1) by (simp add: in_sequence_def sorted_wrt_append)
  with bump_sequence [OF assms(2)] assms(1) show ?thesis
    by (auto simp: joins in_sequence_def sorted_wrt_append intro: less_trans)
next
  case (loop clk r)
  with release_in_sequence [OF assms(1) loop(1)] show ?thesis by simp
next
  case (closes seq)
  with assms(1) show ?thesis by (simp add: in_sequence_def close_waiter_sequences)
next
  case (leaves seq)
  with in_sequence_without(1) [OF assms(1)] assms(1) show ?thesis
    by (cases rule: registration_drop_cases [of "Some seq" "fqw_inner s"]) simp_all
next
  case same
  with assms(1) show ?thesis by simp
qed

lemma event_not_overtaken:
  assumes "fq_enabled q" "in_sequence (fqw_inner s)" "oldest w (fqw_inner s)"
    and "fq_exec q e s = Some (Inr t)" "w \<in> set (waiters (fqw_inner t))"
  shows "not_overtaken w (fqw_inner s) (fqw_inner t)"
proof -
  from assms(4) show ?thesis
  proof (cases rule: fq_exec_inner)
    case granted
    with assms(3) show ?thesis by (simp add: oldest_def)
  next
    case (joins user)
    have "\<forall>v \<in> set (waiters (fqw_inner s)). w_sequence v < next_sequence (fqw_inner s)"
      using assms(2) by (simp add: in_sequence_def sorted_wrt_append)
    with assms(3) show ?thesis by (auto simp: not_overtaken_def usage_of_def oldest_def joins intro: order_less_imp_le)
  next
    case (loop clk r)
    with release_not_overtaken [OF assms(1-3) loop(1)] assms(5) show ?thesis by simp
  next
    case (closes seq)
    with close_waiter_kept [OF assms(3)] assms(5) show ?thesis by simp
  next
    case (leaves seq)
    with registration_drop_kept [OF assms(3), of "Some seq"] assms(5) show ?thesis by simp
  next
    case same
    with assms(3) show ?thesis by (simp add: not_overtaken_def)
  qed
qed

lemma waits_through_start: "waits_through q w es s \<Longrightarrow> w \<in> set (waiters (fqw_inner s))"
  by (cases es) auto

lemma run_in_sequence:
  assumes "in_sequence (fqw_inner s)" "unat (next_sequence (fqw_inner s)) + length es < 2 ^ 64"
    and "run_events (fq_exec q) es s = Some (Inr t)"
  shows "in_sequence (fqw_inner t) \<and> unat (next_sequence (fqw_inner t)) \<le> unat (next_sequence (fqw_inner s)) + length es"
  using assms
proof (induction es arbitrary: s)
  case (Cons e es)
  then obtain u where u: "fq_exec q e s = Some (Inr u)" "run_events (fq_exec q) es u = Some (Inr t)"
    by (auto simp del: fq_exec.simps split: option.split_asm sum.split_asm)
  from event_in_sequence [OF Cons.prems(1) _ u(1)] Cons.prems(2) Cons.IH [OF _ _ u(2)] show ?case by fastforce
qed simp

lemma run_not_overtaken:
  assumes "fq_enabled q" "in_sequence (fqw_inner s)" "oldest w (fqw_inner s)"
    and "unat (next_sequence (fqw_inner s)) + length es < 2 ^ 64"
    and "run_events (fq_exec q) es s = Some (Inr t)" "waits_through q w es s"
  shows "not_overtaken w (fqw_inner s) (fqw_inner t)"
  using assms(2-)
proof (induction es arbitrary: s)
  case Nil
  then show ?case by (simp add: not_overtaken_def)
next
  case (Cons e es)
  then obtain u where u: "fq_exec q e s = Some (Inr u)" "run_events (fq_exec q) es u = Some (Inr t)" "waits_through q w es u"
    by (auto simp del: fq_exec.simps split: option.split_asm sum.split_asm)
  note step = event_not_overtaken [OF assms(1) Cons.prems(1,2) u(1) waits_through_start [OF u(3)]]
  from event_in_sequence [OF Cons.prems(1) _ u(1)] Cons.prems(3)
  have "in_sequence (fqw_inner u)" "unat (next_sequence (fqw_inner u)) + length es < 2 ^ 64" by simp_all
  with step have "not_overtaken w (fqw_inner u) (fqw_inner t)"
    by (intro Cons.IH [OF _ _ _ u(2,3)]) (auto simp: not_overtaken_def)
  with step show ?case by (rule not_overtaken_trans)
qed

section \<open>Properties\<close>

text \<open>
  C7: Nobody is overtaken while waiting. Start a queue with fairness enabled, let it run, and take the oldest request of some
  user that waits. However many requests of others arrive, are granted, cancelled or finished while it waits, and however grants
  expire, its user is not passed by more than one admission: nobody's admissions in the window rise above the user's own
  plus one, unless they were above before, in which case they do not rise at all. (Sequence numbers have 64 bits; the runs
  have fewer events.)
\<close>

theorem fq_no_overtaking:
  assumes "fq_enabled q" "fq_new (fq_capacity q) (fq_enabled q) (fq_window q) = Inr (q, inner)"
    and "run_events (fq_exec q) before \<lparr>fqw_inner = inner, fqw_held = 0, fqw_channel = [], fqw_cancelled = []\<rparr> = Some (Inr s)"
    and "oldest w (fqw_inner s)" "length before + length during < 2 ^ 64"
    and "run_events (fq_exec q) during s = Some (Inr t)" "waits_through q w during s"
  shows "usage_of (fqw_inner t) v \<le> max (usage_of (fqw_inner s) v) (usage_of (fqw_inner s) (w_user w) + 1) \<and>
    usage_of (fqw_inner t) (w_user w) \<le> usage_of (fqw_inner s) (w_user w)"
proof -
  let ?s = "\<lparr>fqw_inner = inner, fqw_held = 0, fqw_channel = [], fqw_cancelled = []\<rparr>"
  from assms(2) have "in_sequence inner" "next_sequence inner = 0"
    by (auto simp: fq_new_def in_sequence_def split: if_split_asm)
  with run_in_sequence [of ?s before q s] assms(3,5)
  have "in_sequence (fqw_inner s)" "unat (next_sequence (fqw_inner s)) + length during < 2 ^ 64" by simp_all
  from run_not_overtaken [OF assms(1) this(1) assms(4) this(2) assms(6,7)] show ?thesis by (simp add: not_overtaken_def)
qed

text \<open>Three users and one slot: the third waits while the second is served.\<close>

definition fq_demo_queued :: fq_world where
  "fq_demo_queued = fq_demo_busy\<lparr>fqw_inner := (fqw_inner fq_demo_busy)\<lparr>next_sequence := 2, waiters :=
     [\<lparr>w_user = Some 2, w_sequence = 0, w_open = True\<rparr>, \<lparr>w_user = Some 3, w_sequence = 1, w_open = True\<rparr>]\<rparr>\<rparr>"

definition fq_demo_handed :: fq_inner where
  "fq_demo_handed = (fqw_inner fq_demo_queued)
     \<lparr>grants := [Some 1 \<mapsto> [5], Some 2 \<mapsto> [8]], waiters := [\<lparr>w_user = Some 3, w_sequence = 1, w_open = True\<rparr>]\<rparr>"

lemma fq_demo_choice:
  "select_waiter fq_demo 8 ((fqw_inner fq_demo_queued)\<lparr>in_flight := 0\<rparr>) =
     Some (\<lparr>w_user = Some 2, w_sequence = 0, w_open = True\<rparr>,
           fq_demo_handed\<lparr>in_flight := 0, grants := [Some 1 \<mapsto> [5]]\<rparr>)"
  by (simp add: select_waiter_def fq_demo_def fq_demo_queued_def fq_demo_busy_def fq_demo_handed_def prune_def usage_of_def
      instant_checked_sub_def instant_min_def i64_min_def fun_eq_iff Let_def)

lemma fq_demo_served:
  "fq_exec fq_demo (DropGuard (\<lambda>_. 8)) fq_demo_queued =
     Some (Inr (fq_demo_queued\<lparr>fqw_inner := fq_demo_handed, fqw_held := 0, fqw_channel := [0]\<rparr>))"
proof -
  let ?i = "(fqw_inner fq_demo_queued)\<lparr>in_flight := 0\<rparr>"
  have i: "in_flight ?i < fq_capacity fq_demo" "in_flight (fqw_inner fq_demo_queued) = 1" "fqw_held fq_demo_queued = 1"
    "fqw_channel fq_demo_queued = []"
    by (simp_all add: fq_demo_def fq_demo_queued_def fq_demo_busy_def)
  have d: "deliver fq_demo 8 \<lparr>w_user = Some 2, w_sequence = 0, w_open = True\<rparr>
      (fq_demo_handed\<lparr>in_flight := 0, grants := [Some 1 \<mapsto> [5]]\<rparr>) = (fq_demo_handed, True)"
    by (simp add: deliver_def fq_demo_def fq_demo_handed_def push_grant_def fq_demo_queued_def fq_demo_busy_def Let_def)
  have "admit_waiters fq_demo (\<lambda>_. 8) (Suc 0) fq_demo_handed = (fq_demo_handed, [])"
    by (rule admit_waiters_stop) (simp add: fq_demo_def fq_demo_handed_def fq_demo_queued_def fq_demo_busy_def)
  with admit_waiters_turn [where clk = "\<lambda>_. 8" and k = 0, OF i(1) fq_demo_choice] d
  have "admit_waiters fq_demo (\<lambda>_. 8) 0 ?i = (fq_demo_handed, [0])" by simp
  with i show ?thesis by (simp add: release_def put_released_def Let_def)
qed

lemma fq_demo_start_queued:
  "run_events (fq_exec fq_demo) [Acquire (Some 1) 5, Acquire (Some 2) 6, Acquire (Some 3) 7]
     \<lparr>fqw_inner = fqw_inner fq_demo_start, fqw_held = 0, fqw_channel = [], fqw_cancelled = []\<rparr> = Some (Inr fq_demo_queued)"
  by (simp add: acquire_enter_def fq_demo_start_def fq_demo_def fq_demo_busy_def fq_demo_queued_def record_grant_def push_grant_def
        prune_def instant_checked_sub_def instant_min_def i64_min_def)

theorem fq_no_overtaking_witness:
  "usage_of fq_demo_handed (Some 2) \<le> max (usage_of (fqw_inner fq_demo_queued) (Some 2)) 1"
proof -
  let ?w = "\<lparr>w_user = Some 3, w_sequence = 1, w_open = True\<rparr>"
  have new: "fq_new (fq_capacity fq_demo) (fq_enabled fq_demo) (fq_window fq_demo) = Inr (fq_demo, fqw_inner fq_demo_start)"
    by (simp add: fq_new_def fq_demo_def fq_demo_start_def)
  have old: "oldest ?w (fqw_inner fq_demo_queued)" by (simp add: oldest_def fq_demo_queued_def)
  have usage: "usage_of (fqw_inner fq_demo_queued) (Some 3) = 0"
    by (simp add: usage_of_def fq_demo_queued_def fq_demo_busy_def)
  have run: "run_events (fq_exec fq_demo) [DropGuard (\<lambda>_. 8)] fq_demo_queued =
      Some (Inr (fq_demo_queued\<lparr>fqw_inner := fq_demo_handed, fqw_held := 0, fqw_channel := [0]\<rparr>))"
    by (simp add: fq_demo_served del: fq_exec.simps)
  have waits: "waits_through fq_demo ?w [DropGuard (\<lambda>_. 8)] fq_demo_queued"
    by (simp add: fq_demo_served del: fq_exec.simps) (simp add: fq_demo_queued_def fq_demo_handed_def)
  have "fq_enabled fq_demo" by (simp add: fq_demo_def)
  from fq_no_overtaking [OF this new fq_demo_start_queued old _ run waits, of "Some 2"] usage show ?thesis by simp
qed

end
