(* ===== verification/Running.thy ===== *)
theory Running
  imports Accounting Serve Fairness
begin

text \<open>
  The server while it serves: the requests of the proxy handler (\<open>proxy/mod.rs\<close>, \<open>proxy/stream.rs\<close>), each of which the
  client may abandon while it waits, meet the shared state that startup built: the admission queue (\<open>fair_queue.rs\<close>), the
  registry with its load counters (\<open>twl-backends/src/lib.rs\<close>), the meters of its backends (\<open>energy.rs\<close>), the accounting
  writer (\<open>sink.rs\<close>) and the usage store. One step function composes the operations of these components; the effects a run
  shows are related to the interleavings of what the handlers do.
\<close>

section \<open>Abandoned requests\<close>

text \<open>
  When the client goes away the server drops the future of the handler at the \<open>await\<close> where it is suspended: after the slot
  was granted, while the body is read, or after a request was sent, while the upstream has not answered. The locals that are
  alive there are dropped in the reverse order of their declaration. Before the slot is granted the handler has had no effect.
\<close>

fun suspended_drops :: "effect \<Rightarrow> effect list option" where
  "suspended_drops (AcquireSlot u) = Some [ReleaseSlot]"
| "suspended_drops (SendTo i uq) = Some [LeaveMeter i, LeaveLoad i, ReleaseSlot]"
| "suspended_drops _ = None"

definition suspensions :: "effect list \<Rightarrow> nat" where
  "suspensions es = length (filter (\<lambda>e. suspended_drops e \<noteq> None) es)"

fun abandon :: "nat \<Rightarrow> effect list \<Rightarrow> effect list" where
  "abandon n [] = []"
| "abandon n (e # es) =
     (case suspended_drops e of
        None \<Rightarrow> e # abandon n es
      | Some drops \<Rightarrow> (case n of 0 \<Rightarrow> e # drops | Suc m \<Rightarrow> e # abandon m es))"

text \<open>
  How a request ends: its client reads the body up to some polls, or it goes away at one of the suspensions of the handler.
  A handler that returns before that suspension has its response dropped unread.
\<close>

datatype 'e ending = Polled "('e + string) option list" | Abandoned nat

definition ended_trace :: "proxy_env \<Rightarrow> proxy_request \<Rightarrow> registry \<Rightarrow> 'e ending \<Rightarrow> effect list" where
  "ended_trace env req reg ending =
     (case ending of
        Polled answers \<Rightarrow> request_trace env req reg answers
      | Abandoned n \<Rightarrow>
          (case proxy_handler env req reg of
             (es, _) \<Rightarrow>
               if n < suspensions es then abandon n es
               else request_trace env req reg ([] :: ('e + string) option list)))"

lemma suspensions_simps [simp]:
  "suspensions [] = 0"
  "suspensions (e # es) = (if suspended_drops e = None then suspensions es else Suc (suspensions es))"
  "suspensions (xs @ ys) = suspensions xs + suspensions ys"
  by (simp_all add: suspensions_def)

lemma abandon_append: "n < suspensions xs \<Longrightarrow> abandon n (xs @ ys) = abandon n xs"
  by (induction n xs rule: abandon.induct) (auto split: option.splits nat.splits if_splits)

lemma abandon_tail: "suspensions xs \<le> n \<Longrightarrow> abandon n (xs @ ys) = xs @ abandon (n - suspensions xs) ys"
  by (induction n xs rule: abandon.induct) (auto split: option.splits nat.splits if_splits)

text \<open>Abandoned among its attempts a request has made some of them, the last one cut short, and gives the slot back.\<close>

lemma failed_block_abandoned: "abandon 0 (failed_block p @ es) = attempt (fst p, [SendTo (fst p) (snd p)]) @ [ReleaseSlot]"
  by (simp add: failed_block_def attempt_def)

lemma failed_block_suspensions [simp]: "suspensions (failed_block p) = 1"
  by (simp add: failed_block_def)

lemma failed_abandoned:
  "n < length failed \<Longrightarrow> \<exists>mid. abandon n (concat (map failed_block failed) @ tail) = mid @ [ReleaseSlot] \<and> attempts mid"
proof (induction failed arbitrary: n)
  case (Cons p failed)
  show ?case
  proof (cases n)
    case 0
    then show ?thesis
      using attempts_one [of "[SendTo (fst p) (snd p)]" "fst p"] by (auto simp: failed_block_abandoned attempt_def)
  next
    case (Suc m)
    with Cons obtain mid where "abandon m (concat (map failed_block failed) @ tail) = mid @ [ReleaseSlot]" "attempts mid" by auto
    with Suc attempts_append [OF attempts_failed [of "[p]"], of mid] show ?thesis
      by (simp add: abandon_tail [of "failed_block p" "Suc m"])
  qed
qed simp

lemma last_attempt_abandoned:
  assumes "last_attempt hc cs tail r" "n < suspensions tail"
  shows "\<exists>mid. abandon n tail = mid @ [ReleaseSlot] \<and> attempts mid"
proof -
  from assms obtain i uq es where "tail = EnterLoad i # EnterMeter i # SendTo i uq # es" "n = 0"
    unfolding last_attempt_def by (elim disjE) (auto simp: failed_block_def)
  then show ?thesis using attempts_one [of "[SendTo i uq]" i] by auto
qed

lemma suspensions_failed [simp]: "suspensions (concat (map failed_block failed)) = length failed"
  by (induction failed) simp_all

lemma try_abandoned:
  assumes "try_candidates hc bs req kc out cs = (es, r)" "n < suspensions es"
  shows "\<exists>mid. abandon n es = mid @ [ReleaseSlot] \<and> attempts mid"
proof -
  from try_shape [OF assms(1)] obtain failed tail where sh: "es = concat (map failed_block failed) @ tail"
    "last_attempt hc cs tail r" by blast
  show ?thesis
  proof (cases "n < length failed")
    case True
    then show ?thesis unfolding sh(1) by (rule failed_abandoned)
  next
    case False
    with sh assms(2) have "n - length failed < suspensions tail" by simp
    from last_attempt_abandoned [OF sh(2) this] obtain mid where
      "abandon (n - length failed) tail = mid @ [ReleaseSlot]" "attempts mid" by auto
    with False attempts_append [OF attempts_failed [of failed]] show ?thesis
      by (simp add: sh(1) abandon_tail)
  qed
qed

lemma admitted_abandoned:
  assumes "proxy_admitted env req reg info kc = (es, reg', out)" "n < suspensions es"
  shows "\<exists>mid. abandon n es = mid @ [ReleaseSlot] \<and> attempts mid"
proof (cases rule: proxy_admitted_cases [of env req reg info kc])
  case (early reg1 r)
  with assms(1) have "es = [ReleaseSlot]" by simp
  with assms(2) show ?thesis by simp
next
  case (routed rq out_body cs reg1)
  obtain es0 r where t: "try_candidates (pe_http env) (reg_backends reg1) req kc out_body cs = (es0, r)" by fastforce
  with routed(2) assms(1) have "\<exists>tail. es = es0 @ tail \<and> suspensions tail = 0"
    by (auto simp: finished_def split: sum.split_asm option.split_asm prod.split_asm)
  with assms(2) try_abandoned [OF t] show ?thesis by (auto simp: abandon_append)
qed

lemma handler_admits:
  assumes "proxy_handler env req reg = (es, reg', out)"
  shows "es = [] \<or> (\<exists>u info kc es'. es = AcquireSlot u # es' \<and> proxy_admitted env req reg info kc = (es', reg', out))"
  using assms by (auto simp: proxy_handler_def split: client_key_result.split_asm if_split_asm prod.split_asm)

lemma handler_abandoned:
  assumes "proxy_handler env req reg = (es, reg', out)" "n < suspensions es"
  shows "\<exists>u mid. abandon n es = AcquireSlot u # mid @ [ReleaseSlot] \<and> attempts mid"
proof -
  from assms handler_admits [OF assms(1)] obtain u info kc es' where
    adm: "es = AcquireSlot u # es'" "proxy_admitted env req reg info kc = (es', reg', out)" by auto
  show ?thesis
  proof (cases n)
    case 0
    then show ?thesis using adm(1) by (intro exI [of _ u] exI [of _ "[]"]) simp
  next
    case (Suc m)
    with adm(1) assms(2) admitted_abandoned [OF adm(2), of m] show ?thesis by auto
  qed
qed

lemma ended_trace_cases:
  "ended_trace env req reg ending = [] \<or>
   (\<exists>u mid. ended_trace env req reg ending = AcquireSlot u # mid @ [ReleaseSlot] \<and> attempts mid)"
proof -
  obtain es reg' out where h: "proxy_handler env req reg = (es, reg', out)" by (metis prod_cases3)
  show ?thesis
    using proxy_admission_cases [of env req reg] handler_abandoned [OF h]
    by (cases ending) (auto simp: ended_trace_def h)
qed

text \<open>The backends a request enters.\<close>

definition entered :: "effect list \<Rightarrow> nat set" where
  "entered es = {i. EnterLoad i \<in> set es \<or> EnterMeter i \<in> set es}"

lemma entered_simps [simp]:
  "entered [] = {}"
  "entered (e # es) = (case e of EnterLoad i \<Rightarrow> {i} | EnterMeter i \<Rightarrow> {i} | _ \<Rightarrow> {}) \<union> entered es"
  "entered (xs @ ys) = entered xs \<union> entered ys"
  by (auto simp: entered_def split: effect.split)

lemma entered_recorder_drop [simp]: "entered (recorder_drop ctx i u) = {}"
  by (simp add: recorder_drop_def split: option.split)

lemma entered_abandon: "entered (abandon n es) \<subseteq> entered es"
proof (induction n es rule: abandon.induct)
  case (2 n e es)
  then show ?case by (cases e; cases n) auto
qed simp

lemma try_entered: "try_candidates hc bs req kc out cs = (es, r) \<Longrightarrow> entered es \<subseteq> set cs"
  by (induction cs arbitrary: es r) (auto simp: Let_def split: if_splits option.splits sum.splits prod.splits)

lemma admitted_entered:
  assumes "reg_inv reg" "score_sort (pe_sort_scores env)" "proxy_admitted env req reg info kc = (es, reg', out)"
  shows "entered es \<subseteq> {..<length (reg_backends reg)}"
proof (cases rule: proxy_admitted_cases [of env req reg info kc])
  case (early reg1 r)
  with assms(3) have "es = [ReleaseSlot]" by simp
  then show ?thesis by simp
next
  case (routed rq out_body cs reg1)
  obtain es0 r where t: "try_candidates (pe_http env) (reg_backends reg1) req kc out_body cs = (es0, r)" by fastforce
  with routed(2) assms(3) have "entered es = entered es0"
    by (auto simp: finished_def split: sum.split_asm option.split_asm prod.split_asm)
  with try_entered [OF t] routed_candidates [OF assms(1,2) routed(1)] show ?thesis by auto
qed

lemma ended_trace_entered:
  fixes ending :: "'e ending"
  assumes "reg_inv reg" "score_sort (pe_sort_scores env)"
  shows "entered (ended_trace env req reg ending) \<subseteq> {..<length (reg_backends reg)}"
proof -
  obtain es reg' out where h: "proxy_handler env req reg = (es, reg', out)" by (metis prod_cases3)
  have es: "entered es \<subseteq> {..<length (reg_backends reg)}"
  proof (cases "es = []")
    case False
    with handler_admits [OF h] obtain u info kc es' where "es = AcquireSlot u # es'"
      "proxy_admitted env req reg info kc = (es', reg', out)" by auto
    with admitted_entered [OF assms this(2)] show ?thesis by simp
  qed simp
  have whole: "entered (request_trace env req reg answers) = entered es" for answers :: "('e + string) option list"
    by (cases out) (simp_all add: request_trace_def h)
  show ?thesis
  proof (cases ending)
    case (Polled answers)
    with es whole show ?thesis by (simp add: ended_trace_def)
  next
    case (Abandoned n)
    with es whole subset_trans [OF entered_abandon es, of n] show ?thesis by (simp add: ended_trace_def h)
  qed
qed

section \<open>The shared state\<close>

text \<open>
  The state startup built, with the guards that are alive: the admission queue with its world, the registry with the live
  load guards, the live guards of the meters, which belong to the backends, and the accounting writer with the usage store.
\<close>

record live =
  lv_queue :: fq_world
  lv_registry :: "registry \<times> nat list"
  lv_meter_guards :: "nat list"
  lv_accounting :: "accounting_writer \<times> usage_db"

definition live_start :: "'ip app_state \<Rightarrow> live" where
  "live_start st =
     \<lparr>lv_queue = \<lparr>fqw_inner = snd (as_fair_queue st), fqw_held = 0, fqw_channel = [], fqw_cancelled = []\<rparr>,
      lv_registry = (as_registry st, []), lv_meter_guards = [], lv_accounting = (as_accounting st, as_usage st)\<rparr>"

datatype live_event =
    AtQueue fq_event
  | AtRegistry reg_event
  | StartMeter nat int
  | StopMeter nat int
  | Upstream nat upstream_request
  | Booking usage
  | Persisting "int option" "db_error option" "db_error option"
  | WriterEnds

text \<open>\<open>NotHeld e\<close> is the effect of a guard that nobody holds; the others are the panics of the components.\<close>

datatype live_panic = QueueFailed fq_panic | RegistryFailed reg_panic | MeterFailed meter_panic | NotHeld effect

definition with_meter :: "nat \<Rightarrow> energy_meter \<Rightarrow> registry \<Rightarrow> registry" where
  "with_meter i m reg = reg\<lparr>reg_backends := (reg_backends reg)[i := (reg_backends reg ! i)\<lparr>b_meter := m\<rparr>]\<rparr>"

text \<open>\<open>state.registry.backend(idx).meter.begin()\<close> and the drop of its guard.\<close>

definition start_meter :: "nat \<Rightarrow> int \<Rightarrow> live \<Rightarrow> live_panic + live" where
  "start_meter i now s =
     (case lv_registry s of (reg, guards) \<Rightarrow>
        if i < length (reg_backends reg)
        then Inr (s\<lparr>lv_registry := (with_meter i (meter_begin now (b_meter (reg_backends reg ! i))) reg, guards),
                    lv_meter_guards := i # lv_meter_guards s\<rparr>)
        else Inl (RegistryFailed IndexOutOfBounds))"

definition stop_meter :: "nat \<Rightarrow> int \<Rightarrow> live \<Rightarrow> live_panic + live" where
  "stop_meter i now s =
     (case (lv_registry s, lv_accounting s) of ((reg, guards), (w, db)) \<Rightarrow>
        if i \<in> set (lv_meter_guards s)
        then (case guard_drop sink_record_energy now (b_meter (reg_backends reg ! i), w) of
                Inl p \<Rightarrow> Inl (MeterFailed p)
              | Inr (m, w') \<Rightarrow>
                  Inr (s\<lparr>lv_registry := (with_meter i m reg, guards), lv_meter_guards := remove1 i (lv_meter_guards s),
                         lv_accounting := (w', db)\<rparr>))
        else Inl (NotHeld (LeaveMeter i)))"

text \<open>
  One event. As for the components, \<open>None\<close> is an event that cannot happen. A guard can be dropped here although nobody holds
  it, and a backend entered that does not exist: that these do not happen is for the handlers to guarantee.
\<close>

fun live_exec ::
    "fair_queue \<Rightarrow> ((64 word \<times> nat) list \<Rightarrow> (64 word \<times> nat) list) \<Rightarrow> (64 word \<Rightarrow> 32 word \<Rightarrow> 64 word)
     \<Rightarrow> live_event \<Rightarrow> live \<Rightarrow> (live_panic + live) option" where
  "live_exec q sort_scores score (AtQueue e) s =
     (case fq_exec q e (lv_queue s) of
        Some r \<Rightarrow> Some (map_sum QueueFailed (\<lambda>w. s\<lparr>lv_queue := w\<rparr>) r)
      | None \<Rightarrow> (case e of DropGuard clk \<Rightarrow> Some (Inl (NotHeld ReleaseSlot)) | _ \<Rightarrow> None))"
| "live_exec q sort_scores score (AtRegistry e) s =
     (case reg_exec sort_scores score e (lv_registry s) of
        Some r \<Rightarrow> Some (map_sum RegistryFailed (\<lambda>w. s\<lparr>lv_registry := w\<rparr>) r)
      | None \<Rightarrow>
          (case e of
             BeginLoad i \<Rightarrow> Some (Inl (RegistryFailed IndexOutOfBounds))
           | DropLoad i \<Rightarrow> Some (Inl (NotHeld (LeaveLoad i)))
           | _ \<Rightarrow> None))"
| "live_exec q sort_scores score (StartMeter i now) s = Some (start_meter i now s)"
| "live_exec q sort_scores score (StopMeter i now) s = Some (stop_meter i now s)"
| "live_exec q sort_scores score (Upstream i uq) s = Some (Inr s)"
| "live_exec q sort_scores score (Booking u) s =
     Some (Inr (s\<lparr>lv_accounting := accounting_step (lv_accounting s) (RequestEffect (RecordUsage u))\<rparr>))"
| "live_exec q sort_scores score (Persisting clock pool exec) s =
     Some (Inr (s\<lparr>lv_accounting := accounting_step (lv_accounting s) (WriterTurn clock pool exec)\<rparr>))"
| "live_exec q sort_scores score WriterEnds s =
     Some (Inr (s\<lparr>lv_accounting := accounting_step (lv_accounting s) WriterStop\<rparr>))"

text \<open>
  What an event shows of the handlers. A slot is taken when it is granted at once or when a waiter receives its guard, which
  does not say whose it is; joining, leaving and serving the queue, routing, polls of models and the writer show nothing.
\<close>

fun shows_of :: "fair_queue \<Rightarrow> live_event \<Rightarrow> live \<Rightarrow> effect list" where
  "shows_of q (AtQueue (Acquire u now)) s =
     (if snd (acquire_enter q u now (fqw_inner (lv_queue s))) = None then [AcquireSlot None] else [])"
| "shows_of q (AtQueue (Receive seq)) s = [AcquireSlot None]"
| "shows_of q (AtQueue (DropGuard clk)) s = [ReleaseSlot]"
| "shows_of q (AtRegistry (BeginLoad i)) s = [EnterLoad i]"
| "shows_of q (AtRegistry (DropLoad i)) s = [LeaveLoad i]"
| "shows_of q (StartMeter i now) s = [EnterMeter i]"
| "shows_of q (StopMeter i now) s = [LeaveMeter i]"
| "shows_of q (Upstream i uq) s = [SendTo i uq]"
| "shows_of q (Booking u) s = [RecordUsage u]"
| "shows_of q _ s = []"

fun observed ::
    "fair_queue \<Rightarrow> ((64 word \<times> nat) list \<Rightarrow> (64 word \<times> nat) list) \<Rightarrow> (64 word \<Rightarrow> 32 word \<Rightarrow> 64 word)
     \<Rightarrow> live_event list \<Rightarrow> live \<Rightarrow> effect list" where
  "observed q sort_scores score [] s = []"
| "observed q sort_scores score (e # es) s =
     shows_of q e s @
     (case live_exec q sort_scores score e s of Some (Inr t) \<Rightarrow> observed q sort_scores score es t | _ \<Rightarrow> [])"

fun unnamed :: "effect \<Rightarrow> effect" where
  "unnamed (AcquireSlot u) = AcquireSlot None"
| "unnamed e = e"

section \<open>The invariant\<close>

text \<open>A meter counts the guards of its backend.\<close>

definition meters_held :: "backend list \<Rightarrow> nat list \<Rightarrow> bool" where
  "meters_held bs guards \<longleftrightarrow>
     (\<forall>i \<in> set guards. i < length bs) \<and>
     (\<forall>i < length bs. meter_inv \<lparr>mw_meter = b_meter (bs ! i), mw_out = [], mw_guards = count_list guards i\<rparr>)"

definition live_inv :: "fair_queue \<Rightarrow> ((64 word \<times> nat) list \<Rightarrow> (64 word \<times> nat) list) \<Rightarrow> live \<Rightarrow> bool" where
  "live_inv q sort_scores s \<longleftrightarrow>
     fq_inv q (lv_queue s) \<and> reg_world_inv sort_scores (lv_registry s) \<and>
     meters_held (reg_backends (fst (lv_registry s))) (lv_meter_guards s) \<and> writer_inv (fst (lv_accounting s))"

lemma with_meter_simps [simp]:
  "length (reg_backends (with_meter i m reg)) = length (reg_backends reg)"
  "reg_inflight (with_meter i m reg) = reg_inflight reg"
  "reg_backends (with_meter i m reg) = (reg_backends reg)[i := (reg_backends reg ! i)\<lparr>b_meter := m\<rparr>]"
  by (simp_all add: with_meter_def)

lemma reg_world_with_meter:
  assumes "reg_world_inv sort_scores (reg, guards)" "i < length (reg_backends reg)"
  shows "reg_world_inv sort_scores (with_meter i m reg, guards)"
proof -
  have "catalog_allowed (reg_backends (with_meter i m reg)) es = catalog_allowed (reg_backends reg) es" for es
    using assms(2) by (auto simp: catalog_allowed_def nth_list_update)
  with assms(1) show ?thesis
    by (simp add: reg_world_inv_def reg_inv_def loads_ok_def) (auto simp: with_meter_def)
qed

lemma meters_held_update:
  assumes "meters_held bs guards" "i < length bs" "set guards' \<subseteq> insert i (set guards)"
    and "\<And>j. j \<noteq> i \<Longrightarrow> count_list guards' j = count_list guards j"
    and "meter_inv \<lparr>mw_meter = m, mw_out = [], mw_guards = count_list guards' i\<rparr>"
  shows "meters_held (bs[i := (bs ! i)\<lparr>b_meter := m\<rparr>]) guards'"
  using assms unfolding meters_held_def by (auto simp: nth_list_update)

lemma start_meter_holds:
  assumes "live_inv q sort_scores s" "i < length (reg_backends (fst (lv_registry s)))"
  shows "\<exists>t. start_meter i now s = Inr t \<and> live_inv q sort_scores t \<and> lv_queue t = lv_queue s \<and>
    snd (lv_registry t) = snd (lv_registry s) \<and> lv_meter_guards t = i # lv_meter_guards s \<and>
    length (reg_backends (fst (lv_registry t))) = length (reg_backends (fst (lv_registry s)))"
proof -
  obtain reg guards where r: "lv_registry s = (reg, guards)" by (cases "lv_registry s")
  let ?m = "b_meter (reg_backends reg ! i)" and ?bs = "reg_backends reg"
  from assms r have inv: "meters_held ?bs (lv_meter_guards s)" "i < length ?bs" by (simp_all add: live_inv_def)
  then have "meter_inv \<lparr>mw_meter = ?m, mw_out = [], mw_guards = count_list (lv_meter_guards s) i\<rparr>" by (simp add: meters_held_def)
  from meter.exec_inv [OF this, of "Begin now"]
  have "meter_inv \<lparr>mw_meter = meter_begin now ?m, mw_out = [], mw_guards = count_list (i # lv_meter_guards s) i\<rparr>" by simp
  from meters_held_update [OF inv _ _ this] reg_world_with_meter [of sort_scores reg guards i] assms r show ?thesis
    by (auto simp: start_meter_def live_inv_def)
qed

lemma record_energy_inv: "writer_inv w \<Longrightarrow> writer_inv (sink_record_energy secs watts w)"
  using writer_exec_inv [of w "Offer (Energy secs watts)"] by (simp add: sink_record_energy_def)

lemma meter_released:
  assumes "meter_inv \<lparr>mw_meter = m, mw_out = [], mw_guards = Suc k\<rparr>"
  shows "\<exists>m' out. guard_release now m = Inr (m', out) \<and> meter_inv \<lparr>mw_meter = m', mw_out = [], mw_guards = k\<rparr>"
  using assms by (auto simp: guard_release_def meter_inv_def Let_def)

lemma count_list_pos: "i \<in> set xs \<Longrightarrow> 0 < count_list xs i"
  by (metis count_list_0_iff gr0I)

lemma stop_meter_holds:
  assumes "live_inv q sort_scores s" "i \<in> set (lv_meter_guards s)"
  shows "\<exists>t. stop_meter i now s = Inr t \<and> live_inv q sort_scores t \<and> lv_queue t = lv_queue s \<and>
    snd (lv_registry t) = snd (lv_registry s) \<and> lv_meter_guards t = remove1 i (lv_meter_guards s) \<and>
    length (reg_backends (fst (lv_registry t))) = length (reg_backends (fst (lv_registry s)))"
proof -
  obtain reg guards where r: "lv_registry s = (reg, guards)" by (cases "lv_registry s")
  obtain w db where a: "lv_accounting s = (w, db)" by (cases "lv_accounting s")
  let ?m = "b_meter (reg_backends reg ! i)" and ?bs = "reg_backends reg" and ?g = "lv_meter_guards s"
  let ?u = "\<lparr>mw_meter = ?m, mw_out = [], mw_guards = count_list ?g i\<rparr>"
  from assms r a have inv: "meters_held ?bs ?g" "i < length ?bs" "writer_inv w" by (auto simp: live_inv_def meters_held_def)
  from inv have u: "meter_inv ?u" by (simp add: meters_held_def)
  obtain k where k: "count_list ?g i = Suc k" using count_list_pos [OF assms(2)] gr0_conv_Suc by blast
  from meter_released [OF u [unfolded k], of now] k obtain m out where rel: "guard_release now ?m = Inr (m, out)"
    "meter_inv \<lparr>mw_meter = m, mw_out = [], mw_guards = count_list (remove1 i ?g) i\<rparr>" by auto
  from meters_held_update [OF inv(1,2) _ _ rel(2)] have held: "meters_held (?bs[i := (?bs ! i)\<lparr>b_meter := m\<rparr>]) (remove1 i ?g)"
    by (auto dest: notin_set_remove1)
  obtain w' where "guard_drop sink_record_energy now (?m, w) = Inr (m, w')" "writer_inv w'"
    using rel(1) inv(3) by (cases out) (auto simp: guard_drop_def record_energy_inv)
  with held reg_world_with_meter [of sort_scores reg guards i] inv assms r a show ?thesis
    by (auto simp: stop_meter_def live_inv_def)
qed

section \<open>What the guards hold\<close>

text \<open>
  The effects shown so far have taken as much of a resource as they gave back and the live guards hold. What brackets a
  resource in the whole keeps a guard from being dropped that nobody holds.
\<close>

definition taken :: "(effect \<Rightarrow> bool) \<Rightarrow> (effect \<Rightarrow> bool) \<Rightarrow> effect list \<Rightarrow> nat \<Rightarrow> bool" where
  "taken opens closes h n \<longleftrightarrow> length (filter opens h) = length (filter closes h) + n"

definition holding :: "effect list \<Rightarrow> live \<Rightarrow> bool" where
  "holding h s \<longleftrightarrow>
     taken (\<lambda>e. \<exists>u. e = AcquireSlot u) (\<lambda>e. e = ReleaseSlot) h (fqw_held (lv_queue s)) \<and>
     (\<forall>i. taken (\<lambda>e. e = EnterLoad i) (\<lambda>e. e = LeaveLoad i) h (count_list (snd (lv_registry s)) i)) \<and>
     (\<forall>i. taken (\<lambda>e. e = EnterMeter i) (\<lambda>e. e = LeaveMeter i) h (count_list (lv_meter_guards s) i))"

lemma bracketed_taken:
  assumes "bracketed P Q es" "prefix (h @ [e]) es" "Q e" "\<not> P e" "taken P Q h n"
  shows "0 < n"
proof -
  from assms(2) obtain zs where "es = (h @ [e]) @ zs" by (auto elim: prefixE)
  then have "take (Suc (length h)) es = h @ [e]" by simp
  with assms(1) have "length (filter Q (h @ [e])) \<le> length (filter P (h @ [e]))"
    unfolding bracketed_def by metis
  with assms(3-5) show ?thesis by (simp add: taken_def)
qed

lemma bracketed_all_taken: "bracketed P Q es \<Longrightarrow> taken P Q es n \<Longrightarrow> n = 0"
  by (simp add: bracketed_def taken_def)

text \<open>One event, component by component: it does not fail, and the books stay balanced.\<close>

definition step_holds :: "fair_queue \<Rightarrow> ((64 word \<times> nat) list \<Rightarrow> (64 word \<times> nat) list) \<Rightarrow> effect list \<Rightarrow> live \<Rightarrow> live_panic + live \<Rightarrow> bool" where
  "step_holds q sort_scores h s r \<longleftrightarrow>
     (\<exists>t. r = Inr t \<and> live_inv q sort_scores t \<and> holding h t \<and>
          length (reg_backends (fst (lv_registry t))) = length (reg_backends (fst (lv_registry s))))"

lemma queue_step_held:
  assumes "fq_exec q e (lv_queue s) = Some (Inr w)" "holding h s"
  shows "holding (h @ shows_of q (AtQueue e) s) (s\<lparr>lv_queue := w\<rparr>)"
proof (cases e)
  case (Acquire user now)
  with assms show ?thesis by (auto simp: holding_def taken_def split: prod.split_asm option.split_asm)
next
  case (DropGuard clk)
  with assms show ?thesis
    by (auto simp: holding_def taken_def put_released_def Let_def split: if_split_asm sum.split_asm)
qed (use assms in \<open>auto simp: holding_def taken_def put_released_def Let_def split: if_split_asm sum.split_asm\<close>)

lemma queue_step:
  assumes "live_inv q sort_scores s" "holding h s" "resources_bracketed full"
    and "prefix (h @ shows_of q (AtQueue e) s) full" "live_exec q sort_scores score (AtQueue e) s = Some r"
  shows "step_holds q sort_scores (h @ shows_of q (AtQueue e) s) s r"
proof (cases "fq_exec q e (lv_queue s)")
  case None
  with assms(5) obtain clk where e: "e = DropGuard clk" by (cases e) (simp_all del: fq_exec.simps)
  have "0 < fqw_held (lv_queue s)"
    by (rule bracketed_taken [where P = "\<lambda>e. \<exists>u. e = AcquireSlot u" and Q = "\<lambda>e. e = ReleaseSlot" and h = h and e = ReleaseSlot])
       (use assms e in \<open>auto simp: resources_bracketed_def holding_def\<close>)
  with None e show ?thesis by (auto simp: Let_def split: sum.split_asm)
next
  case (Some r')
  from assms(1) have inv: "fq_inv q (lv_queue s)" by (simp add: live_inv_def)
  with Some fq.exec_safe [OF inv] obtain w where w: "r' = Inr w" by (cases r') auto
  with Some have ex: "fq_exec q e (lv_queue s) = Some (Inr w)" by simp
  from fq.exec_inv [OF inv ex] assms(1) have "live_inv q sort_scores (s\<lparr>lv_queue := w\<rparr>)" by (simp add: live_inv_def)
  with queue_step_held [OF ex assms(2)] assms(5) ex show ?thesis
    unfolding step_holds_def by (intro exI [of _ "s\<lparr>lv_queue := w\<rparr>"]) (simp del: fq_exec.simps)
qed

lemma reg_exec_backends:
  assumes "reg_world_inv sort_scores w" "reg_exec sort_scores score e w = Some (Inr w')"
  shows "reg_backends (fst w') = reg_backends (fst w)"
proof -
  obtain reg guards where w: "w = (reg, guards)" by (cases w)
  from assms(1) have inv: "reg_inv reg" "score_sort sort_scores" by (simp_all add: reg_world_inv_def w)
  show ?thesis
  proof (cases e)
    case (Route req)
    from route_candidates_total [OF inv, of score req] assms(2) show ?thesis by (auto simp: w Route)
  next
    case (SetModels i es)
    with assms(2) obtain reg' where s: "set_backend_models i es reg = Inr reg'" "w' = (reg', guards)"
      by (cases "set_backend_models i es reg") (auto simp: w split: if_split_asm)
    from s(1) have "reg_backends reg' = reg_backends reg" by (rule set_backend_models_Inr) simp
    with s(2) show ?thesis by (simp add: w)
  qed (use assms(2) in \<open>auto simp: w begin_load_def load_guard_drop_def split: if_split_asm\<close>)
qed

lemma map_sum_Inr: "map_sum f g x = Inr y \<longleftrightarrow> (\<exists>z. x = Inr z \<and> y = g z)"
  by (cases x) auto

lemma reg_exec_guards:
  assumes "reg_exec sort_scores score e w = Some (Inr w')"
  shows "case e of
      BeginLoad i \<Rightarrow> snd w' = i # snd w
    | DropLoad i \<Rightarrow> i \<in> set (snd w) \<and> snd w' = remove1 i (snd w)
    | _ \<Rightarrow> snd w' = snd w"
  using assms by (cases w; cases e) (auto simp: map_sum_Inr split: if_split_asm)

lemma registry_step_held:
  assumes "reg_exec sort_scores score e (lv_registry s) = Some (Inr w)" "holding h s"
  shows "holding (h @ shows_of q (AtRegistry e) s) (s\<lparr>lv_registry := w\<rparr>)"
  using reg_exec_guards [OF assms(1)] assms(2) by (cases e) (auto simp: holding_def taken_def dest: count_list_pos)

lemma registry_step:
  assumes "live_inv q sort_scores s" "holding h s" "resources_bracketed full"
    and "entered full \<subseteq> {..<length (reg_backends (fst (lv_registry s)))}"
    and "prefix (h @ shows_of q (AtRegistry e) s) full" "live_exec q sort_scores score (AtRegistry e) s = Some r"
  shows "step_holds q sort_scores (h @ shows_of q (AtRegistry e) s) s r"
proof -
  obtain reg guards where reg: "lv_registry s = (reg, guards)" by (cases "lv_registry s")
  from assms(1) have inv: "reg_world_inv sort_scores (lv_registry s)" by (simp add: live_inv_def)
  show ?thesis
  proof (cases "reg_exec sort_scores score e (lv_registry s)")
    case None
    show ?thesis
    proof (cases e)
      case (BeginLoad i)
      with assms(5) have "EnterLoad i \<in> set full" by (auto dest: set_mono_prefix)
      with assms(4) have "i < length (reg_backends reg)" by (auto simp: entered_def reg)
      with None BeginLoad show ?thesis by (simp add: reg)
    next
      case (DropLoad i)
      have "0 < count_list guards i"
        by (rule bracketed_taken [where P = "\<lambda>e. e = EnterLoad i" and Q = "\<lambda>e. e = LeaveLoad i" and h = h and e = "LeaveLoad i"])
           (use assms(2,3,5) DropLoad reg in \<open>auto simp: resources_bracketed_def holding_def\<close>)
      then have "i \<in> set guards" by (metis count_list_0_iff less_irrefl)
      with None DropLoad show ?thesis by (simp add: reg)
    qed (use None assms(6) in simp_all)
  next
    case (Some r')
    with registry.exec_safe [OF inv] obtain w where w: "r' = Inr w" by (cases r') auto
    with Some have ex: "reg_exec sort_scores score e (lv_registry s) = Some (Inr w)" by simp
    from registry.exec_inv [OF inv ex] reg_exec_backends [OF inv ex] assms(1)
    have "live_inv q sort_scores (s\<lparr>lv_registry := w\<rparr>)" by (simp add: live_inv_def)
    with registry_step_held [OF ex assms(2)] reg_exec_backends [OF inv ex] assms(6) ex show ?thesis
      unfolding step_holds_def by (intro exI [of _ "s\<lparr>lv_registry := w\<rparr>"]) (simp del: reg_exec.simps)
  qed
qed

lemma meter_step:
  assumes "live_inv q sort_scores s" "holding h s" "resources_bracketed full"
    and "entered full \<subseteq> {..<length (reg_backends (fst (lv_registry s)))}"
  shows "prefix (h @ [EnterMeter i]) full \<Longrightarrow> step_holds q sort_scores (h @ [EnterMeter i]) s (start_meter i now s)"
    and "prefix (h @ [LeaveMeter i]) full \<Longrightarrow> step_holds q sort_scores (h @ [LeaveMeter i]) s (stop_meter i now s)"
proof -
  assume "prefix (h @ [EnterMeter i]) full"
  then have "EnterMeter i \<in> set full" by (auto dest: set_mono_prefix)
  with assms(4) have "i < length (reg_backends (fst (lv_registry s)))" by (auto simp: entered_def)
  from start_meter_holds [OF assms(1) this, of now] assms(2) show "step_holds q sort_scores (h @ [EnterMeter i]) s (start_meter i now s)"
    by (auto simp: step_holds_def holding_def taken_def)
next
  assume pre: "prefix (h @ [LeaveMeter i]) full"
  have "0 < count_list (lv_meter_guards s) i"
    by (rule bracketed_taken [OF _ pre, where P = "\<lambda>e. e = EnterMeter i" and Q = "\<lambda>e. e = LeaveMeter i"])
       (use assms(2,3) in \<open>auto simp: resources_bracketed_def holding_def\<close>)
  then have i: "i \<in> set (lv_meter_guards s)" by (metis count_list_0_iff less_irrefl)
  from stop_meter_holds [OF assms(1) i, of now] obtain t where t: "stop_meter i now s = Inr t" "live_inv q sort_scores t"
    "lv_queue t = lv_queue s" "snd (lv_registry t) = snd (lv_registry s)" "lv_meter_guards t = remove1 i (lv_meter_guards s)"
    "length (reg_backends (fst (lv_registry t))) = length (reg_backends (fst (lv_registry s)))" by blast
  have "holding (h @ [LeaveMeter i]) t"
    using assms(2) count_list_pos [OF i] unfolding holding_def taken_def t by auto
  with t show "step_holds q sort_scores (h @ [LeaveMeter i]) s (stop_meter i now s)" by (auto simp: step_holds_def)
qed

text \<open>The remaining events touch only the accounting.\<close>

lemma accounting_inv: "writer_inv w \<Longrightarrow> writer_inv (fst (accounting_step (w, db) ev))"
  using writer_exec_inv [of w]
  by (cases ev)
     (auto simp: record_usage_def enqueue_cases writer_inv_def writer_turn_def sink_record_energy_def split: effect.split list.split)

lemma accounting_held:
  assumes "live_inv q sort_scores s" "holding h s" "\<forall>e \<in> set es. neutral e"
  shows "step_holds q sort_scores (h @ es) s (Inr (s\<lparr>lv_accounting := accounting_step (lv_accounting s) ev\<rparr>))"
    and "step_holds q sort_scores (h @ es) s (Inr s)"
proof -
  have none: "filter P es = []" if "\<And>e. P e \<Longrightarrow> \<not> neutral e" for P
    using that assms(3) by (auto simp: filter_empty_conv)
  have "filter (\<lambda>e. \<exists>u. e = AcquireSlot u) es = []" "filter (\<lambda>e. e = ReleaseSlot) es = []"
    "filter (\<lambda>e. e = EnterLoad i) es = []" "filter (\<lambda>e. e = LeaveLoad i) es = []"
    "filter (\<lambda>e. e = EnterMeter i) es = []" "filter (\<lambda>e. e = LeaveMeter i) es = []" for i by (rule none; auto)+
  then have "holding (h @ es) s" "holding (h @ es) (s\<lparr>lv_accounting := a\<rparr>)" for a
    using assms(2) by (simp_all add: holding_def taken_def)
  with assms(1) accounting_inv [of "fst (lv_accounting s)" "snd (lv_accounting s)" ev]
  show "step_holds q sort_scores (h @ es) s (Inr (s\<lparr>lv_accounting := accounting_step (lv_accounting s) ev\<rparr>))"
    and "step_holds q sort_scores (h @ es) s (Inr s)"
    by (auto simp: step_holds_def live_inv_def)
qed

lemma live_step:
  assumes "live_inv q sort_scores s" "holding h s" "resources_bracketed full"
    and "entered full \<subseteq> {..<length (reg_backends (fst (lv_registry s)))}"
    and "prefix (h @ shows_of q e s) full" "live_exec q sort_scores score e s = Some r"
  shows "step_holds q sort_scores (h @ shows_of q e s) s r"
proof (cases e)
  case (AtQueue e')
  with queue_step [OF assms(1-3)] assms(5,6) show ?thesis by blast
next
  case (AtRegistry e')
  with registry_step [OF assms(1-4)] assms(5,6) show ?thesis by blast
next
  case (StartMeter i now)
  with meter_step(1) [OF assms(1-4)] assms(5,6) show ?thesis by auto
next
  case (StopMeter i now)
  with meter_step(2) [OF assms(1-4)] assms(5,6) show ?thesis by auto
next
  case (Upstream i uq)
  with accounting_held(2) [OF assms(1,2), of "[SendTo i uq]"] assms(6) show ?thesis by auto
next
  case (Booking u)
  with accounting_held(1) [OF assms(1,2), of "[RecordUsage u]" "RequestEffect (RecordUsage u)"] assms(6) show ?thesis by auto
next
  case (Persisting clock pool exec)
  with accounting_held(1) [OF assms(1,2), of "[]" "WriterTurn clock pool exec"] assms(6) show ?thesis by auto
next
  case WriterEnds
  with accounting_held(1) [OF assms(1,2), of "[]" WriterStop] assms(6) show ?thesis by auto
qed

lemma live_run:
  assumes "resources_bracketed full" "run_events (live_exec q sort_scores score) evs s = Some r"
    and "live_inv q sort_scores s" "holding h s"
    and "entered full \<subseteq> {..<length (reg_backends (fst (lv_registry s)))}"
    and "prefix (h @ observed q sort_scores score evs s) full"
  shows "step_holds q sort_scores (h @ observed q sort_scores score evs s) s r"
  using assms(2-)
proof (induction evs arbitrary: s h)
  case Nil
  then show ?case by (auto simp: step_holds_def)
next
  case (Cons e evs)
  from Cons.prems(1) obtain r1 where r1: "live_exec q sort_scores score e s = Some r1"
    by (auto split: option.split_asm)
  from Cons.prems(5) have pre: "prefix (h @ shows_of q e s) full"
    by (auto simp flip: append_assoc dest: append_prefixD)
  from live_step [OF Cons.prems(2,3) assms(1) Cons.prems(4) pre r1] obtain t where t: "r1 = Inr t" "live_inv q sort_scores t"
    "holding (h @ shows_of q e s) t" "length (reg_backends (fst (lv_registry t))) = length (reg_backends (fst (lv_registry s)))"
    by (auto simp: step_holds_def)
  from Cons.prems(1,5) r1 t(1) have rest: "run_events (live_exec q sort_scores score) evs t = Some r"
    "prefix ((h @ shows_of q e s) @ observed q sort_scores score evs t) full" by simp_all
  from Cons.IH [OF rest(1) t(2,3) _ rest(2)] Cons.prems(4) t(4) r1 t(1) show ?case by (auto simp: step_holds_def)
qed

section \<open>What the requests do together\<close>

lemma ended_trace_bracketed: "resources_bracketed (ended_trace env req reg ending)"
proof -
  have "resources_bracketed []" by (simp add: resources_bracketed_def bracketed_none)
  with ended_trace_cases [of env req reg ending] show ?thesis by (auto simp: attempts_bracketed simp del: append_Cons)
qed

lemma interleavings_bracketed:
  "es \<in> interleavings ts \<Longrightarrow> \<forall>t \<in> set ts. resources_bracketed t \<Longrightarrow> resources_bracketed es"
  unfolding resources_bracketed_def by (intro conjI allI bracketed_interleavings) auto

lemma interleavings_entered: "es \<in> interleavings ts \<Longrightarrow> \<forall>t \<in> set ts. entered t \<subseteq> N \<Longrightarrow> entered es \<subseteq> N"
proof (induction ts arbitrary: es)
  case (Cons t ts)
  then obtain es' where es': "es' \<in> interleavings ts" "es \<in> shuffles t es'" by auto
  from Cons.IH [OF es'(1)] Cons.prems(2) have "entered es' \<subseteq> N" "entered t \<subseteq> N" by auto
  with set_shuffles [OF es'(2)] show ?case by (auto simp: entered_def)
qed simp

lemma unnamed_iff [simp]:
  "unnamed e = ReleaseSlot \<longleftrightarrow> e = ReleaseSlot"
  "unnamed e = EnterLoad i \<longleftrightarrow> e = EnterLoad i" "unnamed e = LeaveLoad i \<longleftrightarrow> e = LeaveLoad i"
  "unnamed e = EnterMeter i \<longleftrightarrow> e = EnterMeter i" "unnamed e = LeaveMeter i \<longleftrightarrow> e = LeaveMeter i"
  "(\<exists>u. unnamed e = AcquireSlot u) \<longleftrightarrow> (\<exists>u. e = AcquireSlot u)"
  by (cases e; simp)+

lemma unnamed_bracketed: "resources_bracketed (map unnamed es) = resources_bracketed es"
  by (simp add: resources_bracketed_def bracketed_def take_map filter_map comp_def)

lemma unnamed_entered: "entered (map unnamed es) = entered es"
  by (induction es) (auto split: effect.split)

lemma unnamed_bookings: "bookings (map unnamed es) = bookings es"
proof (induction es)
  case (Cons e es)
  then show ?case by (cases e) (simp_all add: bookings_def map_filter_Cons)
qed simp

text \<open>The accounting of a run is a run of the accounting pipeline, on the usage that the run shows as booked.\<close>

lemma step_accounting:
  assumes "live_exec q sort_scores score e s = Some (Inr t)"
  shows "\<exists>aevs. lv_accounting t = foldl accounting_step (lv_accounting s) aevs \<and>
    bookings (effects_of aevs) = bookings (shows_of q e s)"
proof -
  have none: "bookings (shows_of q e s) = []" if "\<And>u. e \<noteq> Booking u"
    using that by (cases "(q, e, s)" rule: shows_of.cases) (auto simp: bookings_def map_filter_Cons)
  have same: ?thesis if "lv_accounting t = lv_accounting s" "\<And>u. e \<noteq> Booking u"
    using that none by (intro exI [of _ "[]"]) (simp add: effects_of_def)
  show ?thesis
  proof (cases e)
    case (AtQueue e')
    with assms show ?thesis by (intro same) (auto simp: map_sum_Inr split: option.split_asm fq_event.split_asm)
  next
    case (AtRegistry e')
    with assms show ?thesis by (intro same) (auto simp: map_sum_Inr split: option.split_asm reg_event.split_asm)
  next
    case (StartMeter i now)
    with assms show ?thesis by (intro same) (auto simp: start_meter_def split: prod.split_asm if_split_asm)
  next
    case (StopMeter i now)
    obtain w db where a: "lv_accounting s = (w, db)" by (cases "lv_accounting s")
    from StopMeter assms a consider "lv_accounting t = (w, db)" | secs watts where "lv_accounting t = (sink_record_energy secs watts w, db)"
      by (fastforce simp: stop_meter_def guard_drop_def split: prod.split_asm if_split_asm sum.split_asm option.split_asm)
    then show ?thesis
    proof cases
      case (2 secs watts)
      with a StopMeter show ?thesis
        by (intro exI [of _ "[MeterRecord secs watts]"]) (simp add: effects_of_def map_filter_Cons bookings_def)
    next
      case 1
      with a StopMeter show ?thesis by (intro same) simp_all
    qed
  next
    case (Upstream i uq)
    with assms show ?thesis by (intro same) auto
  next
    case (Booking u)
    with assms show ?thesis
      by (intro exI [of _ "[RequestEffect (RecordUsage u)]"]) (auto simp: effects_of_def map_filter_Cons)
  next
    case (Persisting clock pool exec)
    with assms show ?thesis
      by (intro exI [of _ "[WriterTurn clock pool exec]"]) (auto simp: effects_of_def map_filter_Cons)
  next
    case WriterEnds
    with assms show ?thesis by (intro exI [of _ "[WriterStop]"]) (auto simp: effects_of_def map_filter_Cons)
  qed
qed

lemma run_accounting:
  "run_events (live_exec q sort_scores score) evs s = Some (Inr t) \<Longrightarrow>
     \<exists>aevs. lv_accounting t = foldl accounting_step (lv_accounting s) aevs \<and>
            bookings (effects_of aevs) = bookings (observed q sort_scores score evs s)"
proof (induction evs arbitrary: s)
  case Nil
  then show ?case by (intro exI [of _ "[]"]) (simp add: effects_of_def)
next
  case (Cons e evs)
  then obtain u where u: "live_exec q sort_scores score e s = Some (Inr u)"
    "run_events (live_exec q sort_scores score) evs u = Some (Inr t)" by (auto split: option.split_asm sum.split_asm)
  from step_accounting [OF u(1)] Cons.IH [OF u(2)] obtain a1 a2 where
    "lv_accounting u = foldl accounting_step (lv_accounting s) a1" "bookings (effects_of a1) = bookings (shows_of q e s)"
    "lv_accounting t = foldl accounting_step (lv_accounting u) a2"
    "bookings (effects_of a2) = bookings (observed q sort_scores score evs u)" by blast
  then show ?case using u(1) by (intro exI [of _ "a1 @ a2"]) (simp add: effects_of_def)
qed

lemma run_usage:
  assumes "run_events (live_exec q sort_scores score) evs s = Some (Inr t)" "aw_queue (fst (lv_accounting s)) = []"
  shows "\<exists>us. map row_usage (ud_tokens (snd (lv_accounting t))) = map row_usage (ud_tokens (snd (lv_accounting s))) @ us \<and>
    subseq (us @ usages_in (aw_queue (fst (lv_accounting t)))) (bookings (observed q sort_scores score evs s))"
proof -
  obtain w db w' db' where a: "lv_accounting s = (w, db)" "lv_accounting t = (w', db')"
    by (cases "lv_accounting s"; cases "lv_accounting t")
  from run_accounting [OF assms(1)] obtain aevs where "foldl accounting_step (w, db) aevs = (w', db')"
    "bookings (effects_of aevs) = bookings (observed q sort_scores score evs s)" by (auto simp: a)
  with usage_records.flow [OF this(1)] assms(2) show ?thesis by (auto simp: offers_split usages_in_def a)
qed

lemma live_start_inv:
  assumes "state_sound config db st" "score_sort sort_scores"
  shows "live_inv (fst (as_fair_queue st)) sort_scores (live_start st)" "holding [] (live_start st)"
proof -
  have "meters_held (reg_backends (as_registry st)) []"
    using assms(1) by (auto simp: state_sound_def meters_held_def meter_inv_def meter_new_def)
  with assms show "live_inv (fst (as_fair_queue st)) sort_scores (live_start st)"
    by (simp add: live_inv_def live_start_def state_sound_def reg_world_inv_def)
  show "holding [] (live_start st)" by (simp add: holding_def taken_def live_start_def)
qed

text \<open>Nothing is held: no slot, no load, no meter.\<close>

definition idle :: "live \<Rightarrow> bool" where
  "idle s \<longleftrightarrow>
     fqw_held (lv_queue s) = 0 \<and> list_all (\<lambda>l. l = 0) (reg_inflight (fst (lv_registry s))) \<and>
     list_all (\<lambda>b. active_count (em_state (b_meter b)) = 0 \<and> busy_since (em_state (b_meter b)) = None)
       (reg_backends (fst (lv_registry s)))"

lemma holding_idle:
  assumes "live_inv q sort_scores s" "holding full s" "resources_bracketed full"
  shows "idle s"
proof -
  from assms(2,3) have none: "fqw_held (lv_queue s) = 0" "count_list (snd (lv_registry s)) i = 0" "count_list (lv_meter_guards s) i = 0" for i
    by (auto simp: holding_def resources_bracketed_def dest!: bracketed_all_taken)
  with assms(1) show ?thesis
    by (auto simp: idle_def live_inv_def reg_world_inv_def loads_ok_def meters_held_def meter_inv_def list_all_length)
qed

lemma idle_unblocked:
  assumes "live_inv q sort_scores s" "idle s" "0 < fq_capacity q" "fqw_channel (lv_queue s) = []"
  shows "waiters (fqw_inner (lv_queue s)) = []"
  using assms by (auto simp: idle_def live_inv_def fq_inv_def)

section \<open>Properties\<close>

text \<open>
  C3: A running server is safe and leaks nothing. Start from a sound state, let any number of requests run whose effects
  interleave in any order and any of which may be abandoned by its client at any point, while waiters join, leave and are
  served, models are polled, and the writer persists, fails or ends. No component panics: no permit, load or meter count
  underflows, no guard is dropped that nobody holds and no backend is addressed that does not exist. The slots in use stay
  within the capacity, nobody waits while one is free, the accounting queue keeps its bound, every count is the number of
  guards that are alive, and the usage that reached the store or waits for it is, in order and once, what requests booked.
  When all requests are over, no slot, load or meter is held any more, and nobody is left waiting but those whose guard is
  already on its way.
\<close>

theorem running_server_safe:
  fixes rs :: "(proxy_env \<times> proxy_request \<times> registry \<times> 'e ending) list"
  assumes "state_sound config db st" "score_sort sort_scores"
    and "\<forall>(env, req, reg, ending) \<in> set rs. reg_inv reg \<and> score_sort (pe_sort_scores env) \<and>
           length (reg_backends reg) = length (reg_backends (as_registry st))"
    and "es \<in> interleavings (map (\<lambda>(env, req, reg, ending). ended_trace env req reg ending) rs)"
    and "run_events (live_exec (fst (as_fair_queue st)) sort_scores score) evs (live_start st) = Some r"
    and "prefix (observed (fst (as_fair_queue st)) sort_scores score evs (live_start st)) (map unnamed es)"
  shows "\<exists>s. r = Inr s \<and> live_inv (fst (as_fair_queue st)) sort_scores s \<and>
    fqw_held (lv_queue s) \<le> fq_capacity (fst (as_fair_queue st)) \<and>
    (\<exists>us. map row_usage (ud_tokens (snd (lv_accounting s))) = map row_usage (ud_tokens (as_usage st)) @ us \<and>
       subseq (us @ usages_in (aw_queue (fst (lv_accounting s)))) (bookings es)) \<and>
    (observed (fst (as_fair_queue st)) sort_scores score evs (live_start st) = map unnamed es \<longrightarrow>
       idle s \<and> (fqw_channel (lv_queue s) = [] \<longrightarrow> waiters (fqw_inner (lv_queue s)) = []))"
proof -
  let ?q = "fst (as_fair_queue st)" and ?full = "map unnamed es"
  let ?obs = "observed ?q sort_scores score evs (live_start st)"
  have br: "resources_bracketed ?full"
    unfolding unnamed_bracketed by (rule interleavings_bracketed [OF assms(4)]) (auto simp: ended_trace_bracketed)
  have "entered es \<subseteq> {..<length (reg_backends (as_registry st))}"
    using assms(3) ended_trace_entered by (intro interleavings_entered [OF assms(4)]) fastforce
  then have en: "entered ?full \<subseteq> {..<length (reg_backends (fst (lv_registry (live_start st))))}"
    by (simp add: unnamed_entered live_start_def)
  note start = live_start_inv [OF assms(1,2)]
  from live_run [OF br assms(5) start en] assms(6) obtain s where s: "r = Inr s" "live_inv ?q sort_scores s" "holding ?obs s"
    by (auto simp: step_holds_def)
  have "fqw_held (lv_queue s) \<le> fq_capacity ?q" using s(2) by (simp add: live_inv_def fq_inv_def)
  moreover have "?obs = ?full \<longrightarrow> idle s \<and> (fqw_channel (lv_queue s) = [] \<longrightarrow> waiters (fqw_inner (lv_queue s)) = [])"
    using holding_idle [OF s(2)] idle_unblocked [OF s(2)] s(3) br assms(1) by (auto simp: state_sound_def)
  moreover from assms(6) obtain zs where "?full = ?obs @ zs" by (auto elim: prefixE)
  then have "bookings es = bookings ?obs @ bookings zs" by (metis bookings_simps(2) unnamed_bookings)
  with run_usage [OF assms(5) [unfolded s(1)]] assms(1)
  have "\<exists>us. map row_usage (ud_tokens (snd (lv_accounting s))) = map row_usage (ud_tokens (as_usage st)) @ us \<and>
       subseq (us @ usages_in (aw_queue (fst (lv_accounting s)))) (bookings es)"
    by (auto simp: live_start_def state_sound_def accepted_def intro: list_emb_append2)
  ultimately show ?thesis using s(1,2) by blast
qed

text \<open>A client goes away while the server reads the body of its request.\<close>

lemma demo_abandoned: "ended_trace demo_env demo_request reg (Abandoned 0) = [AcquireSlot None, ReleaseSlot]"
proof -
  obtain es x where "proxy_handler demo_env demo_request reg = (AcquireSlot None # es, x)"
    by (cases "proxy_admitted demo_env demo_request reg None False")
       (simp add: proxy_handler_def validate_client_key_bounded_def extract_client_key_def demo_request_def header_get_def demo_env_def)
  then show ?thesis by (simp add: ended_trace_def)
qed

lemma sample_state: "\<exists>config db (st :: nat app_state). state_sound config db st"
proof -
  obtain config where c: "resolve sample_io sample_cli = Inr config" "length (cfg_backends config) = 1"
    "cfg_dashboard_auth config = None" by (rule sample_config)
  let ?env = "with_database sample_sqlite (cfg_db_path config) old_file sample_start"
  have io: "32 \<le> ci_max_permits sample_io" and small: "length (cfg_backends config) \<le> 2 ^ 32" using c(2) by (simp_all add: sample_io_def)
  have "db_inv (df_identity old_file)" by (simp add: old_file_def db_inv_def db_empty_def)
  then have "\<forall>db. st_identity_store ?env = Inr db \<longrightarrow> db_inv db" using with_database_rows by blast
  from build_state_sound [OF io c(1) small this] sample_unobstructed [OF c(3)] show ?thesis
    by (auto split: sum.split_asm)
qed

theorem running_server_safe_witness:
  "\<exists>(st :: nat app_state) config db s.
     state_sound config db st \<and>
     run_events (live_exec (fst (as_fair_queue st)) demo_sort (\<lambda>_ _. 0))
       [AtQueue (Acquire None 0), AtQueue (DropGuard (\<lambda>_. 1))] (live_start st) = Some (Inr s) \<and>
     idle s \<and> snd (lv_accounting s) = as_usage st"
proof -
  obtain config db and st :: "nat app_state" where st: "state_sound config db st" using sample_state by blast
  let ?q = "fst (as_fair_queue st)" and ?i = "snd (as_fair_queue st)"
  let ?evs = "[AtQueue (Acquire None 0), AtQueue (DropGuard (\<lambda>_. 1))]" and ?es = "[AcquireSlot None, ReleaseSlot]"
  let ?rs = "[(demo_env, demo_request, as_registry st, Abandoned 0 :: unit ending)]"
  from st have free: "in_flight ?i < fq_capacity ?q \<and> waiters ?i = []" by (auto simp: state_sound_def fq_inv_def)
  then obtain inner where a: "acquire_enter ?q None 0 ?i = (inner, None)" "0 < in_flight inner"
    by (simp add: acquire_enter_def Let_def)
  then obtain r where r: "release ?q (\<lambda>_. 1) inner = Inr r" by (simp add: release_def)
  let ?run = "run_events (live_exec ?q demo_sort (\<lambda>_ _. 0)) ?evs (live_start st)"
  have run: "\<exists>s. ?run = Some (Inr s) \<and> snd (lv_accounting s) = as_usage st"
    using a r by (simp add: live_start_def)
  have obs: "observed ?q demo_sort (\<lambda>_ _. 0) ?evs (live_start st) = ?es"
    using a r by (simp add: live_start_def)
  have "score_sort (pe_sort_scores demo_env)" by (simp add: demo_env_def demo_sort_ok)
  with st have rs: "\<forall>(env, req, reg, ending) \<in> set ?rs. reg_inv reg \<and> score_sort (pe_sort_scores env) \<and>
      length (reg_backends reg) = length (reg_backends (as_registry st))" by (simp add: state_sound_def)
  have es: "?es \<in> interleavings (map (\<lambda>(env, req, reg, ending). ended_trace env req reg ending) ?rs)"
    by (simp add: demo_abandoned)
  from run obtain s where s: "?run = Some (Inr s)" "snd (lv_accounting s) = as_usage st" by blast
  from running_server_safe [OF st demo_sort_ok rs es s(1)] obs have "idle s" by simp
  with st s show ?thesis by blast
qed

end
