(* ===== verification/Sessions.thy ===== *)
theory Sessions
  imports Auth
begin

text \<open>
  Passwords and sessions: the hashing and verification of \<open>crates/twl-auth/src/lib.rs\<close> around Argon2, the logout handler of
  \<open>handlers/session.rs\<close> and the purger of \<open>session_store.rs\<close>, with the properties that connect them to accounts and
  logins. Argon2, its encoding of salts and hashes and the random source are parameters.
\<close>

section \<open>Passwords\<close>

datatype verify_outcome = Verified | PasswordMismatch | VerifyError string

record 'ph argon2 =
  ar_encode_salt :: "string \<Rightarrow> string + string"
  ar_hash :: "string \<Rightarrow> string \<Rightarrow> string + string"
  ar_parse :: "string \<Rightarrow> string + 'ph"
  ar_verify :: "string \<Rightarrow> 'ph \<Rightarrow> verify_outcome"

text \<open>\<open>salt_bytes\<close> is what the random source filled in.\<close>

definition hash_password :: "'ph argon2 \<Rightarrow> string \<Rightarrow> string \<Rightarrow> string + string" where
  "hash_password ar salt_bytes password =
     bind_result (map_err (\<lambda>e. ''salt encoding: '' @ e) (ar_encode_salt ar salt_bytes)) (\<lambda>salt.
       map_err (\<lambda>e. ''argon2 hash: '' @ e) (ar_hash ar password salt))"

definition verify_password :: "'ph argon2 \<Rightarrow> string \<Rightarrow> string \<Rightarrow> string + bool" where
  "verify_password ar password stored_hash =
     bind_result (map_err (\<lambda>e. ''malformed stored hash: '' @ e) (ar_parse ar stored_hash)) (\<lambda>parsed.
       case ar_verify ar password parsed of
         Verified \<Rightarrow> Inr True
       | PasswordMismatch \<Rightarrow> Inr False
       | VerifyError e \<Rightarrow> Inl (''stored hash verification failed: '' @ e))"

text \<open>\<open>sample\<close> draws a string of the given length from letters and digits.\<close>

definition random_alphanumeric :: "(nat \<Rightarrow> string) \<Rightarrow> nat \<Rightarrow> string" where
  "random_alphanumeric sample len = sample len"

definition generate_random_password :: "(nat \<Rightarrow> string) \<Rightarrow> string" where
  "generate_random_password sample = random_alphanumeric sample 24"

text \<open>The hash an unknown user name is verified against; \<open>None\<close> is the panic of \<open>unwrap\<close>.\<close>

definition DUMMY_HASH :: "'ph argon2 \<Rightarrow> string \<Rightarrow> string option" where
  "DUMMY_HASH ar salt_bytes =
     (case hash_password ar salt_bytes ''this-is-a-dummy-password-for-timing-safety'' of Inr h \<Rightarrow> Some h | Inl _ \<Rightarrow> None)"

section \<open>Logout and expiry\<close>

text \<open>
  Logging out removes the session of the request, if it has one and the store could be reached; the answer is the same in
  any case.
\<close>

definition logout_api :: "bool \<Rightarrow> int option \<Rightarrow> session_map \<Rightarrow> response \<times> session_map" where
  "logout_api cleared session_id records =
     (ok_json, if cleared then (case session_id of Some i \<Rightarrow> session_delete i records | None \<Rightarrow> records) else records)"

text \<open>The purger wakes after every interval; \<open>wakes\<close> are the times at which it did.\<close>

definition session_purger :: "int list \<Rightarrow> session_map \<Rightarrow> session_map" where
  "session_purger wakes records = fold purge_expired wakes records"

definition purger_times :: "int \<Rightarrow> int \<Rightarrow> nat \<Rightarrow> int list" where
  "purger_times interval started n = map (\<lambda>k. started + interval * int k) [1..<n + 1]"

definition spawn_session_purger :: "int \<Rightarrow> nat \<Rightarrow> session_map \<Rightarrow> session_map" where
  "spawn_session_purger started n records = session_purger (purger_times SESSION_PURGE_INTERVAL started n) records"

section \<open>Lemmas\<close>

lemma purge_expired_Some: "purge_expired now records i = Some r \<longleftrightarrow> records i = Some r \<and> now < sr_expiry r"
  by (auto simp: purge_expired_def opt_filter_def split: option.splits)

lemma session_purger_Some:
  "session_purger wakes records i = Some r \<longleftrightarrow> records i = Some r \<and> (\<forall>t \<in> set wakes. t < sr_expiry r)"
  unfolding session_purger_def
  by (induction wakes arbitrary: records) (auto simp: purge_expired_Some)

text \<open>Nobody notices the purger: it removes only what \<open>load\<close> would not return any more.\<close>

lemma session_purger_transparent:
  assumes "\<forall>t \<in> set wakes. t \<le> now"
  shows "session_load now i (session_purger wakes records) = session_load now i records"
  using assms unfolding session_purger_def
  by (induction wakes arbitrary: records) (simp_all add: memory_store.load_purge)

lemma sr_id_self [simp]: "r\<lparr>sr_id := sr_id r\<rparr> = (r :: session_record)"
  by (cases r) simp

text \<open>The loop of \<open>create\<close> ends at the first identifier that is free and changes nothing else.\<close>

lemma session_create_first_free:
  assumes "\<exists>i \<in> set (sr_id r # draws). records i = None"
  shows "\<exists>i. session_create draws r records = Some (r\<lparr>sr_id := i\<rparr>, records(i \<mapsto> r\<lparr>sr_id := i\<rparr>)) \<and> records i = None \<and>
    i \<in> set (sr_id r # draws)"
  using assms
proof (induction draws arbitrary: r)
  case Nil
  then show ?case by (intro exI [of _ "sr_id r"]) (simp add: session_create.simps fun_upd_def)
next
  case (Cons d draws)
  show ?case
  proof (cases "records (sr_id r) = None")
    case True
    then show ?thesis by (intro exI [of _ "sr_id r"]) (simp add: session_create.simps fun_upd_def)
  next
    case False
    with Cons.prems have "\<exists>i \<in> set (sr_id (r\<lparr>sr_id := d\<rparr>) # draws). records i = None" by simp
    from Cons.IH [OF this] obtain i where
      i: "session_create draws (r\<lparr>sr_id := d\<rparr>) records = Some (r\<lparr>sr_id := i\<rparr>, records(i \<mapsto> r\<lparr>sr_id := i\<rparr>))"
         "records i = None" "i \<in> set (d # draws)" by (auto simp: fun_upd_def)
    have "session_create (d # draws) r records = session_create draws (r\<lparr>sr_id := d\<rparr>) records"
      using False by (subst session_create.simps) (simp only: list.case if_False)
    with i show ?thesis by (intro exI [of _ i] conjI) (simp_all only: list.set, simp)
  qed
qed

lemma distinct_draw_free:
  assumes "finite (dom records)" "distinct ids" "card (dom records) < length ids"
  shows "\<exists>i \<in> set ids. records i = None"
proof (rule ccontr)
  assume "\<not> ?thesis"
  then have "set ids \<subseteq> dom records" by auto
  from card_mono [OF assms(1) this] assms(2,3) show False by (simp add: distinct_card)
qed

text \<open>A stored hash of a password accepts that password and no other.\<close>

definition stores :: "'ph argon2 \<Rightarrow> string \<Rightarrow> string \<Rightarrow> bool" where
  "stores ar hash password \<longleftrightarrow> (\<forall>q. verify_password ar q hash = Inr (q = password))"

lemma hash_password_stores:
  assumes "\<forall>p s h. ar_hash ar p s = Inr h \<longrightarrow> (\<exists>ph. ar_parse ar h = Inr ph \<and>
      (\<forall>q. ar_verify ar q ph = (if q = p then Verified else PasswordMismatch)))"
    and "hash_password ar salt p = Inr h"
  shows "stores ar h p"
proof -
  obtain s where "ar_hash ar p s = Inr h" using assms(2) by (auto simp: hash_password_def bind_result_Inr)
  with assms(1) obtain ph where "ar_parse ar h = Inr ph" "\<forall>q. ar_verify ar q ph = (if q = p then Verified else PasswordMismatch)"
    by blast
  then show ?thesis by (simp add: stores_def verify_password_def)
qed

lemma stores_unique:
  assumes "stores ar h p" "stores ar h q"
  shows "p = q"
proof -
  from assms(2) have "verify_password ar p h = Inr (p = q)" unfolding stores_def ..
  moreover from assms(1) have "verify_password ar p h = Inr (p = p)" unfolding stores_def ..
  ultimately show ?thesis by simp
qed

lemma authenticate_stored:
  assumes "get_user username db = Some row" "stores ar (us_password_hash row) password"
  shows "authenticate (verify_password ar) dummy (\<lambda>n. Inr (get_user n db)) None username p =
    Inr (if p = password then Some (from_row row) else None)"
  using assms by (simp add: authenticate_def stores_def)

lemma create_user_row_found:
  assumes "create_user clock hash username password adm db = (Inr i, db')"
  shows "\<exists>row. get_user username db' = Some row \<and> hash password = Inr (us_password_hash row) \<and> us_id row = i \<and> us_is_admin row = adm \<and>
    us_username row = username"
proof -
  have fresh: "find P (us @ [u]) = Some u" if "\<forall>v \<in> set us. \<not> P v" "P u" for P us and u :: user_row
    using that by (induction us) auto
  show ?thesis using assms
    by (auto simp: create_user_def create_user_row_def get_user_def Let_def fresh
          split: if_split_asm option.split_asm sum.split_asm db_error.split_asm)
qed

lemma reset_password_found:
  assumes "reset_password hash i password db = (Inr (), db')" "get_user username db = Some row" "us_id row = i"
  shows "\<exists>row'. get_user username db' = Some row' \<and> hash password = Inr (us_password_hash row') \<and> us_id row' = i \<and>
    us_is_admin row' = us_is_admin row \<and> us_username row' = us_username row"
proof -
  from assms(1) obtain h where h: "hash password = Inr h" "db' = snd (replace_password_and_revoke_keys i h db)"
    by (auto simp: reset_password_def split: if_split_asm option.split_asm sum.split_asm prod.split_asm)
  have swap: "find (\<lambda>u. us_username u = username) (map (\<lambda>u. if us_id u = i then u\<lparr>us_password_hash := h\<rparr> else u) us) =
      map_option (\<lambda>u. if us_id u = i then u\<lparr>us_password_hash := h\<rparr> else u) (find (\<lambda>u. us_username u = username) us)" for us
    by (induction us) auto
  have "db_users db' = map (\<lambda>u. if us_id u = i then u\<lparr>us_password_hash := h\<rparr> else u) (db_users db)"
    by (simp add: h(2) replace_password_and_revoke_keys_def update_where_def delete_api_keys_for_user_def)
  with assms(2,3) have "get_user username db' = Some (row\<lparr>us_password_hash := h\<rparr>)"
    by (simp only: get_user_def swap) simp
  with h(1) assms(3) show ?thesis by simp
qed

section \<open>Properties\<close>



text \<open>
  C24: The password that was set is the password that logs in. Once an account is created, its user name logs in with exactly
  the password it was created with, as the user created; after an administrator resets the password, with exactly the new
  one; and when the two differ the hash that sessions are bound to differs as well, so that sessions of the old password
  are no longer honoured.
\<close>

theorem password_login_roundtrip:
  assumes argon2_checks: "\<forall>p s h. ar_hash ar p s = Inr h \<longrightarrow> (\<exists>ph. ar_parse ar h = Inr ph \<and>
      (\<forall>q. ar_verify ar q ph = (if q = p then Verified else PasswordMismatch)))"
    and created: "create_user clock (hash_password ar salt1) username password adm db = (Inr i, db1)"
    and reset: "reset_password (hash_password ar salt2) i password' db1 = (Inr (), db2)"
  shows "\<exists>u u'. lu_id u = i \<and> lu_username u = username \<and> lu_is_admin u = adm \<and> u' = u\<lparr>lu_password_hash := lu_password_hash u'\<rparr> \<and>
    (\<forall>p. authenticate (verify_password ar) dummy (\<lambda>n. Inr (get_user n db1)) None username p =
           Inr (if p = password then Some u else None)) \<and>
    (\<forall>p. authenticate (verify_password ar) dummy (\<lambda>n. Inr (get_user n db2)) None username p =
           Inr (if p = password' then Some u' else None)) \<and>
    (password = password' \<or> session_auth_hash u \<noteq> session_auth_hash u')"
proof -
  obtain row where row: "get_user username db1 = Some row" "hash_password ar salt1 password = Inr (us_password_hash row)"
    "us_id row = i" "us_is_admin row = adm" "us_username row = username" using create_user_row_found [OF created] by blast
  obtain row' where row': "get_user username db2 = Some row'" "hash_password ar salt2 password' = Inr (us_password_hash row')"
    "us_id row' = i" "us_is_admin row' = adm" "us_username row' = username"
    using reset_password_found [OF reset row(1,3)] row(4,5) by blast
  note stored = hash_password_stores [OF argon2_checks row(2)] hash_password_stores [OF argon2_checks row'(2)]
  show ?thesis
    using authenticate_stored [OF row(1) stored(1), of dummy] authenticate_stored [OF row'(1) stored(2), of dummy]
      stores_unique [of ar "us_password_hash row" password password'] stored row(3-5) row'(3-5)
    by (intro exI [of _ "from_row row"] exI [of _ "from_row row'"])
       (auto simp: from_row_def session_auth_hash_def)
qed


definition sample_argon2 :: "string argon2" where
  "sample_argon2 =
     \<lparr>ar_encode_salt = Inr, ar_hash = (\<lambda>p s. Inr p), ar_parse = Inr,
      ar_verify = (\<lambda>q ph. if q = ph then Verified else PasswordMismatch)\<rparr>"

theorem password_login_roundtrip_witness:
  "\<exists>db1 db2 u'. create_user (Some 0) (hash_password sample_argon2 []) ''ann'' ''password'' True db_empty = (Inr 1, db1) \<and>
     reset_password (hash_password sample_argon2 []) 1 ''passw0rd'' db1 = (Inr (), db2) \<and>
     authenticate (verify_password sample_argon2) [] (\<lambda>n. Inr (get_user n db2)) None ''ann'' ''passw0rd'' = Inr (Some u') \<and>
     authenticate (verify_password sample_argon2) [] (\<lambda>n. Inr (get_user n db2)) None ''ann'' ''password'' = Inr None"
proof -
  have name: "username_ok ''ann''" "password_has_minimum_length ''password''" "password_has_minimum_length ''passw0rd''"
    by code_simp+
  have hash: "hash_password sample_argon2 [] p = Inr p" for p by (simp add: hash_password_def sample_argon2_def)
  obtain db1 where c: "create_user (Some 0) (hash_password sample_argon2 []) ''ann'' ''password'' True db_empty = (Inr 1, db1)"
    "db_users db1 = [\<lparr>us_id = 1, us_username = ''ann'', us_password_hash = ''password'', us_is_admin = True, us_created_ts = 0\<rparr>]"
    by (simp add: create_user_def name hash create_user_row_def db_empty_def i64_max_def)
  obtain db2 where r: "reset_password (hash_password sample_argon2 []) 1 ''passw0rd'' db1 = (Inr (), db2)"
    by (simp add: reset_password_def name hash get_user_by_id_def c(2) replace_password_and_revoke_keys_def update_where_def
          update_result_def)
  have checks: "\<forall>p s h. ar_hash sample_argon2 p s = Inr h \<longrightarrow> (\<exists>ph. ar_parse sample_argon2 h = Inr ph \<and>
      (\<forall>q. ar_verify sample_argon2 q ph = (if q = p then Verified else PasswordMismatch)))"
    by (simp add: sample_argon2_def)
  from password_login_roundtrip [OF checks c(1) r, of "[]"] c(1) r show ?thesis by auto
qed

end
