(* ===== verification/Spec2Isabelle.thy ===== *)
theory Spec2Isabelle
  imports Running Sessions
begin

text \<open>
  \<^bold>\<open>Verification of TokenWeasel\<close>, a reverse proxy in front of LLM servers that authenticates clients, admits their
  requests fairly, routes them to backends by model, and accounts for tokens, energy and cost.

  \<^bold>\<open>The program and its parts.\<close> A configuration is resolved from command line, environment and file
  (\<open>twl-config\<close>); startup opens the database (\<open>twl-store/db.rs\<close>), loads or generates the TLS certificate (\<open>tls.rs\<close>) and
  builds the shared state, the routes and their layers (\<open>server.rs\<close>, \<open>state.rs\<close>). A proxied request runs through
  \<open>proxy/mod.rs\<close>: the client key is validated (\<open>twl-auth\<close>, \<open>twl-store/identity.rs\<close>), the admission queue grants a
  slot (\<open>fair_queue.rs\<close>), the body is prepared (\<open>proxy/body.rs\<close>), the registry orders the backends of the model
  (\<open>twl-backends\<close>), headers are filtered (\<open>proxy/headers.rs\<close>), backends are tried until one can be reached, and
  the response is streamed while usage is extracted (\<open>proxy/stream.rs\<close>, \<open>twl-provider\<close>). When the response ends, usage
  and energy go to a bounded writer (\<open>sink.rs\<close>) and into the usage store (\<open>twl-store/usage.rs\<close>), which the statistics
  endpoints (\<open>routes.rs\<close>, \<open>metrics.rs\<close>) read and price (\<open>twl-pricing\<close>). The management API (\<open>auth.rs\<close>,
  \<open>handlers/\<close>, \<open>ratelimit.rs\<close>, \<open>session_store.rs\<close>) and the background tasks (\<open>watchdog.rs\<close>, \<open>retention.rs\<close>) complete it.

  \<^bold>\<open>The theories\<close>, in the order of their dependencies, all source paths below \<open>src/crates\<close>:

  \<^item> \<open>Prelude\<close>, \<open>Strings\<close>, \<open>F64\<close>, \<open>Json\<close>, \<open>Sql\<close>: what the crates use of Rust, IEEE doubles, \<open>serde_json\<close> and SQL.
    An \<open>i64\<close> is an \<open>int\<close> with saturating, checked or wrapping operations where the source has them, a \<open>u64\<close> or
    \<open>u32\<close> a word, a \<open>usize\<close> a \<open>nat\<close>, a string the list of its bytes, a double is NaN, an infinity or a
    rational with every operation rounded.
  \<^item> \<open>Types\<close> (\<open>twl-types\<close>), \<open>Pricing\<close> (\<open>twl-pricing\<close>): records and the cost of a usage.
  \<^item> \<open>Energy\<close> (\<open>twl-backends/energy.rs\<close>): the meter, with the interface \<open>energy_sink\<close> that \<open>Sink\<close> implements.
  \<^item> \<open>Provider\<close>, \<open>UsageExtract\<close> (\<open>twl-provider\<close>): model listings and usage from JSON.
  \<^item> \<open>Backends\<close>, \<open>Routing\<close> (\<open>twl-backends/lib.rs\<close>): the registry, then its invariant and routing properties.
  \<^item> \<open>FairQueue\<close> (\<open>fair_queue.rs\<close>): the locked state and a step relation of the runtime around it; \<open>Fairness\<close> is about
    its runs.
  \<^item> \<open>Headers\<close>, \<open>Body\<close>, \<open>UsageStream\<close>, \<open>Proxy\<close> (\<open>proxy/\<close>): filters, bodies, accounting streams and the handler.
    The handler returns its response, the registry and the trace of its effects on shared components, so that several
    requests interleave as merges of traces.
  \<^item> \<open>Identity\<close>, \<open>UsageStore\<close> (\<open>twl-store\<close>), \<open>Sink\<close> (\<open>sink.rs\<close>, \<open>retention.rs\<close>): tables as lists of rows with the
    constraints of the schema, each query as joins, groups and checked sums; the writer and the pruner.
  \<^item> \<open>Database\<close> (\<open>twl-store/db.rs\<close>, \<open>schema.sql\<close>): connections with their settings, the schema with its backfill, the
    pool, and the constructors of the two stores.
  \<^item> \<open>Accounting\<close>: the effects of \<open>Proxy\<close>, the queue of \<open>Sink\<close> and the table of \<open>UsageStore\<close> composed into one system.
  \<^item> \<open>Accounts\<close> (\<open>twl-auth\<close>), \<open>RateLimit\<close> (\<open>ratelimit.rs\<close>), \<open>Auth\<close> (\<open>auth.rs\<close>, \<open>handlers/session.rs\<close>,
    \<open>session_store.rs\<close>), \<open>Handlers\<close> (\<open>handlers/accounts.rs\<close>): accounts, throttle, login, guard and management API.
  \<^item> \<open>Sessions\<close> (\<open>twl-auth/lib.rs\<close>, \<open>handlers/session.rs\<close>, \<open>session_store.rs\<close>): password hashing around Argon2, logout and
    the purger of sessions.
  \<^item> \<open>Config\<close>, \<open>ConfigResolve\<close> (\<open>twl-config\<close>): every layer and validation, \<open>Config::resolve\<close>, the \<open>Debug\<close> output.
  \<^item> \<open>AppState\<close>, \<open>Localtime\<close>, \<open>Routes\<close>, \<open>Metrics\<close>, \<open>Watchdog\<close>, \<open>Server\<close> (the files of these names under
    \<open>twl-server/src\<close>): shared state, statistics endpoints, exposition, polling tasks and startup.
  \<^item> \<open>Tls\<close> (\<open>tls.rs\<close>): certificate and key on an explicit file system of locations with contents and permission bits.
  \<^item> \<open>Serve\<close> (\<open>server.rs\<close>, \<open>twl/src/main.rs\<close>): the application with its layers, both ways of serving, and the exit status.
  \<^item> \<open>Running\<close>: the handlers of \<open>Proxy\<close>, each of which its client may abandon at an \<open>await\<close>, on the state that \<open>Serve\<close>
    built: \<open>FairQueue\<close>, \<open>Routing\<close>, \<open>Energy\<close> and \<open>Accounting\<close> composed into one system, related to interleavings of traces
    by the effects its events show.

  \<^bold>\<open>What the lemmas show.\<close> \<open>Proxy\<close>: at most one upstream ever receives a request, nothing happens without the
  key where one is required, and all slots, loads and meters are released exactly once under every interleaving.
  \<open>Running\<close>: on the state that startup built no component fails, no guard is dropped that nobody holds, and nothing is held
  when all requests are over, whoever went away in between.
  \<open>FairQueue\<close>: capacity, fairness of the choice, no lost wakeup, the window refines a count of admissions;
  \<open>Fairness\<close>: nobody is overtaken while waiting. \<open>Routing\<close>:
  no panic, exactly the advertising backends, bounded cache affinity. \<open>UsageStream\<close>, \<open>UsageExtract\<close>, \<open>UsageStore\<close>,
  \<open>Energy\<close>, \<open>Pricing\<close>: bytes pass unchanged and the recorded usage depends only on their concatenation; statistics add
  up; energy is the measure of the union of busy intervals; costs are finite, non-negative and monotone. \<open>Identity\<close>,
  \<open>Accounts\<close>, \<open>Auth\<close>, \<open>Handlers\<close>, \<open>RateLimit\<close> and this theory: consistency of the tables, the last
  administrator, atomic password changes, key life cycle, who passes the guard and what each caller may change or read.
  \<open>Sessions\<close>: the password that was set is the one that logs in, and the loop that redraws session identifiers ends.
  \<open>Accounting\<close>: what is stored is what the requests booked, whatever interleaves or fails. \<open>Database\<close>: opening migrates,
  keeps every row and is idempotent; all connections have the same settings. \<open>Tls\<close>: only the two files are touched, a new
  key is private, and a restart reuses the identity. \<open>ConfigResolve\<close>, \<open>Server\<close>, \<open>Serve\<close>: precedence, validation,
  redaction, and that the server starts in a state with the invariants which the theorems of the other components assume,
  behind the security headers, or not at all. \<open>Watchdog\<close>, \<open>Sink\<close>, \<open>Metrics\<close>, \<open>Routes\<close>: catalogs follow the polls,
  queues are bounded, retention is exact, names cannot forge samples, statistics are scoped.

  \<^bold>\<open>Parameters and bounds.\<close> Code outside the repository is an argument of the definitions that use it: JSON parsing
  and printing, URL, address and header parsing, hashes, the random source, clocks, time zones, the replies of upstreams,
  the orders that SQL or a hash map leaves open, and failures of I/O. What a theorem needs of them is a hypothesis with
  a witness. Loops of the source are total functions with their termination proofs (the admission loop by the
  number of waiters); the loop of \<open>session_store.rs\<close> that redraws taken identifiers takes the list of its draws and is shown to end, and
  the day search of \<open>localtime.rs\<close> has the bound of 366 days of the source. Two properties bound sizes that the
  source leaves open: a registry has at most 2 to the power 32 backends, whose indices the source keeps in 32 bits, and affinity is
  shown for up to 2 to the power 20 backends of one model. Critical sections of a mutex and single SQL transactions are atomic steps.

  \<^bold>\<open>Not modelled.\<close> Sockets, signals and the serving loop are parameters that may fail; the expiry of body timeouts and logging
  are left out, except for the choice of the log filter; the matching of paths and the decoding of bodies belong to axum, the parsing of
  arguments to clap, certificates and handshakes to rcgen and rustls; I/O failures inside a transaction of the identity store
  are not distinguished from its success or its constraint errors; the front end under \<open>web/\<close> is another language.

  This theory holds the property that spans the guard, the management API and the tables.
\<close>

section \<open>Sequences of guarded requests\<close>

text \<open>A request to a management route: what the session layer found, the headers, the path and the decoded request.\<close>

record guarded_request =
  gr_session :: "login_user option"
  gr_headers :: header_map
  gr_path :: string
  gr_env :: api_env
  gr_request :: api_request

text \<open>The route with its guard: the response, the tables and who was let in.\<close>

definition guarded_api ::
    "(string \<Rightarrow> string option) \<Rightarrow> guarded_request \<Rightarrow> database \<Rightarrow> response \<times> database \<times> auth_user option" where
  "guarded_api to_str req db =
     (case require_auth to_str (env_sha256_hex (gr_env req)) (\<lambda>h. Inr (get_api_key_user h db)) (gr_session req)
             (gr_headers req) (gr_path req) of
        Inl r \<Rightarrow> (r, db, None)
      | Inr user \<Rightarrow> (case management_api (gr_env req) user (gr_request req) db of (r, db') \<Rightarrow> (r, db', Some user)))"

fun guarded_run :: "(string \<Rightarrow> string option) \<Rightarrow> guarded_request list \<Rightarrow> database \<Rightarrow> auth_user list \<times> database" where
  "guarded_run to_str [] db = ([], db)"
| "guarded_run to_str (req # reqs) db =
     (case guarded_api to_str req db of (r, db', who) \<Rightarrow>
        (case guarded_run to_str reqs db' of (users, db'') \<Rightarrow>
           ((case who of None \<Rightarrow> users | Some u \<Rightarrow> u # users), db'')))"

definition user_roles :: "database \<Rightarrow> user_row list" where
  "user_roles db = map (\<lambda>u. u\<lparr>us_password_hash := []\<rparr>) (db_users db)"

definition keys_of_others :: "int set \<Rightarrow> database \<Rightarrow> key_row list" where
  "keys_of_others ids db = filter (\<lambda>k. kr_user_id k \<notin> ids) (db_keys db)"

definition hashes_of_others :: "int set \<Rightarrow> database \<Rightarrow> user_row list" where
  "hashes_of_others ids db = filter (\<lambda>u. us_id u \<notin> ids) (db_users db)"

lemma filter_notin_insert: "filter (\<lambda>x. f x \<notin> insert i S) xs = filter (\<lambda>x. f x \<notin> S) (filter (\<lambda>x. f x \<noteq> i) xs)"
  by (induction xs) auto

lemma protected_of_parts:
  assumes "protected_of i db' = protected_of i db"
  shows "user_roles db' = user_roles db" "keys_of_others (insert i S) db' = keys_of_others (insert i S) db"
    "hashes_of_others (insert i S) db' = hashes_of_others (insert i S) db"
  using assms
  unfolding protected_of_def user_roles_def keys_of_others_def hashes_of_others_def filter_notin_insert prod.inject
  by simp_all

lemma others_mono:
  assumes "S \<subseteq> T"
  shows "keys_of_others S db' = keys_of_others S db \<Longrightarrow> keys_of_others T db' = keys_of_others T db"
    "hashes_of_others S db' = hashes_of_others S db \<Longrightarrow> hashes_of_others T db' = hashes_of_others T db"
proof -
  have "filter (\<lambda>x. f x \<notin> T) xs = filter (\<lambda>x. f x \<notin> T) (filter (\<lambda>x. f x \<notin> S) xs)" for f :: "'a \<Rightarrow> int" and xs
    using assms by (induction xs) auto
  moreover have "filter (\<lambda>x. f x \<notin> T) xs = filter (\<lambda>x. f x \<notin> T) (filter (\<lambda>x. f x \<notin> S) xs)" for f :: "'b \<Rightarrow> int" and xs
    using assms by (induction xs) auto
  ultimately show "keys_of_others S db' = keys_of_others S db \<Longrightarrow> keys_of_others T db' = keys_of_others T db"
    "hashes_of_others S db' = hashes_of_others S db \<Longrightarrow> hashes_of_others T db' = hashes_of_others T db"
    unfolding keys_of_others_def hashes_of_others_def by metis+
qed

section \<open>Properties\<close>

text \<open>
  C10: Nothing short of administrator rights changes who is who. Take any sequence of requests to the management
  routes, with whatever sessions and headers, each going through the guard and then its handler on the tables that the
  ones before left. If nobody was let in as an administrator, the users at the end are those at the beginning
  with the same names and roles; passwords differ only for users who were let in, and so do keys; whoever has not
  been let in at all has changed nothing.
\<close>

theorem unprivileged_requests_confined:
  assumes "guarded_run to_str reqs db = (users, db')" "\<forall>u \<in> set users. \<not> au_is_admin u"
  shows "user_roles db' = user_roles db \<and>
    hashes_of_others (au_id ` set users) db' = hashes_of_others (au_id ` set users) db \<and>
    keys_of_others (au_id ` set users) db' = keys_of_others (au_id ` set users) db \<and>
    (if users = [] then db' = db else True)"
  using assms
proof (induction reqs arbitrary: users db)
  case (Cons req reqs)
  obtain r db1 who where g: "guarded_api to_str req db = (r, db1, who)" by (metis surj_pair)
  obtain us where run: "guarded_run to_str reqs db1 = (us, db')" and users: "users = (case who of None \<Rightarrow> us | Some u \<Rightarrow> u # us)"
    using Cons.prems(1) by (auto simp: g split: prod.splits)
  have "\<forall>u \<in> set us. \<not> au_is_admin u" using Cons.prems(2) users by (auto split: option.splits)
  note IH = Cons.IH [OF run this]
  show ?case
  proof (cases who)
    case None
    then have "db1 = db" using g by (auto simp: guarded_api_def split: sum.splits prod.splits)
    with IH None users show ?thesis by simp
  next
    case (Some u)
    then have "db1 = snd (management_api (gr_env req) u (gr_request req) db)"
      using g by (auto simp: guarded_api_def split: sum.splits prod.splits)
    moreover have "\<not> au_is_admin u" using Cons.prems(2) users Some by simp
    ultimately have "protected_of (au_id u) db1 = protected_of (au_id u) db" by (simp add: management_not_admin)
    note step = protected_of_parts(1) [OF this] protected_of_parts(2,3) [OF this, of "au_id ` set us"]
    have "au_id ` set us \<subseteq> insert (au_id u) (au_id ` set us)" by blast
    note mono = others_mono [OF this, of db' db1]
    show ?thesis using IH step mono users Some by simp
  qed
qed simp

definition sample_request :: guarded_request where
  "sample_request = \<lparr>gr_session = None, gr_headers = [], gr_path = ''/api/users'', gr_env = sample_env, gr_request = DeleteUserReq 1\<rparr>"

theorem unprivileged_requests_confined_witness:
  "guarded_run Some [sample_request] demo_db = ([], demo_db) \<and> user_roles (snd (guarded_run Some [sample_request] demo_db)) = user_roles demo_db"
proof -
  have run: "guarded_run Some [sample_request] demo_db = ([], demo_db)"
    by (simp add: guarded_api_def sample_request_def require_auth_def header_get_def)
  with unprivileged_requests_confined [OF run] show ?thesis by simp
qed

end
